(* ===== verification/Prelude.thy ===== *)
theory Prelude
  imports Main "HOL-Library.Word" "HOL-Library.List_Lexorder"
begin

text \<open>
  The vocabulary every component shares: machine integers, byte buffers, the array idioms of
  the C sources (\<^verbatim>\<open>memmove\<close> to open or close a gap, \<^verbatim>\<open>memcpy\<close> into an array) and the generic
  facts about them. The named collections are filled by the component theories:

  \<^item> \<open>codec\<close>: lengths and inverse laws of the byte encoders;
  \<^item> \<open>wf\<close>: unfolding rules of the well-formedness predicates;
  \<^item> \<open>op_defs\<close>: definitions of the operations that are unfolded only on purpose.
\<close>

named_theorems codec \<open>lengths and inverse laws of the byte encoders\<close>
named_theorems wf \<open>unfolding rules of the well-formedness predicates\<close>
named_theorems op_defs \<open>definitions of operations, unfolded on purpose\<close>

section \<open>Types\<close>

type_synonym byte = "8 word"
type_synonym u8 = "8 word"
type_synonym u16 = "16 word"
type_synonym u32 = "32 word"
type_synonym u64 = "64 word"
type_synonym bytes = "byte list"

abbreviation UINT64_MAX :: u64 where
  "UINT64_MAX \<equiv> - 1"

section \<open>Array idioms\<close>

text \<open>\<^verbatim>\<open>memmove(&a[pos+1], &a[pos], ...); a[pos] = x;\<close>\<close>

definition insert_at :: "nat \<Rightarrow> 'a \<Rightarrow> 'a list \<Rightarrow> 'a list" where
  "insert_at pos x xs = take pos xs @ x # drop pos xs"

text \<open>\<^verbatim>\<open>memmove(&a[i], &a[i+1], ...); n--;\<close>\<close>

definition remove_at :: "nat \<Rightarrow> 'a list \<Rightarrow> 'a list" where
  "remove_at i xs = take i xs @ drop (Suc i) xs"

text \<open>\<^verbatim>\<open>memcpy(dst, src, n)\<close> into the front of a fixed-size array.\<close>

definition memcpy_into :: "'a list \<Rightarrow> 'a list \<Rightarrow> 'a list" where
  "memcpy_into dst src = src @ drop (length src) dst"

text \<open>\<^verbatim>\<open>memcmp(a, b, n)\<close> on buffers of \<open>n\<close> bytes: the sign of the first difference.\<close>

fun memcmp :: "bytes \<Rightarrow> bytes \<Rightarrow> int" where
  "memcmp (x # xs) (y # ys) = (if x < y then -1 else if y < x then 1 else memcmp xs ys)"
| "memcmp _ _ = 0"

section \<open>Lemmas on the array idioms\<close>

lemma length_insert_at [simp]: "length (insert_at pos x xs) = Suc (length xs)"
  by (simp add: insert_at_def)

lemma length_remove_at [simp]: "i < length xs \<Longrightarrow> length (remove_at i xs) = length xs - 1"
  by (simp add: remove_at_def)

lemma length_memcpy_into [simp]:
  "length src \<le> length dst \<Longrightarrow> length (memcpy_into dst src) = length dst"
  by (simp add: memcpy_into_def)

lemma take_memcpy_into [simp]: "take (length src) (memcpy_into dst src) = src"
  by (simp add: memcpy_into_def)

lemma drop_memcpy_into [simp]: "drop (length src) (memcpy_into dst src) = drop (length src) dst"
  by (simp add: memcpy_into_def)

lemma memcpy_into_self: "memcpy_into dst (take n dst) = dst"
  by (cases "n \<le> length dst") (simp_all add: memcpy_into_def min_def)

lemma drop_split: "drop i xs = take n (drop i xs) @ drop (i + n) xs"
  using append_take_drop_id [of n "drop i xs"] by (simp add: add.commute)

lemma set_insert_at [simp]: "set (insert_at pos x xs) = insert x (set xs)"
proof -
  have "set xs = set (take pos xs) \<union> set (drop pos xs)"
    by (metis append_take_drop_id set_append)
  then show ?thesis by (auto simp: insert_at_def)
qed

lemma set_remove_at_subset: "set (remove_at i xs) \<subseteq> set xs"
  by (auto simp: remove_at_def dest: in_set_takeD in_set_dropD)

lemma list_update_split:
  "i < length xs \<Longrightarrow> xs[i := y] = take i xs @ y # drop (Suc i) xs"
  by (rule upd_conv_take_nth_drop)

lemma nth_split:
  "i < length xs \<Longrightarrow> xs = take i xs @ xs ! i # drop (Suc i) xs"
  by (rule id_take_nth_drop)

lemma sum_list_insert_at [simp]:
  fixes f :: "'a \<Rightarrow> nat"
  shows "sum_list (map f (insert_at pos x xs)) = f x + sum_list (map f xs)"
proof -
  have "sum_list (map f (take pos xs)) + sum_list (map f (drop pos xs)) = sum_list (map f xs)"
    by (metis append_take_drop_id map_append sum_list_append)
  then show ?thesis by (simp add: insert_at_def)
qed

lemma sum_list_remove_at:
  fixes f :: "'a \<Rightarrow> nat"
  assumes "i < length xs"
  shows "sum_list (map f (remove_at i xs)) + f (xs ! i) = sum_list (map f xs)"
proof -
  have "sum_list (map f xs) = sum_list (map f (take i xs @ xs ! i # drop (Suc i) xs))"
    using nth_split [OF assms] by simp
  then show ?thesis by (simp add: remove_at_def)
qed

lemma sum_list_list_update:
  fixes f :: "'a \<Rightarrow> nat"
  assumes "i < length xs"
  shows "sum_list (map f (xs[i := y])) + f (xs ! i) = sum_list (map f xs) + f y"
proof -
  have "sum_list (map f xs) = sum_list (map f (take i xs @ xs ! i # drop (Suc i) xs))"
    using nth_split [OF assms] by simp
  then show ?thesis by (simp add: list_update_split [OF assms])
qed

section \<open>\<open>memcmp\<close> is the lexicographic order\<close>

lemma memcmp_less_iff: "length a = length b \<Longrightarrow> memcmp a b < 0 \<longleftrightarrow> a < b"
  by (induction a b rule: memcmp.induct) (auto simp: not_less)

lemma memcmp_eq_iff: "length a = length b \<Longrightarrow> memcmp a b = 0 \<longleftrightarrow> a = b"
  by (induction a b rule: memcmp.induct) auto

lemma memcmp_greater_iff: "length a = length b \<Longrightarrow> 0 < memcmp a b \<longleftrightarrow> b < a"
  by (induction a b rule: memcmp.induct) (auto simp: not_less)

lemmas memcmp_iffs = memcmp_less_iff memcmp_eq_iff memcmp_greater_iff

section \<open>Arithmetic that does not wrap\<close>

lemma unat_u64_less: "unat (x :: u64) < 2 ^ 64"
  using unsigned_less [of x] by simp

lemma unat_u32_less: "unat (x :: u32) < 2 ^ 32"
  using unsigned_less [of x] by simp

lemma unat_ucast_u32 [simp]: "unat (ucast (x :: u32) :: u64) = unat x"
  using unat_u32_less [of x] by (simp add: unsigned_ucast_eq take_bit_nat_eq_self)

lemma unat_add_nowrap: "unat (a :: u64) + unat b < 2 ^ 64 \<Longrightarrow> unat (a + b) = unat a + unat b"
  by (simp add: unat_word_ariths)

lemma unat_mult_nowrap: "unat (a :: u64) * unat b < 2 ^ 64 \<Longrightarrow> unat (a * b) = unat a * unat b"
  by (simp add: unat_word_ariths)

lemma unat_sub_nowrap: "(b :: u64) \<le> a \<Longrightarrow> unat (a - b) = unat a - unat b"
  by (rule unat_sub)

lemma unat_Suc_nowrap: "(a :: u64) < b \<Longrightarrow> unat (a + 1) = Suc (unat a)"
  using unat_u64_less [of b] by (subst unat_add_nowrap) (simp_all add: word_less_nat_alt)

lemma u64_le_max_diff: "(a :: u64) \<le> UINT64_MAX - b \<longleftrightarrow> unat a + unat b < 2 ^ 64"
proof -
  have "unat (UINT64_MAX - b) = unat UINT64_MAX - unat b"
    by (rule unat_sub_nowrap) simp
  then show ?thesis
    using unat_u64_less [of b] by (auto simp: word_le_nat_alt unsigned_minus_1_eq_mask mask_eq_exp_minus_1)
qed

lemma u64_le_max_div:
  assumes "(b :: u64) \<noteq> 0"
  shows "(a :: u64) \<le> UINT64_MAX div b \<longleftrightarrow> unat a * unat b < 2 ^ 64"
proof -
  have "0 < unat b" using assms by (simp add: unat_gt_0)
  then have "unat a \<le> (2 ^ 64 - 1) div unat b \<longleftrightarrow> unat a * unat b \<le> 2 ^ 64 - 1"
    by (rule less_eq_div_iff_mult_less_eq)
  then show ?thesis
    by (auto simp: word_le_nat_alt unat_div unsigned_minus_1_eq_mask mask_eq_exp_minus_1)
qed

end
