(* ===== verification/Common.thy ===== *)
theory Common
  imports Prelude
begin

unbundle bit_operations_syntax

text \<open>
  The shared helpers of \<^verbatim>\<open>common.h\<close> and \<^verbatim>\<open>common.c\<close>: comparisons of fixed-size byte arrays,
  big-endian integers, hexadecimal text, constant-time equality and the integer square root.
  Byte arrays are lists; \<open>ac_addr\<close>, \<open>ac_hash\<close> and \<open>ac_sig\<close> are the lists of 32, 32 and 64
  bytes of the structs \<^verbatim>\<open>ac_addr_t\<close>, \<^verbatim>\<open>ac_hash_t\<close> and \<^verbatim>\<open>ac_sig_t\<close>, and the predicates
  \<open>wf_addr\<close>, \<open>wf_hash\<close>, \<open>wf_sig\<close> say so. Logging, the clock and the file system are not modelled
  here: the clock and the outcome of a write are arguments of the operations that use them.
\<close>

section \<open>Fixed-size arrays\<close>

definition AC_PUBKEY_SIZE :: nat where "AC_PUBKEY_SIZE = 32"
definition AC_PRIVKEY_SIZE :: nat where "AC_PRIVKEY_SIZE = 64"
definition AC_SEED_SIZE :: nat where "AC_SEED_SIZE = 32"
definition AC_HASH_SIZE :: nat where "AC_HASH_SIZE = 32"
definition AC_SIG_SIZE :: nat where "AC_SIG_SIZE = 64"
definition AC_VRF_PROOF_SIZE :: nat where "AC_VRF_PROOF_SIZE = 64"
definition AC_VRF_OUT_SIZE :: nat where "AC_VRF_OUT_SIZE = 32"

lemmas sizes [simp] =
  AC_PUBKEY_SIZE_def AC_PRIVKEY_SIZE_def AC_SEED_SIZE_def AC_HASH_SIZE_def AC_SIG_SIZE_def
  AC_VRF_PROOF_SIZE_def AC_VRF_OUT_SIZE_def

type_synonym ac_addr = bytes
type_synonym ac_hash = bytes
type_synonym ac_sig = bytes

definition wf_addr :: "ac_addr \<Rightarrow> bool" where [wf]: "wf_addr a \<longleftrightarrow> length a = AC_PUBKEY_SIZE"
definition wf_hash :: "ac_hash \<Rightarrow> bool" where [wf]: "wf_hash h \<longleftrightarrow> length h = AC_HASH_SIZE"
definition wf_sig :: "ac_sig \<Rightarrow> bool" where [wf]: "wf_sig s \<longleftrightarrow> length s = AC_SIG_SIZE"

definition zeros :: "nat \<Rightarrow> bytes" where "zeros n = replicate n 0"

definition ac_addr_cmp :: "ac_addr \<Rightarrow> ac_addr \<Rightarrow> int" where
  "ac_addr_cmp a b = memcmp a b"

definition ac_hash_cmp :: "ac_hash \<Rightarrow> ac_hash \<Rightarrow> int" where
  "ac_hash_cmp a b = memcmp a b"

definition ac_addr_eq :: "ac_addr \<Rightarrow> ac_addr \<Rightarrow> bool" where
  "ac_addr_eq a b \<longleftrightarrow> ac_addr_cmp a b = 0"

definition ac_hash_eq :: "ac_hash \<Rightarrow> ac_hash \<Rightarrow> bool" where
  "ac_hash_eq a b \<longleftrightarrow> ac_hash_cmp a b = 0"

definition ac_addr_is_zero :: "ac_addr \<Rightarrow> bool" where
  "ac_addr_is_zero a \<longleftrightarrow> list_all (\<lambda>b. b = 0) a"

section \<open>Big-endian integers\<close>

definition ac_be16 :: "u16 \<Rightarrow> bytes" where
  "ac_be16 v = [ucast (drop_bit 8 v), ucast v]"

definition ac_be32 :: "u32 \<Rightarrow> bytes" where
  "ac_be32 v = [ucast (drop_bit 24 v), ucast (drop_bit 16 v), ucast (drop_bit 8 v), ucast v]"

definition ac_be64 :: "u64 \<Rightarrow> bytes" where
  "ac_be64 v = [ucast (drop_bit 56 v), ucast (drop_bit 48 v), ucast (drop_bit 40 v),
     ucast (drop_bit 32 v), ucast (drop_bit 24 v), ucast (drop_bit 16 v), ucast (drop_bit 8 v), ucast v]"

definition ac_rd16 :: "bytes \<Rightarrow> u16" where
  "ac_rd16 p = push_bit 8 (ucast (p ! 0)) OR ucast (p ! 1)"

definition ac_rd32 :: "bytes \<Rightarrow> u32" where
  "ac_rd32 p = push_bit 24 (ucast (p ! 0)) OR push_bit 16 (ucast (p ! 1))
     OR push_bit 8 (ucast (p ! 2)) OR ucast (p ! 3)"

definition ac_rd64 :: "bytes \<Rightarrow> u64" where
  "ac_rd64 p = push_bit 56 (ucast (p ! 0)) OR push_bit 48 (ucast (p ! 1))
     OR push_bit 40 (ucast (p ! 2)) OR push_bit 32 (ucast (p ! 3))
     OR push_bit 24 (ucast (p ! 4)) OR push_bit 16 (ucast (p ! 5))
     OR push_bit 8 (ucast (p ! 6)) OR ucast (p ! 7)"

section \<open>Hexadecimal text\<close>

definition HEX_DIGITS :: string where
  "HEX_DIGITS = ''0123456789abcdef''"

definition ac_hex_encode :: "bytes \<Rightarrow> string" where
  "ac_hex_encode bs =
     concat (map (\<lambda>b. [HEX_DIGITS ! unat (drop_bit 4 b), HEX_DIGITS ! unat (b AND 15)]) bs)"

definition hex_nibble :: "int \<Rightarrow> int" where
  "hex_nibble c =
     (if of_char (CHR ''0'') \<le> c \<and> c \<le> of_char (CHR ''9'') then c - of_char (CHR ''0'')
      else if of_char (CHR ''a'') \<le> c \<and> c \<le> of_char (CHR ''f'') then c - of_char (CHR ''a'') + 10
      else if of_char (CHR ''A'') \<le> c \<and> c \<le> of_char (CHR ''F'') then c - of_char (CHR ''A'') + 10
      else -1)"

text \<open>The byte a C string has at an index: its terminator is 0.\<close>

definition cchar :: "string \<Rightarrow> nat \<Rightarrow> int" where
  "cchar s i = (if i < length s then of_char (s ! i) else 0)"

fun hex_pairs :: "nat \<Rightarrow> string \<Rightarrow> bytes option" where
  "hex_pairs 0 s = Some []"
| "hex_pairs (Suc n) s =
     (let hi = hex_nibble (cchar s 0); lo = hex_nibble (cchar s 1)
      in if hi < 0 \<or> lo < 0 then None
         else map_option (Cons (word_of_int (push_bit 4 hi OR lo))) (hex_pairs n (drop 2 s)))"

definition ac_hex_decode :: "nat \<Rightarrow> string option \<Rightarrow> bytes option" where
  "ac_hex_decode out_len inp =
     (case inp of
        None \<Rightarrow> None
      | Some s0 \<Rightarrow>
          let s = (if cchar s0 0 = of_char (CHR ''0'') \<and>
                      (cchar s0 1 = of_char (CHR ''x'') \<or> cchar s0 1 = of_char (CHR ''X''))
                   then drop 2 s0 else s0)
          in if length s \<noteq> 2 * out_len then None else hex_pairs out_len s)"

section \<open>Constant-time equality\<close>

fun memeq_acc :: "bytes \<Rightarrow> bytes \<Rightarrow> byte \<Rightarrow> byte" where
  "memeq_acc (x # xs) (y # ys) r = memeq_acc xs ys (r OR (x XOR y))"
| "memeq_acc _ _ r = r"

definition ac_memeq :: "bytes \<Rightarrow> bytes \<Rightarrow> int" where
  "ac_memeq a b = (if memeq_acc a b 0 = 0 then 1 else 0)"

section \<open>Integer square root\<close>

definition SQRT_MAX :: u64 where
  "SQRT_MAX = push_bit 32 1 - 1"

function isqrt_newton :: "u64 \<Rightarrow> u64 \<Rightarrow> u64" where
  "isqrt_newton x r =
     (let nr = (r + x div r) div 2 in if r \<le> nr then r else isqrt_newton x nr)"
  by pat_completeness auto
termination
  by (relation "measure (\<lambda>(x, r). unat r)") (auto simp: word_less_nat_alt Let_def not_le)

function isqrt_down :: "u64 \<Rightarrow> u64 \<Rightarrow> u64" where
  "isqrt_down x r = (if 0 < r \<and> x div r < r then isqrt_down x (r - 1) else r)"
  by pat_completeness auto
termination
  by (relation "measure (\<lambda>(x, r). unat r)") (auto simp: unat_gt_0 unat_minus_one)

function isqrt_up :: "u64 \<Rightarrow> u64 \<Rightarrow> u64" where
  "isqrt_up x r = (if r < SQRT_MAX \<and> r + 1 \<le> x div (r + 1) then isqrt_up x (r + 1) else r)"
  by pat_completeness auto
termination
  by (relation "measure (\<lambda>(x, r). unat SQRT_MAX - unat r)")
    (auto simp: unat_Suc_nowrap word_less_nat_alt intro: diff_less_mono2)

definition ac_isqrt_u64 :: "u64 \<Rightarrow> u64" where
  "ac_isqrt_u64 x =
     (if x = 0 then 0 else if x = 1 then 1
      else let r = (if SQRT_MAX < x then SQRT_MAX else x);
               r = isqrt_newton x r;
               r = isqrt_down x r
           in isqrt_up x r)"

declare isqrt_newton.simps [simp del] isqrt_down.simps [simp del] isqrt_up.simps [simp del]

section \<open>Comparisons decide order and equality\<close>

lemma ac_addr_cmp_iffs:
  assumes "wf_addr a" "wf_addr b"
  shows "ac_addr_cmp a b < 0 \<longleftrightarrow> a < b" "ac_addr_cmp a b = 0 \<longleftrightarrow> a = b" "0 < ac_addr_cmp a b \<longleftrightarrow> b < a"
  using assms by (simp_all add: ac_addr_cmp_def wf memcmp_iffs)

lemma ac_addr_eq_iff: "wf_addr a \<Longrightarrow> wf_addr b \<Longrightarrow> ac_addr_eq a b \<longleftrightarrow> a = b"
  by (simp add: ac_addr_eq_def ac_addr_cmp_iffs)

lemma ac_hash_eq_iff: "wf_hash a \<Longrightarrow> wf_hash b \<Longrightarrow> ac_hash_eq a b \<longleftrightarrow> a = b"
  by (simp add: ac_hash_eq_def ac_hash_cmp_def wf memcmp_iffs)

lemma memcmp_refl [simp]: "memcmp a a = 0"
  by (induction a) auto

lemma ac_hash_eq_refl [simp]: "ac_hash_eq h h"
  by (simp add: ac_hash_eq_def ac_hash_cmp_def)

lemma ac_addr_eq_refl [simp]: "ac_addr_eq h h"
  by (simp add: ac_addr_eq_def ac_addr_cmp_def)

lemma length_zeros [simp]: "length (zeros n) = n"
  by (simp add: zeros_def)

lemma take_zeros [simp]: "take m (zeros n) = zeros (min m n)"
  by (simp add: zeros_def)

lemma drop_zeros [simp]: "drop m (zeros n) = zeros (n - m)"
  by (simp add: zeros_def)

section \<open>Big-endian integers: lengths and inverses\<close>

lemma length_be [simp, codec]:
  "length (ac_be16 a) = 2" "length (ac_be32 b) = 4" "length (ac_be64 c) = 8"
  by (simp_all add: ac_be16_def ac_be32_def ac_be64_def)

lemma byte_bit_high [simp]: "8 \<le> n \<Longrightarrow> \<not> bit (b :: byte) n"
  by (auto dest: bit_imp_le_length)

lemma rd16_be16 [simp, codec]: "ac_rd16 (ac_be16 v @ rest) = v"
proof (rule bit_word_eqI)
  fix n assume "n < LENGTH(16)"
  then consider "n < 8" | "8 \<le> n" "n < 16" by fastforce
  then show "bit (ac_rd16 (ac_be16 v @ rest)) n = bit v n"
    by cases (simp_all add: ac_rd16_def ac_be16_def bit_simps less_diff_conv2)
qed

lemma rd32_be32 [simp, codec]: "ac_rd32 (ac_be32 v @ rest) = v"
proof (rule bit_word_eqI)
  fix n assume "n < LENGTH(32)"
  then consider "n < 8" | "8 \<le> n" "n < 16" | "16 \<le> n" "n < 24" | "24 \<le> n" "n < 32"
    by fastforce
  then show "bit (ac_rd32 (ac_be32 v @ rest)) n = bit v n"
    by cases (simp_all add: ac_rd32_def ac_be32_def bit_simps less_diff_conv2)
qed

lemma rd64_be64 [simp, codec]: "ac_rd64 (ac_be64 v @ rest) = v"
proof (rule bit_word_eqI)
  fix n assume "n < LENGTH(64)"
  then consider "n < 8" | "8 \<le> n" "n < 16" | "16 \<le> n" "n < 24" | "24 \<le> n" "n < 32"
    | "32 \<le> n" "n < 40" | "40 \<le> n" "n < 48" | "48 \<le> n" "n < 56" | "56 \<le> n" "n < 64"
    by fastforce
  then show "bit (ac_rd64 (ac_be64 v @ rest)) n = bit v n"
    by cases (simp_all add: ac_rd64_def ac_be64_def bit_simps less_diff_conv2)
qed

lemmas rd_be_exact [simp, codec] =
  rd16_be16 [where rest = "[]", simplified] rd32_be32 [where rest = "[]", simplified]
  rd64_be64 [where rest = "[]", simplified]

lemma be32_rd32: "length p = 4 \<Longrightarrow> ac_be32 (ac_rd32 p) = p"
proof -
  assume "length p = 4"
  then obtain a b c d where "p = [a, b, c, d]"
    by (auto simp: numeral_eq_Suc length_Suc_conv)
  then show ?thesis
    by (auto simp: ac_rd32_def ac_be32_def bit_simps intro!: bit_word_eqI)
qed

lemma be64_rd64: "length p = 8 \<Longrightarrow> ac_be64 (ac_rd64 p) = p"
proof -
  assume "length p = 8"
  then obtain a b c d e f g h where "p = [a, b, c, d, e, f, g, h]"
    by (auto simp: numeral_eq_Suc length_Suc_conv)
  then show ?thesis
    by (auto simp: ac_rd64_def ac_be64_def bit_simps intro!: bit_word_eqI)
qed

lemma be64_inj: "ac_be64 v = ac_be64 w \<longleftrightarrow> v = w"
  by (metis rd_be_exact(3))

section \<open>Hexadecimal text: inverse laws\<close>

lemma hex_nibble_digit:
  assumes "n < 16"
  shows "hex_nibble (of_char (HEX_DIGITS ! n)) = int n"
proof -
  have "list_all (\<lambda>n. hex_nibble (of_char (HEX_DIGITS ! n)) = int n) [0..<16]"
    by code_simp
  then show ?thesis using assms by (simp add: list_all_iff)
qed

lemma unat_nibbles: "unat (drop_bit 4 b) < 16" "unat (b AND 15) < 16" for b :: byte
proof -
  have unat_lt: "unat b < 256"
    using unsigned_less [of b] by simp
  show "unat (drop_bit 4 b) < 16"
    using less_mult_imp_div_less [of "unat b" 16 16] unat_lt by (simp add: drop_bit_eq_div unat_div)
  have "b AND 15 = take_bit 4 b"
    by (simp add: take_bit_eq_mask mask_eq_exp_minus_1)
  then show "unat (b AND 15) < 16"
    by (simp add: take_bit_eq_mod unat_mod)
qed

lemma nibbles_join: "word_of_int (push_bit 4 (uint (drop_bit 4 b)) OR uint (b AND 15)) = b"
  for b :: byte
proof -
  have "b AND 15 = b AND mask 4"
    by (simp add: mask_eq_exp_minus_1)
  then show ?thesis
    by (auto intro!: bit_word_eqI simp: bit_simps)
qed

lemma length_hex_encode [simp]: "length (ac_hex_encode bs) = 2 * length bs"
  by (induction bs) (simp_all add: ac_hex_encode_def)

lemma hex_pairs_encode: "hex_pairs (length bs) (ac_hex_encode bs) = Some bs"
proof (induction bs)
  case Nil
  then show ?case by simp
next
  case (Cons b bs)
  have "cchar (ac_hex_encode (b # bs)) 0 = of_char (HEX_DIGITS ! unat (drop_bit 4 b))"
    "cchar (ac_hex_encode (b # bs)) 1 = of_char (HEX_DIGITS ! unat (b AND 15))"
    "drop 2 (ac_hex_encode (b # bs)) = ac_hex_encode bs"
    by (simp_all add: ac_hex_encode_def cchar_def)
  with Cons show ?case
    by (simp add: Let_def hex_nibble_digit unat_nibbles nibbles_join)
qed

lemma hex_digit_not_x: "n < 16 \<Longrightarrow> HEX_DIGITS ! n \<noteq> CHR ''x'' \<and> HEX_DIGITS ! n \<noteq> CHR ''X''"
  using nth_mem [of n HEX_DIGITS] by (auto simp: HEX_DIGITS_def)

lemma hex_encode_no_prefix:
  "cchar (ac_hex_encode bs) 1 \<noteq> of_char CHR ''x'' \<and> cchar (ac_hex_encode bs) 1 \<noteq> of_char CHR ''X''"
proof (cases bs)
  case (Cons b bs')
  then have "cchar (ac_hex_encode bs) 1 = of_char (HEX_DIGITS ! unat (b AND 15))"
    by (simp add: ac_hex_encode_def cchar_def)
  then show ?thesis
    using hex_digit_not_x [OF unat_nibbles(2), of b] by (simp only: of_char_eq_iff) simp
qed (simp add: ac_hex_encode_def cchar_def)

section \<open>Constant-time equality\<close>

lemma memeq_acc_zero_iff:
  "length a = length b \<Longrightarrow> memeq_acc a b r = 0 \<longleftrightarrow> r = 0 \<and> a = b"
proof (induction a b r rule: memeq_acc.induct)
  case (1 x xs y ys r)
  have "r OR (x XOR y) = 0 \<longleftrightarrow> r = 0 \<and> x XOR y = 0"
    by (rule or_eq_0_iff)
  moreover have "x XOR y = 0 \<longleftrightarrow> x = y"
    by (auto simp: bit_eq_iff bit_simps)
  ultimately show ?case using 1 by auto
qed auto

section \<open>The square root loops\<close>

lemma unat_SQRT_MAX: "unat SQRT_MAX = 2 ^ 32 - 1"
  by (simp add: SQRT_MAX_def)

lemma unat_div_le_iff: "0 < (r :: u64) \<Longrightarrow> r \<le> x div r \<longleftrightarrow> unat r * unat r \<le> unat x"
  by (simp add: word_le_nat_alt unat_div less_eq_div_iff_mult_less_eq word_less_nat_alt)

lemma isqrt_down_spec:
  "isqrt_down x r \<le> r \<and> unat (isqrt_down x r) * unat (isqrt_down x r) \<le> unat x"
proof (induction x r rule: isqrt_down.induct)
  case (1 x r)
  show ?case
  proof (cases "0 < r \<and> x div r < r")
    case True
    then have "r - 1 \<le> r"
      by (simp add: word_le_nat_alt unat_minus_one word_gt_0)
    with True 1 show ?thesis by (auto simp: isqrt_down.simps [of x r])
  next
    case False
    then show ?thesis
      by (cases "r = 0")
        (auto simp: isqrt_down.simps [of x r] isqrt_down.simps [of x 0] unat_div_le_iff [symmetric] word_gt_0)
  qed
qed

lemma isqrt_up_spec:
  assumes "r \<le> SQRT_MAX" "unat r * unat r \<le> unat x"
  shows "unat (isqrt_up x r) * unat (isqrt_up x r) \<le> unat x
    \<and> unat x < Suc (unat (isqrt_up x r)) * Suc (unat (isqrt_up x r))"
  using assms
proof (induction x r rule: isqrt_up.induct)
  case (1 x r)
  show ?case
  proof (cases "r < SQRT_MAX")
    case True
    note u = unat_Suc_nowrap [OF True]
    then have "0 < r + 1" by (metis unat_gt_0 word_gt_0 nat.distinct(1) unat_0 word_less_nat_alt zero_less_Suc)
    note step = unat_div_le_iff [OF this, of x]
    show ?thesis
    proof (cases "r + 1 \<le> x div (r + 1)")
      case up: True
      have "r + 1 \<le> SQRT_MAX" using True u by (simp add: word_le_nat_alt word_less_nat_alt)
      with 1 True up step show ?thesis by (simp add: isqrt_up.simps [of x r])
    next
      case False
      with 1 step u show ?thesis by (simp add: isqrt_up.simps [of x r])
    qed
  next
    case False
    with 1 have "r = SQRT_MAX" by simp
    with 1 show ?thesis
      using unat_u64_less [of x] by (simp add: isqrt_up.simps [of x SQRT_MAX] unat_SQRT_MAX)
  qed
qed

text \<open>
  The Newton iteration comes down from above: every iterate \<open>r\<close> is positive and satisfies
  \<open>x < (r + 1)\<^sup>2\<close>, so no division by zero and no overflow of \<open>r + x / r\<close> can occur, and the
  iterate at which it stops is already the floor of the square root.
\<close>

definition newton_inv :: "u64 \<Rightarrow> u64 \<Rightarrow> bool" where
  "newton_inv x r \<longleftrightarrow> 0 < r \<and> r \<le> SQRT_MAX \<and> unat x < Suc (unat r) * Suc (unat r)"

lemma newton_step_nat:
  fixes x r :: nat
  assumes "0 < r" "x < Suc r * Suc r"
  shows "x < Suc ((r + x div r) div 2) * Suc ((r + x div r) div 2)"
proof -
  define q where "q = x div r"
  define t where "t = Suc ((r + q) div 2)"
  have "x < r * Suc q"
    unfolding q_def using assms(1) by (simp add: dividend_less_times_div)
  moreover have "r + Suc q \<le> 2 * t" unfolding t_def by simp
  then have "(r + Suc q) * (r + Suc q) \<le> (2 * t) * (2 * t)"
    by (rule mult_le_mono) (use \<open>r + Suc q \<le> 2 * t\<close> in simp)
  moreover have "4 * (r * Suc q) \<le> (r + Suc q) * (r + Suc q)"
  proof -
    have "0 \<le> (int r - int (Suc q)) * (int r - int (Suc q))" by simp
    then have "4 * (int r * int (Suc q)) \<le> (int r + int (Suc q)) * (int r + int (Suc q))"
      by (simp add: algebra_simps)
    then show ?thesis by (metis of_nat_add of_nat_le_iff of_nat_mult of_nat_numeral)
  qed
  ultimately show ?thesis unfolding t_def q_def by simp
qed

lemma newton_sum_nowrap:
  assumes "newton_inv x r"
  shows "unat (r + x div r) = unat r + unat x div unat r"
proof -
  have r: "0 < unat r" "unat r \<le> 2 ^ 32 - 1" and x: "unat x < Suc (unat r) * Suc (unat r)"
    using assms by (simp_all add: newton_inv_def word_gt_0 word_le_nat_alt unat_SQRT_MAX unat_gt_0)
  have "unat x \<le> (unat r + 3) * unat r" using x r by (simp add: algebra_simps)
  then have "unat x div unat r \<le> unat r + 3"
    using r by (metis div_le_mono nonzero_mult_div_cancel_right less_numeral_extra(3))
  then have "unat r + unat x div unat r < 2 ^ 64" using r by simp
  then show ?thesis by (simp add: unat_add_nowrap unat_div)
qed

lemma newton_inv_step:
  assumes "newton_inv x r" "2 \<le> x" "(r + x div r) div 2 < r"
  shows "newton_inv x ((r + x div r) div 2)"
proof -
  let ?n = "(r + x div r) div 2"
  have n: "unat ?n = (unat r + unat x div unat r) div 2"
    using newton_sum_nowrap [OF assms(1)] by (simp add: unat_div)
  have lt: "unat x < Suc (unat ?n) * Suc (unat ?n)"
    using newton_step_nat [of "unat r" "unat x"] assms(1) unfolding n
    by (simp add: newton_inv_def word_less_nat_alt)
  have "unat ?n \<noteq> 0"
  proof
    assume "unat ?n = 0"
    with lt assms(2) show False by (simp add: word_le_nat_alt)
  qed
  with lt assms(1,3) show ?thesis
    by (auto simp: newton_inv_def word_gt_0 unat_eq_0)
qed

lemma newton_stop:
  assumes "newton_inv x r" "r \<le> (r + x div r) div 2"
  shows "unat r * unat r \<le> unat x"
proof -
  have "unat r \<le> (unat r + unat x div unat r) div 2"
    using assms(2) newton_sum_nowrap [OF assms(1)] by (simp add: word_le_nat_alt unat_div)
  then have "unat r \<le> unat x div unat r" by simp
  then show ?thesis
    using assms(1) by (simp add: less_eq_div_iff_mult_less_eq newton_inv_def word_less_nat_alt)
qed

lemma isqrt_newton_spec:
  "newton_inv x r \<Longrightarrow> 2 \<le> x \<Longrightarrow>
   newton_inv x (isqrt_newton x r) \<and>
   unat (isqrt_newton x r) * unat (isqrt_newton x r) \<le> unat x"
proof (induction x r rule: isqrt_newton.induct)
  case (1 x r)
  show ?case
  proof (cases "r \<le> (r + x div r) div 2")
    case True
    with 1 show ?thesis
      using newton_stop by (simp add: isqrt_newton.simps [of x r])
  next
    case False
    with 1 newton_inv_step [of x r] show ?thesis
      by (simp add: isqrt_newton.simps [of x r] not_le [symmetric] Let_def)
  qed
qed

lemma newton_inv_start:
  assumes "2 \<le> x"
  shows "newton_inv x (if SQRT_MAX < x then SQRT_MAX else x)"
  using assms unat_u64_less [of x]
  by (auto simp: newton_inv_def unat_SQRT_MAX word_less_nat_alt word_le_nat_alt)

lemma newton_fixed:
  assumes inv: "newton_inv x r" and sq: "unat r * unat r \<le> unat x"
  shows "isqrt_up x (isqrt_down x r) = r"
proof -
  have "isqrt_down x r = r"
    using assms by (auto simp: isqrt_down.simps [of x r] newton_inv_def unat_div_le_iff [symmetric])
  moreover have "isqrt_up x r = r"
  proof (cases "r < SQRT_MAX")
    case True
    then have "0 < r + 1" by (simp add: word_less_nat_alt [of 0] unat_Suc_nowrap)
    then show ?thesis
      using inv by (simp add: isqrt_up.simps [of x r] unat_div_le_iff unat_Suc_nowrap [OF True] newton_inv_def)
  qed (simp add: isqrt_up.simps [of x r])
  ultimately show ?thesis by simp
qed

section \<open>Correctness of the helpers\<close>

lemma isqrt_floor:
  "unat (ac_isqrt_u64 x) * unat (ac_isqrt_u64 x) \<le> unat x
   \<and> unat x < Suc (unat (ac_isqrt_u64 x)) * Suc (unat (ac_isqrt_u64 x))"
proof -
  consider "x = 0" | "x = 1" | "x \<noteq> 0" "x \<noteq> 1" by blast
  then show ?thesis
  proof cases
    case 3
    let ?r0 = "if SQRT_MAX < x then SQRT_MAX else x"
    let ?r = "isqrt_newton x ?r0"
    have x2: "2 \<le> x" using 3 by unat_arith
    have "?r \<le> SQRT_MAX"
      using isqrt_newton_spec [OF newton_inv_start [OF x2] x2] by (simp add: newton_inv_def)
    then have "isqrt_down x ?r \<le> SQRT_MAX"
      using isqrt_down_spec [of x ?r] by (blast intro: order_trans)
    from isqrt_up_spec [OF this] show ?thesis
      using isqrt_down_spec [of x ?r] 3 by (simp add: ac_isqrt_u64_def Let_def)
  qed (simp_all add: ac_isqrt_u64_def)
qed

text \<open>
  Claim C32. \<^verbatim>\<open>ac_isqrt_u64\<close> returns the floor of the square root for every 64-bit input: its
  square does not exceed the input and the square of its successor does. This is the weight
  function of the consensus (\<open>sqrt(stake)\<close>), and the loops return on every input.
\<close>

theorem ac_isqrt_u64_floor:
  "unat (ac_isqrt_u64 x) * unat (ac_isqrt_u64 x) \<le> unat x
   \<and> unat x < Suc (unat (ac_isqrt_u64 x)) * Suc (unat (ac_isqrt_u64 x))"
  by (rule isqrt_floor)

text \<open>
  The two correction loops at the end of \<^verbatim>\<open>ac_isqrt_u64\<close> never change the result: the
  Newton iteration alone already ends at the floor of the square root.
\<close>

theorem ac_isqrt_u64_newton_exact:
  assumes "2 \<le> x"
  shows "ac_isqrt_u64 x = isqrt_newton x (if SQRT_MAX < x then SQRT_MAX else x)"
proof -
  have "x \<noteq> 0" "x \<noteq> 1" using assms by (auto simp: word_le_nat_alt)
  then show ?thesis
    using isqrt_newton_spec [OF newton_inv_start [OF assms] assms]
    by (simp add: ac_isqrt_u64_def Let_def newton_fixed)
qed

theorem ac_isqrt_u64_newton_exact_witness:
  "(2 :: u64) \<le> 10 \<and> ac_isqrt_u64 10 = isqrt_newton 10 (if SQRT_MAX < 10 then SQRT_MAX else 10)"
  using ac_isqrt_u64_newton_exact [of 10] by simp

text \<open>
  Hexadecimal text is a faithful rendering of bytes: decoding what \<^verbatim>\<open>ac_hex_encode\<close>
  wrote returns the same bytes, and the optional \<open>0x\<close> prefix is never mistaken for data.
\<close>

theorem ac_hex_roundtrip:
  "ac_hex_decode (length bs) (Some (ac_hex_encode bs)) = Some bs
   \<and> ac_hex_decode (length bs) (Some (''0x'' @ ac_hex_encode bs)) = Some bs"
proof
  show "ac_hex_decode (length bs) (Some (ac_hex_encode bs)) = Some bs"
    using hex_encode_no_prefix [of bs] by (auto simp: ac_hex_decode_def hex_pairs_encode Let_def)
  show "ac_hex_decode (length bs) (Some (''0x'' @ ac_hex_encode bs)) = Some bs"
    by (simp add: ac_hex_decode_def cchar_def hex_pairs_encode)
qed

text \<open>
  \<^verbatim>\<open>ac_memeq\<close> answers 1 exactly on equal buffers, although it never branches on
  their contents.
\<close>

theorem ac_memeq_iff:
  assumes "length a = length b"
  shows "ac_memeq a b = 1 \<longleftrightarrow> a = b"
  using memeq_acc_zero_iff [OF assms, of 0] by (simp add: ac_memeq_def)

theorem ac_memeq_iff_witness:
  "length [1, 2 :: byte] = length [1, 3 :: byte] \<and> (ac_memeq [1, 2] [1, 3] = 1 \<longleftrightarrow> [1, 2 :: byte] = [1, 3])"
  using ac_memeq_iff [of "[1, 2]" "[1, 3]"] by simp

end
