(* ===== verification/Crypto.thy ===== *)
theory Crypto
  imports Common
begin

text \<open>
  \<^verbatim>\<open>crypto.c\<close>: the wrappers around libsodium and the verifiable random function built on
  Ed25519. libsodium is not part of the repository, so the four primitives the wrappers call are
  the fields of a record \<open>sodium\<close>, a parameter of every definition that hashes, signs or verifies.
  \<open>sodium_ok\<close> collects the documented behaviour the code relies on: output sizes, the key layout
  and that a signature made with a secret key verifies under its public key. Nothing is assumed
  about collisions or forgery; a property that needs such a hypothesis states it by itself.
  The multi-part hash of libsodium is the hash of the concatenated parts.
\<close>

section \<open>The primitives\<close>

record sodium =
  crypto_generichash :: "bytes \<Rightarrow> bytes"
  crypto_sign_seed_keypair :: "bytes \<Rightarrow> bytes \<times> bytes"
  crypto_sign_detached :: "bytes \<Rightarrow> bytes \<Rightarrow> bytes"
  crypto_sign_verify_detached :: "bytes \<Rightarrow> bytes \<Rightarrow> bytes \<Rightarrow> bool"

definition sodium_ok :: "sodium \<Rightarrow> bool" where
  "sodium_ok S \<longleftrightarrow>
     (\<forall>m. length (crypto_generichash S m) = AC_HASH_SIZE) \<and>
     (\<forall>m sk. length (crypto_sign_detached S m sk) = AC_SIG_SIZE) \<and>
     (\<forall>seed pk sk. length seed = AC_SEED_SIZE \<longrightarrow> crypto_sign_seed_keypair S seed = (pk, sk) \<longrightarrow>
        length pk = AC_PUBKEY_SIZE \<and> length sk = AC_PRIVKEY_SIZE \<and> take AC_SEED_SIZE sk = seed \<and>
        (\<forall>m. crypto_sign_verify_detached S (crypto_sign_detached S m sk) m pk))"

text \<open>A C string literal without its terminator.\<close>

definition cstr :: "string \<Rightarrow> bytes" where
  "cstr s = map of_char s"

section \<open>Key pairs\<close>

record ac_keypair =
  kp_pk :: bytes
  kp_sk :: bytes

definition ac_keypair_from_seed :: "sodium \<Rightarrow> bytes \<Rightarrow> ac_keypair" where
  "ac_keypair_from_seed S seed =
     (case crypto_sign_seed_keypair S seed of (pk, sk) \<Rightarrow> \<lparr>kp_pk = pk, kp_sk = sk\<rparr>)"

definition ac_keypair_random :: "sodium \<Rightarrow> bytes \<Rightarrow> ac_keypair" where
  \<comment> \<open>the second argument is what \<^verbatim>\<open>randombytes_buf\<close> wrote\<close>
  "ac_keypair_random S rnd =
     (case crypto_sign_seed_keypair S rnd of (pk, sk) \<Rightarrow> \<lparr>kp_pk = pk, kp_sk = sk\<rparr>)"

definition ac_keypair_seed :: "ac_keypair \<Rightarrow> bytes" where
  "ac_keypair_seed kp = take AC_SEED_SIZE (kp_sk kp)"

section \<open>Hash and signatures\<close>

fun hash_parts :: "bytes \<Rightarrow> bytes list \<Rightarrow> bytes" where
  "hash_parts st [] = st"
| "hash_parts st (c # cs) = hash_parts (if 0 < length c then st @ c else st) cs"

definition ac_hash_multi :: "sodium \<Rightarrow> bytes list \<Rightarrow> ac_hash" where
  "ac_hash_multi S chunks = crypto_generichash S (hash_parts [] chunks)"

definition ac_hash :: "sodium \<Rightarrow> bytes \<Rightarrow> ac_hash" where
  "ac_hash S data = crypto_generichash S data"

definition ac_sign :: "sodium \<Rightarrow> bytes \<Rightarrow> ac_keypair \<Rightarrow> ac_sig" where
  "ac_sign S msg kp = crypto_sign_detached S msg (kp_sk kp)"

definition ac_verify :: "sodium \<Rightarrow> ac_sig \<Rightarrow> bytes \<Rightarrow> bytes \<Rightarrow> bool" where
  "ac_verify S sig msg pk = crypto_sign_verify_detached S sig msg pk"

section \<open>The verifiable random function\<close>

definition VRF_DOMAIN :: bytes where "VRF_DOMAIN = cstr ''AGCH:VRF:v1''"
definition VRF_OUT_DOMAIN :: bytes where "VRF_OUT_DOMAIN = cstr ''AGCH:VRF-OUT:v1''"

definition vrf_compute_beta :: "sodium \<Rightarrow> bytes \<Rightarrow> bytes" where
  "vrf_compute_beta S prf =
     take AC_VRF_OUT_SIZE (ac_hash_multi S [VRF_OUT_DOMAIN, take AC_VRF_PROOF_SIZE prf])"

definition ac_vrf_prove :: "sodium \<Rightarrow> bytes \<Rightarrow> ac_keypair \<Rightarrow> bytes \<times> bytes" where
  "ac_vrf_prove S alpha kp =
     (let p = VRF_DOMAIN @ alpha;
          sig = ac_sign S p kp;
          prf = take AC_VRF_PROOF_SIZE sig
      in (prf, vrf_compute_beta S prf))"

definition ac_vrf_verify :: "sodium \<Rightarrow> bytes \<Rightarrow> bytes \<Rightarrow> bytes \<Rightarrow> bytes option" where
  "ac_vrf_verify S prf alpha pk =
     (let p = VRF_DOMAIN @ alpha;
          sig = take AC_VRF_PROOF_SIZE prf
      in if \<not> ac_verify S sig p pk then None else Some (vrf_compute_beta S prf))"

section \<open>A concrete instance\<close>

text \<open>
  Evaluable primitives for concrete runs: the hash keeps the last 32 bytes of its input, a
  signature is the public key followed by the last 32 bytes of the message, and verification
  compares. It satisfies \<open>sodium_ok\<close>.
\<close>

definition pad32 :: "bytes \<Rightarrow> bytes" where
  "pad32 m = take 32 (m @ zeros 32)"

definition last32 :: "bytes \<Rightarrow> bytes" where
  "last32 m = pad32 (rev m)"

definition demo_sodium :: sodium where
  "demo_sodium = \<lparr>crypto_generichash = last32,
     crypto_sign_seed_keypair = (\<lambda>seed. (seed, seed @ seed)),
     crypto_sign_detached = (\<lambda>m sk. pad32 (drop 32 sk) @ last32 m),
     crypto_sign_verify_detached = (\<lambda>sig m pk. sig = pad32 pk @ last32 m)\<rparr>"

section \<open>Lemmas\<close>

lemma length_cstr [simp]: "length (cstr s) = length s"
  by (simp add: cstr_def)

lemma hash_parts_concat: "hash_parts st cs = st @ concat cs"
  by (induction st cs rule: hash_parts.induct) auto

lemma ac_hash_multi_concat: "ac_hash_multi S cs = ac_hash S (concat cs)"
  by (simp add: ac_hash_multi_def ac_hash_def hash_parts_concat)

lemma length_ac_hash: "sodium_ok S \<Longrightarrow> length (ac_hash S m) = 32"
  by (simp add: sodium_ok_def ac_hash_def)

lemma length_ac_hash_multi: "sodium_ok S \<Longrightarrow> length (ac_hash_multi S m) = 32"
  by (simp add: ac_hash_multi_concat length_ac_hash)

lemma wf_ac_hash: "sodium_ok S \<Longrightarrow> wf_hash (ac_hash S m)" "sodium_ok S \<Longrightarrow> wf_hash (ac_hash_multi S cs)"
  by (simp_all add: wf length_ac_hash length_ac_hash_multi)

lemma length_ac_sign: "sodium_ok S \<Longrightarrow> length (ac_sign S m kp) = 64"
  by (simp add: sodium_ok_def ac_sign_def)

lemma length_pad32 [simp]: "length (pad32 m) = 32"
  by (cases "length m \<le> 32") (simp_all add: pad32_def)

lemma length_last32 [simp]: "length (last32 m) = 32"
  by (simp add: last32_def)

lemma sodium_ok_demo: "sodium_ok demo_sodium"
  unfolding sodium_ok_def demo_sodium_def by simp

lemma sodium_ok_keypair:
  assumes "sodium_ok S" "length seed = 32"
  shows "length (kp_pk (ac_keypair_from_seed S seed)) = 32"
    and "length (kp_sk (ac_keypair_from_seed S seed)) = 64"
    and "take 32 (kp_sk (ac_keypair_from_seed S seed)) = seed"
    and "ac_verify S (ac_sign S m (ac_keypair_from_seed S seed)) m (kp_pk (ac_keypair_from_seed S seed))"
proof -
  obtain pk sk where kp: "crypto_sign_seed_keypair S seed = (pk, sk)" by fastforce
  have "length pk = AC_PUBKEY_SIZE \<and> length sk = AC_PRIVKEY_SIZE \<and> take AC_SEED_SIZE sk = seed
    \<and> (\<forall>m. crypto_sign_verify_detached S (crypto_sign_detached S m sk) m pk)"
    using assms kp unfolding sodium_ok_def sizes by blast
  then show "length (kp_pk (ac_keypair_from_seed S seed)) = 32"
    "length (kp_sk (ac_keypair_from_seed S seed)) = 64"
    "take 32 (kp_sk (ac_keypair_from_seed S seed)) = seed"
    "ac_verify S (ac_sign S m (ac_keypair_from_seed S seed)) m (kp_pk (ac_keypair_from_seed S seed))"
    by (simp_all add: ac_keypair_from_seed_def kp ac_verify_def ac_sign_def)
qed

text \<open>
  The VRF is complete: for the key pair of any seed and any input, the proof
  \<^verbatim>\<open>ac_vrf_prove\<close> makes verifies under the public key, and the verifier computes the prover's output.
\<close>

theorem ac_vrf_complete:
  assumes "sodium_ok S" "length seed = 32" "kp = ac_keypair_from_seed S seed"
    and "ac_vrf_prove S alpha kp = (prf, beta)"
  shows "ac_vrf_verify S prf alpha (kp_pk kp) = Some beta"
proof -
  have "take 64 (ac_sign S m kp) = ac_sign S m kp" for m
    using length_ac_sign [OF assms(1)] by simp
  then show ?thesis
    using assms(3,4) sodium_ok_keypair(4) [OF assms(1,2)]
    by (auto simp: ac_vrf_prove_def ac_vrf_verify_def Let_def)
qed

theorem ac_vrf_complete_witness:
  "ac_vrf_verify demo_sodium (fst (ac_vrf_prove demo_sodium [7] (ac_keypair_from_seed demo_sodium (zeros 32))))
     [7] (kp_pk (ac_keypair_from_seed demo_sodium (zeros 32)))
   = Some (snd (ac_vrf_prove demo_sodium [7] (ac_keypair_from_seed demo_sodium (zeros 32))))"
  by (rule ac_vrf_complete [OF sodium_ok_demo _ refl]) simp_all

text \<open>
  The seed written to a key file is the one the key pair was derived from.
\<close>

theorem ac_keypair_seed_roundtrip:
  assumes "sodium_ok S" "length seed = 32"
  shows "ac_keypair_seed (ac_keypair_from_seed S seed) = seed"
  using sodium_ok_keypair(3) [OF assms] by (simp add: ac_keypair_seed_def)

theorem ac_keypair_seed_roundtrip_witness:
  "ac_keypair_seed (ac_keypair_from_seed demo_sodium (zeros 32)) = zeros 32"
  by (rule ac_keypair_seed_roundtrip [OF sodium_ok_demo]) simp

end
