(* ===== verification/Codec.thy ===== *)
theory Codec
  imports Crypto
begin

text \<open>
  The first half of \<^verbatim>\<open>codec.c\<close>: the bounded write and read cursors, the four body shapes, gas,
  and the encoding, hashing and signing of transactions. A write cursor keeps the bytes written so
  far (its \<^verbatim>\<open>used\<close> is their number), its capacity and the sticky error flag; a read cursor keeps
  the buffer, its length, the position and the flag. An encoder returns the written bytes or
  \<open>None\<close> for \<^verbatim>\<open>-1\<close>; a decoder returns the filled struct or \<open>None\<close>. The locale \<open>wire_codec\<close> states
  what every exact decoder of the wire format promises and is interpreted for each of them.
\<close>

section \<open>Limits\<close>

definition AC_TX_VERSION :: u8 where "AC_TX_VERSION = 1"
definition AC_MEMO_MAX :: nat where "AC_MEMO_MAX = 512"
definition AC_TX_BODY_MAX :: nat where "AC_TX_BODY_MAX = 512"
definition AC_TX_MAX_BYTES :: nat where "AC_TX_MAX_BYTES = 2048"
definition AC_NAME_MIN_LEN :: nat where "AC_NAME_MIN_LEN = 1"
definition AC_NAME_MAX_LEN :: nat where "AC_NAME_MAX_LEN = 32"

lemmas codec_limits [simp] =
  AC_TX_VERSION_def AC_MEMO_MAX_def AC_TX_BODY_MAX_def AC_TX_MAX_BYTES_def
  AC_NAME_MIN_LEN_def AC_NAME_MAX_LEN_def

section \<open>Cursors\<close>

record wcur =
  w_buf :: bytes
  w_cap :: nat
  w_err :: bool

record rcur =
  r_p :: bytes
  r_cap :: nat
  r_pos :: nat
  r_err :: bool

definition wcur_init :: "nat \<Rightarrow> wcur" where
  "wcur_init cap = \<lparr>w_buf = [], w_cap = cap, w_err = False\<rparr>"

definition wput :: "wcur \<Rightarrow> bytes \<Rightarrow> nat \<Rightarrow> wcur" where
  "wput c src n =
     (if w_err c \<or> w_cap c < length (w_buf c) + n then c\<lparr>w_err := True\<rparr>
      else c\<lparr>w_buf := w_buf c @ take n src\<rparr>)"

definition wput_u8 :: "wcur \<Rightarrow> u8 \<Rightarrow> wcur" where
  "wput_u8 c v = wput c [v] 1"

definition wput_u32 :: "wcur \<Rightarrow> u32 \<Rightarrow> wcur" where
  "wput_u32 c v = wput c (ac_be32 v) 4"

definition wput_u64 :: "wcur \<Rightarrow> u64 \<Rightarrow> wcur" where
  "wput_u64 c v = wput c (ac_be64 v) 8"

text \<open>\<^verbatim>\<open>return c.err ? -1 : (int)c.used;\<close>\<close>

definition wdone :: "wcur \<Rightarrow> bytes option" where
  "wdone c = (if w_err c then None else Some (w_buf c))"

definition rcur_init :: "bytes \<Rightarrow> rcur" where
  "rcur_init buf = \<lparr>r_p = buf, r_cap = length buf, r_pos = 0, r_err = False\<rparr>"

definition rget :: "rcur \<Rightarrow> bytes \<Rightarrow> nat \<Rightarrow> bytes \<times> rcur" where
  "rget c dst n =
     (if r_err c \<or> r_cap c < r_pos c + n then (dst, c\<lparr>r_err := True\<rparr>)
      else (memcpy_into dst (take n (drop (r_pos c) (r_p c))), c\<lparr>r_pos := r_pos c + n\<rparr>))"

definition rget_u8 :: "rcur \<Rightarrow> u8 \<times> rcur" where
  "rget_u8 c = (case rget c [0] 1 of (b, c) \<Rightarrow> (b ! 0, c))"

definition rget_u32 :: "rcur \<Rightarrow> u32 \<times> rcur" where
  "rget_u32 c = (case rget c (zeros 4) 4 of (b, c) \<Rightarrow> (ac_rd32 b, c))"

definition rget_u64 :: "rcur \<Rightarrow> u64 \<times> rcur" where
  "rget_u64 c = (case rget c (zeros 8) 8 of (b, c) \<Rightarrow> (ac_rd64 b, c))"

section \<open>Bodies\<close>

record ac_body_transfer =
  bt_recipient :: ac_addr
  bt_amount :: u64

record ac_body_stake =
  bs_amount :: u64

record ac_body_name =
  bn_name :: bytes
  bn_name_len :: u8

record ac_body_slash =
  sl_validator :: ac_addr
  sl_height :: u64
  sl_block_hash_a :: ac_hash
  sl_sig_a :: ac_sig
  sl_block_hash_b :: ac_hash
  sl_sig_b :: ac_sig

definition ac_body_transfer_encode :: "nat \<Rightarrow> ac_body_transfer \<Rightarrow> bytes option" where
  "ac_body_transfer_encode cap b =
     wdone (wput_u64 (wput (wcur_init cap) (bt_recipient b) AC_PUBKEY_SIZE) (bt_amount b))"

definition ac_body_transfer_decode :: "bytes \<Rightarrow> ac_body_transfer option" where
  "ac_body_transfer_decode buf =
     (case rget (rcur_init buf) (zeros 32) AC_PUBKEY_SIZE of (recipient, c) \<Rightarrow>
      case rget_u64 c of (amount, c) \<Rightarrow>
      if r_err c \<or> r_pos c \<noteq> length buf then None
      else Some \<lparr>bt_recipient = recipient, bt_amount = amount\<rparr>)"

definition ac_body_stake_encode :: "nat \<Rightarrow> ac_body_stake \<Rightarrow> bytes option" where
  "ac_body_stake_encode cap b = (if cap < 8 then None else Some (ac_be64 (bs_amount b)))"

definition ac_body_stake_decode :: "bytes \<Rightarrow> ac_body_stake option" where
  "ac_body_stake_decode buf =
     (if length buf \<noteq> 8 then None else Some \<lparr>bs_amount = ac_rd64 buf\<rparr>)"

definition name_char_ok :: "byte \<Rightarrow> bool" where
  "name_char_ok c \<longleftrightarrow>
     of_char (CHR ''a'') \<le> c \<and> c \<le> of_char (CHR ''z'') \<or>
     of_char (CHR ''0'') \<le> c \<and> c \<le> of_char (CHR ''9'') \<or> c = of_char (CHR ''-'')"

definition ac_name_valid :: "bytes \<Rightarrow> nat \<Rightarrow> bool" where
  "ac_name_valid name name_len \<longleftrightarrow>
     \<not> (name_len < AC_NAME_MIN_LEN \<or> name_len > AC_NAME_MAX_LEN) \<and>
     list_all name_char_ok (take name_len name)"

definition ac_body_name_encode :: "nat \<Rightarrow> ac_body_name \<Rightarrow> bytes option" where
  "ac_body_name_encode cap b =
     (if bn_name_len b = 0 \<or> unat (bn_name_len b) > AC_NAME_MAX_LEN then None
      else if cap < unat (bn_name_len b) + 1 then None
      else Some (bn_name_len b # take (unat (bn_name_len b)) (bn_name b)))"

text \<open>The first argument is what the array \<^verbatim>\<open>out->name\<close> holds before the call.\<close>

definition ac_body_name_decode :: "bytes \<Rightarrow> bytes \<Rightarrow> ac_body_name option" where
  "ac_body_name_decode out_name buf =
     (if length buf < 1 then None
      else let nl = buf ! 0 in
        if nl = 0 \<or> unat nl > AC_NAME_MAX_LEN then None
        else if unat nl + 1 \<noteq> length buf then None
        else let name = memcpy_into out_name (take (unat nl) (drop 1 buf)) in
          if \<not> ac_name_valid name (unat nl) then None
          else Some \<lparr>bn_name = name, bn_name_len = nl\<rparr>)"

definition ac_body_slash_encode :: "nat \<Rightarrow> ac_body_slash \<Rightarrow> bytes option" where
  "ac_body_slash_encode cap b =
     (let c = wcur_init cap;
          c = wput c (sl_validator b) AC_PUBKEY_SIZE;
          c = wput_u64 c (sl_height b);
          c = wput c (sl_block_hash_a b) AC_HASH_SIZE;
          c = wput c (sl_sig_a b) AC_SIG_SIZE;
          c = wput c (sl_block_hash_b b) AC_HASH_SIZE;
          c = wput c (sl_sig_b b) AC_SIG_SIZE
      in wdone c)"

definition ac_body_slash_decode :: "bytes \<Rightarrow> ac_body_slash option" where
  "ac_body_slash_decode buf =
     (case rget (rcur_init buf) (zeros 32) AC_PUBKEY_SIZE of (validator, c) \<Rightarrow>
      case rget_u64 c of (height, c) \<Rightarrow>
      case rget c (zeros 32) AC_HASH_SIZE of (hash_a, c) \<Rightarrow>
      case rget c (zeros 64) AC_SIG_SIZE of (sig_a, c) \<Rightarrow>
      case rget c (zeros 32) AC_HASH_SIZE of (hash_b, c) \<Rightarrow>
      case rget c (zeros 64) AC_SIG_SIZE of (sig_b, c) \<Rightarrow>
      if r_err c \<or> r_pos c \<noteq> length buf then None
      else Some \<lparr>sl_validator = validator, sl_height = height, sl_block_hash_a = hash_a,
                 sl_sig_a = sig_a, sl_block_hash_b = hash_b, sl_sig_b = sig_b\<rparr>)"

section \<open>Transactions\<close>

definition AC_TX_TRANSFER :: u8 where "AC_TX_TRANSFER = 1"
definition AC_TX_STAKE_BOND :: u8 where "AC_TX_STAKE_BOND = 2"
definition AC_TX_STAKE_UNBOND :: u8 where "AC_TX_STAKE_UNBOND = 3"
definition AC_TX_REGISTER_NAME :: u8 where "AC_TX_REGISTER_NAME = 4"
definition AC_TX_SLASH_EVIDENCE :: u8 where "AC_TX_SLASH_EVIDENCE = 5"

lemmas tx_kinds [simp] =
  AC_TX_TRANSFER_def AC_TX_STAKE_BOND_def AC_TX_STAKE_UNBOND_def AC_TX_REGISTER_NAME_def
  AC_TX_SLASH_EVIDENCE_def

record ac_tx =
  tx_version :: u8
  tx_chain_id :: u64
  tx_kind :: u8
  tx_sender :: ac_addr
  tx_nonce :: u64
  tx_gas_limit :: u32
  tx_tip :: u64
  tx_valid_until :: u64
  tx_body_len :: u32
  tx_body :: bytes
  tx_memo_len :: u32
  tx_memo :: bytes
  tx_sig :: ac_sig

definition ac_tx_intrinsic_gas :: "u8 \<Rightarrow> int" where
  "ac_tx_intrinsic_gas kind =
     (if kind = AC_TX_TRANSFER then 21 + 0
      else if kind = AC_TX_STAKE_BOND \<or> kind = AC_TX_STAKE_UNBOND then 21 + 30
      else if kind = AC_TX_REGISTER_NAME then 21 + 200
      else if kind = AC_TX_SLASH_EVIDENCE then 21 + 500
      else -1)"

definition ac_tx_total_gas :: "ac_tx \<Rightarrow> u64" where
  "ac_tx_total_gas tx =
     (let g = ac_tx_intrinsic_gas (tx_kind tx)
      in if g < 0 then UINT64_MAX else word_of_int g + ucast (tx_memo_len tx))"

definition TX_DOMAIN :: bytes where "TX_DOMAIN = cstr ''AGCH:TX:v1''"

definition ac_tx_signable_bytes :: "nat \<Rightarrow> ac_tx \<Rightarrow> bytes option" where
  "ac_tx_signable_bytes out_cap tx =
     (let c = wcur_init out_cap;
          c = wput c TX_DOMAIN (length TX_DOMAIN);
          c = wput_u8 c (tx_version tx);
          c = wput_u64 c (tx_chain_id tx);
          c = wput_u8 c (tx_kind tx);
          c = wput c (tx_sender tx) AC_PUBKEY_SIZE;
          c = wput_u64 c (tx_nonce tx);
          c = wput_u32 c (tx_gas_limit tx);
          c = wput_u64 c (tx_tip tx);
          c = wput_u64 c (tx_valid_until tx);
          c = wput_u32 c (tx_body_len tx);
          c = wput c (tx_body tx) (unat (tx_body_len tx));
          c = wput_u32 c (tx_memo_len tx);
          c = wput c (tx_memo tx) (unat (tx_memo_len tx))
      in wdone c)"

definition ac_tx_encode :: "nat \<Rightarrow> ac_tx \<Rightarrow> bytes option" where
  "ac_tx_encode out_cap tx =
     (let c = wcur_init out_cap;
          c = wput_u8 c (tx_version tx);
          c = wput_u64 c (tx_chain_id tx);
          c = wput_u8 c (tx_kind tx);
          c = wput c (tx_sender tx) AC_PUBKEY_SIZE;
          c = wput_u64 c (tx_nonce tx);
          c = wput_u32 c (tx_gas_limit tx);
          c = wput_u64 c (tx_tip tx);
          c = wput_u64 c (tx_valid_until tx);
          c = wput_u32 c (tx_body_len tx);
          c = wput c (tx_body tx) (unat (tx_body_len tx));
          c = wput_u32 c (tx_memo_len tx);
          c = wput c (tx_memo tx) (unat (tx_memo_len tx));
          c = wput c (tx_sig tx) AC_SIG_SIZE
      in wdone c)"

definition ac_tx_decode :: "bytes \<Rightarrow> ac_tx option" where
  "ac_tx_decode buf =
     (if length buf > AC_TX_MAX_BYTES then None else
      case rget_u8 (rcur_init buf) of (version, c) \<Rightarrow>
      case rget_u64 c of (chain_id, c) \<Rightarrow>
      case rget_u8 c of (kind, c) \<Rightarrow>
      case rget c (zeros 32) AC_PUBKEY_SIZE of (sender, c) \<Rightarrow>
      case rget_u64 c of (nonce, c) \<Rightarrow>
      case rget_u32 c of (gas_limit, c) \<Rightarrow>
      case rget_u64 c of (tip, c) \<Rightarrow>
      case rget_u64 c of (valid_until, c) \<Rightarrow>
      case rget_u32 c of (body_len, c) \<Rightarrow>
      if unat body_len > AC_TX_BODY_MAX then None else
      case rget c (zeros AC_TX_BODY_MAX) (unat body_len) of (body, c) \<Rightarrow>
      case rget_u32 c of (memo_len, c) \<Rightarrow>
      if unat memo_len > AC_MEMO_MAX then None else
      case rget c (zeros AC_MEMO_MAX) (unat memo_len) of (memo, c) \<Rightarrow>
      case rget c (zeros 64) AC_SIG_SIZE of (sig, c) \<Rightarrow>
      if r_err c \<or> r_pos c \<noteq> length buf then None
      else Some \<lparr>tx_version = version, tx_chain_id = chain_id, tx_kind = kind, tx_sender = sender,
        tx_nonce = nonce, tx_gas_limit = gas_limit, tx_tip = tip, tx_valid_until = valid_until,
        tx_body_len = body_len, tx_body = body, tx_memo_len = memo_len, tx_memo = memo,
        tx_sig = sig\<rparr>)"

definition ac_tx_hash :: "sodium \<Rightarrow> ac_tx \<Rightarrow> ac_hash" where
  "ac_tx_hash S tx =
     (case ac_tx_signable_bytes AC_TX_MAX_BYTES tx of None \<Rightarrow> zeros 32 | Some buf \<Rightarrow> ac_hash S buf)"

definition ac_tx_sign :: "sodium \<Rightarrow> ac_tx \<Rightarrow> ac_keypair \<Rightarrow> ac_tx option" where
  "ac_tx_sign S tx kp =
     (case ac_tx_signable_bytes AC_TX_MAX_BYTES tx of
        None \<Rightarrow> None
      | Some buf \<Rightarrow> let h = ac_hash S buf in Some (tx\<lparr>tx_sig := ac_sign S h kp\<rparr>))"

definition ac_tx_verify :: "sodium \<Rightarrow> ac_tx \<Rightarrow> bool" where
  "ac_tx_verify S tx =
     (case ac_tx_signable_bytes AC_TX_MAX_BYTES tx of
        None \<Rightarrow> False
      | Some buf \<Rightarrow> let h = ac_hash S buf in ac_verify S (tx_sig tx) h (tx_sender tx))"

section \<open>Well-formed structs\<close>

text \<open>
  The sizes the C types fix, and the shape the decoders produce: the part of \<^verbatim>\<open>body\<close> and \<^verbatim>\<open>memo\<close>
  beyond the recorded length is zero.
\<close>

definition wf_buf :: "nat \<Rightarrow> u32 \<Rightarrow> bytes \<Rightarrow> bool" where [wf]:
  "wf_buf cap n b \<longleftrightarrow> length b = cap \<and> unat n \<le> cap \<and> drop (unat n) b = zeros (cap - unat n)"

definition wf_tx :: "ac_tx \<Rightarrow> bool" where
  "wf_tx tx \<longleftrightarrow> wf_addr (tx_sender tx) \<and> wf_sig (tx_sig tx) \<and>
     wf_buf AC_TX_BODY_MAX (tx_body_len tx) (tx_body tx) \<and>
     wf_buf AC_MEMO_MAX (tx_memo_len tx) (tx_memo tx)"

definition wf_transfer :: "ac_body_transfer \<Rightarrow> bool" where [wf]:
  "wf_transfer b \<longleftrightarrow> wf_addr (bt_recipient b)"

definition wf_name :: "ac_body_name \<Rightarrow> bool" where
  "wf_name b \<longleftrightarrow> length (bn_name b) = 32 \<and> ac_name_valid (bn_name b) (unat (bn_name_len b)) \<and>
     drop (unat (bn_name_len b)) (bn_name b) = zeros (32 - unat (bn_name_len b))"

definition wf_slash :: "ac_body_slash \<Rightarrow> bool" where [wf]:
  "wf_slash b \<longleftrightarrow> wf_addr (sl_validator b) \<and> wf_hash (sl_block_hash_a b) \<and> wf_sig (sl_sig_a b) \<and>
     wf_hash (sl_block_hash_b b) \<and> wf_sig (sl_sig_b b)"

section \<open>What an exact decoder promises\<close>

locale wire_codec =
  fixes enc :: "'a \<Rightarrow> bytes option"
    and dec :: "bytes \<Rightarrow> 'a option"
    and good :: "'a \<Rightarrow> bool"
  assumes enc_total: "good x \<Longrightarrow> enc x \<noteq> None"
    and dec_enc: "good x \<Longrightarrow> enc x = Some b \<Longrightarrow> dec b = Some x"
    and dec_good: "dec b = Some x \<Longrightarrow> good x"
    and enc_dec: "dec b = Some x \<Longrightarrow> enc x = Some b"
begin

lemma dec_iff: "dec b = Some x \<longleftrightarrow> good x \<and> enc x = Some b"
  using dec_enc dec_good enc_dec by blast

lemma enc_inj: "good x \<Longrightarrow> good y \<Longrightarrow> enc x = enc y \<Longrightarrow> x = y"
  using enc_total dec_enc by (metis not_Some_eq option.inject)

lemma dec_inj: "dec a = Some x \<Longrightarrow> dec b = Some x \<Longrightarrow> a = b"
  by (metis enc_dec option.inject)

lemma roundtrip: "good x \<Longrightarrow> \<exists>b. enc x = Some b \<and> dec b = Some x"
  using enc_total dec_enc by blast

end

section \<open>Write cursors\<close>

definition wgood :: "nat \<Rightarrow> bytes \<Rightarrow> wcur \<Rightarrow> bool" where
  "wgood cap b c \<longleftrightarrow>
     w_cap c = cap \<and> (if length b \<le> cap then w_buf c = b \<and> \<not> w_err c else w_err c)"

lemma wgood_init: "wgood cap [] (wcur_init cap)"
  by (simp add: wgood_def wcur_init_def)

lemma wgood_wput:
  "wgood cap b c \<Longrightarrow> n \<le> length src \<Longrightarrow> wgood cap (b @ take n src) (wput c src n)"
  by (auto simp: wgood_def wput_def split: if_splits)

lemma wgood_u8: "wgood cap b c \<Longrightarrow> wgood cap (b @ [v]) (wput_u8 c v)"
  using wgood_wput [of cap b c 1 "[v]"] by (simp add: wput_u8_def)

lemma wgood_u32: "wgood cap b c \<Longrightarrow> wgood cap (b @ ac_be32 v) (wput_u32 c v)"
  using wgood_wput [of cap b c 4 "ac_be32 v"] by (simp add: wput_u32_def)

lemma wgood_u64: "wgood cap b c \<Longrightarrow> wgood cap (b @ ac_be64 v) (wput_u64 c v)"
  using wgood_wput [of cap b c 8 "ac_be64 v"] by (simp add: wput_u64_def)

lemmas wgood_intros = wgood_init wgood_u8 wgood_u32 wgood_u64 wgood_wput

lemma wgood_done: "wgood cap b c \<Longrightarrow> wdone c = (if length b \<le> cap then Some b else None)"
  by (auto simp: wgood_def wdone_def)

section \<open>Read cursors\<close>

text \<open>
  Decoding what an encoder wrote: \<open>rcur_at d r\<close> is the cursor that has consumed \<open>d\<close> and has \<open>r\<close>
  left.
\<close>

definition rcur_at :: "bytes \<Rightarrow> bytes \<Rightarrow> rcur" where
  "rcur_at d r = \<lparr>r_p = d @ r, r_cap = length d + length r, r_pos = length d, r_err = False\<rparr>"

lemma rcur_init_at: "rcur_init buf = rcur_at [] buf"
  by (simp add: rcur_init_def rcur_at_def)

lemma rcur_at_fields [simp]:
  "r_err (rcur_at d r) = False" "r_pos (rcur_at d r) = length d" "r_p (rcur_at d r) = d @ r"
  "r_cap (rcur_at d r) = length d + length r"
  by (simp_all add: rcur_at_def)

lemma memcpy_into_full [simp]: "length src = length dst \<Longrightarrow> memcpy_into dst src = src"
  by (simp add: memcpy_into_def)

lemma rget_at [simp]:
  "length x = n \<Longrightarrow> rget (rcur_at d (x @ r)) dst n = (memcpy_into dst x, rcur_at (d @ x) r)"
  by (auto simp: rget_def rcur_at_def)

lemma rget_at_last [simp]:
  "length x = n \<Longrightarrow> rget (rcur_at d x) dst n = (memcpy_into dst x, rcur_at (d @ x) [])"
  using rget_at [of x n d "[]" dst] by simp

lemma rget_u8_at [simp]: "rget_u8 (rcur_at d (v # r)) = (v, rcur_at (d @ [v]) r)"
  using rget_at [of "[v]" 1 d r "[0]"] by (simp add: rget_u8_def)

lemma rget_u32_at [simp]:
  "rget_u32 (rcur_at d (ac_be32 v @ r)) = (v, rcur_at (d @ ac_be32 v) r)"
  "rget_u32 (rcur_at d (ac_be32 v)) = (v, rcur_at (d @ ac_be32 v) [])"
  by (simp_all add: rget_u32_def)

lemma rget_u64_at [simp]:
  "rget_u64 (rcur_at d (ac_be64 v @ r)) = (v, rcur_at (d @ ac_be64 v) r)"
  "rget_u64 (rcur_at d (ac_be64 v)) = (v, rcur_at (d @ ac_be64 v) [])"
  by (simp_all add: rget_u64_def)

text \<open>
  What a successful decoder has read: \<open>adv c x c'\<close> says that the reads between \<open>c\<close> and \<open>c'\<close>
  consumed \<open>x\<close>. The error flag is sticky, so one test at the end covers every read before it.
\<close>

definition adv :: "rcur \<Rightarrow> bytes \<Rightarrow> rcur \<Rightarrow> bool" where
  "adv c x c' \<longleftrightarrow> \<not> r_err c \<and> r_p c' = r_p c \<and> r_cap c' = r_cap c \<and>
     (r_cap c = length (r_p c) \<longrightarrow>
        r_pos c' = r_pos c + length x \<and> drop (r_pos c) (r_p c) = x @ drop (r_pos c') (r_p c'))"

lemma adv_nil: "\<not> r_err c \<Longrightarrow> adv c [] c"
  by (simp add: adv_def)

lemma rget_shape:
  assumes "rget c dst n = (x, c')" "n \<le> length dst"
  shows "length x = length dst" "drop n x = drop n dst"
  using assms by (auto simp: rget_def memcpy_into_def split: if_splits)

lemma adv_rget:
  assumes "rget c dst n = (x, c')" "n \<le> length dst" "adv c' y c''"
  shows "adv c (take n x @ y) c''"
proof -
  have ok: "\<not> r_err c" "r_pos c + n \<le> r_cap c"
    and x: "x = memcpy_into dst (take n (drop (r_pos c) (r_p c)))"
    and c': "c' = c\<lparr>r_pos := r_pos c + n\<rparr>"
    using assms(1,3) by (auto simp: rget_def adv_def split: if_splits)
  have "take n x = take n (drop (r_pos c) (r_p c))" if "r_cap c = length (r_p c)"
    using ok(2) that by (simp add: x memcpy_into_def)
  moreover have "drop (r_pos c) (r_p c) =
      take n (drop (r_pos c) (r_p c)) @ drop (r_pos c + n) (r_p c)"
    by (rule drop_split)
  ultimately show ?thesis
    using assms(3) ok by (auto simp: adv_def c')
qed

lemma adv_u8:
  assumes "rget_u8 c = (v, c')" "adv c' y c''"
  shows "adv c (v # y) c''"
proof -
  obtain b where b: "rget c [0] 1 = (b, c')" "v = b ! 0"
    using assms(1) by (auto simp: rget_u8_def split: prod.splits)
  then have "take 1 b = [v]"
    using rget_shape(1) [OF b(1)] by (cases b) auto
  then show ?thesis using adv_rget [OF b(1) _ assms(2)] by simp
qed

lemma adv_u32:
  assumes "rget_u32 c = (v, c')" "adv c' y c''"
  shows "adv c (ac_be32 v @ y) c''"
proof -
  obtain b where b: "rget c (zeros 4) 4 = (b, c')" "v = ac_rd32 b"
    using assms(1) by (auto simp: rget_u32_def split: prod.splits)
  then show ?thesis
    using adv_rget [OF b(1) _ assms(2)] rget_shape(1) [OF b(1)] by (simp add: be32_rd32)
qed

lemma adv_u64:
  assumes "rget_u64 c = (v, c')" "adv c' y c''"
  shows "adv c (ac_be64 v @ y) c''"
proof -
  obtain b where b: "rget c (zeros 8) 8 = (b, c')" "v = ac_rd64 b"
    using assms(1) by (auto simp: rget_u64_def split: prod.splits)
  then show ?thesis
    using adv_rget [OF b(1) _ assms(2)] rget_shape(1) [OF b(1)] by (simp add: be64_rd64)
qed

lemma adv_exact:
  assumes "rget c dst n = (x, c')" "length dst = n" "adv c' y c''"
  shows "adv c (x @ y) c''"
  using adv_rget [OF assms(1) _ assms(3)] rget_shape(1) [OF assms(1)] assms(2) by simp

lemma adv_init:
  assumes "adv (rcur_init buf) x c"
  shows "take (length x) buf = x" "r_pos c = length x"
proof -
  obtain z where "buf = x @ z"
    using assms unfolding adv_def rcur_init_def by (metis drop0 rcur.select_convs(1,2,3))
  then show "take (length x) buf = x" by simp
  show "r_pos c = length x"
    using assms unfolding adv_def rcur_init_def by simp
qed

lemma adv_init_all:
  assumes "adv (rcur_init buf) x c" "r_pos c = length buf"
  shows "buf = x"
  using adv_init [OF assms(1)] assms(2) by simp

section \<open>Bodies\<close>

definition transfer_bytes :: "ac_body_transfer \<Rightarrow> bytes" where
  "transfer_bytes b = bt_recipient b @ ac_be64 (bt_amount b)"

definition slash_bytes :: "ac_body_slash \<Rightarrow> bytes" where
  "slash_bytes b = sl_validator b @ ac_be64 (sl_height b) @ sl_block_hash_a b @ sl_sig_a b @
     sl_block_hash_b b @ sl_sig_b b"

lemma ac_body_transfer_encode_eq:
  assumes "wf_transfer b"
  shows "ac_body_transfer_encode cap b = (if 40 \<le> cap then Some (transfer_bytes b) else None)"
  unfolding ac_body_transfer_encode_def
  by (rule trans [OF wgood_done]) (rule wgood_intros | use assms in \<open>simp add: wf transfer_bytes_def\<close>)+

lemma ac_body_slash_encode_eq:
  assumes "wf_slash b"
  shows "ac_body_slash_encode cap b = (if 232 \<le> cap then Some (slash_bytes b) else None)"
  unfolding ac_body_slash_encode_def Let_def
  by (rule trans [OF wgood_done]) (rule wgood_intros | use assms in \<open>simp add: wf slash_bytes_def\<close>)+

interpretation transfer: wire_codec "ac_body_transfer_encode AC_TX_BODY_MAX" ac_body_transfer_decode wf_transfer
proof
  fix x b
  assume g: "wf_transfer x"
  then show "ac_body_transfer_encode AC_TX_BODY_MAX x \<noteq> None"
    by (simp add: ac_body_transfer_encode_eq)
  assume "ac_body_transfer_encode AC_TX_BODY_MAX x = Some b"
  then show "ac_body_transfer_decode b = Some x"
    using g by (auto simp: ac_body_transfer_encode_eq transfer_bytes_def ac_body_transfer_decode_def
        rcur_init_at wf)
next
  fix x b
  assume "ac_body_transfer_decode b = Some x"
  then obtain c1 c where r: "rget (rcur_init b) (zeros 32) 32 = (bt_recipient x, c1)"
      "rget_u64 c1 = (bt_amount x, c)" "\<not> r_err c" "r_pos c = length b"
    by (auto simp: ac_body_transfer_decode_def split: prod.splits if_splits)
  then show g: "wf_transfer x"
    using rget_shape(1) [OF r(1)] by (simp add: wf)
  have "adv (rcur_init b) (bt_recipient x @ ac_be64 (bt_amount x) @ []) c"
    by (rule adv_exact [OF r(1)], simp, rule adv_u64 [OF r(2)], rule adv_nil [OF r(3)])
  then have "b = transfer_bytes x"
    using adv_init_all r(4) by (simp add: transfer_bytes_def)
  then show "ac_body_transfer_encode AC_TX_BODY_MAX x = Some b"
    using g by (simp add: ac_body_transfer_encode_eq)
qed

interpretation stake: wire_codec "ac_body_stake_encode AC_TX_BODY_MAX" ac_body_stake_decode "\<lambda>_. True"
  by unfold_locales
    (auto simp: ac_body_stake_encode_def ac_body_stake_decode_def be64_rd64 split: if_splits)

lemma name_decode_shape:
  assumes "ac_body_name_decode out_name b = Some x" "length out_name = 32"
  shows "length (bn_name x) = 32" "b = bn_name_len x # take (unat (bn_name_len x)) (bn_name x)"
    "ac_name_valid (bn_name x) (unat (bn_name_len x))"
    "drop (unat (bn_name_len x)) (bn_name x) = drop (unat (bn_name_len x)) out_name"
  using assms
  by (cases b; auto simp: ac_body_name_decode_def Let_def memcpy_into_def split: if_splits)+

lemma name_valid_bounds:
  "ac_name_valid n l \<Longrightarrow> 1 \<le> l \<and> l \<le> 32"
  by (simp add: ac_name_valid_def)

interpretation name: wire_codec "ac_body_name_encode AC_TX_BODY_MAX" "ac_body_name_decode (zeros 32)" wf_name
proof
  fix x b
  assume g: "wf_name x"
  then have n: "0 < unat (bn_name_len x)" "unat (bn_name_len x) \<le> 32" "bn_name_len x \<noteq> 0"
    using name_valid_bounds [of "bn_name x" "unat (bn_name_len x)"] by (auto simp: wf_name_def)
  then show "ac_body_name_encode AC_TX_BODY_MAX x \<noteq> None"
    by (simp add: ac_body_name_encode_def)
  have "take (unat (bn_name_len x)) (bn_name x) @ zeros (32 - unat (bn_name_len x)) = bn_name x"
    using g by (metis append_take_drop_id wf_name_def)
  moreover assume "ac_body_name_encode AC_TX_BODY_MAX x = Some b"
  ultimately show "ac_body_name_decode (zeros 32) b = Some x"
    using g n by (auto simp: ac_body_name_encode_def ac_body_name_decode_def wf_name_def memcpy_into_def
        min_absorb2)
next
  fix x b
  assume d: "ac_body_name_decode (zeros 32) b = Some x"
  note sh = name_decode_shape [OF d length_zeros]
  show "wf_name x"
    using sh by (simp add: wf_name_def)
  have "bn_name_len x \<noteq> 0"
    using name_valid_bounds [OF sh(3)] by auto
  then show "ac_body_name_encode AC_TX_BODY_MAX x = Some b"
    using sh(2) name_valid_bounds [OF sh(3)] by (simp add: ac_body_name_encode_def)
qed

interpretation slash: wire_codec "ac_body_slash_encode AC_TX_BODY_MAX" ac_body_slash_decode wf_slash
proof
  fix x b
  assume g: "wf_slash x"
  then show "ac_body_slash_encode AC_TX_BODY_MAX x \<noteq> None"
    by (simp add: ac_body_slash_encode_eq)
  assume "ac_body_slash_encode AC_TX_BODY_MAX x = Some b"
  then show "ac_body_slash_decode b = Some x"
    using g by (auto simp: ac_body_slash_encode_eq slash_bytes_def ac_body_slash_decode_def
        rcur_init_at wf)
next
  fix x b
  assume "ac_body_slash_decode b = Some x"
  then obtain c1 c2 c3 c4 c5 c where
    r: "rget (rcur_init b) (zeros 32) 32 = (sl_validator x, c1)" "rget_u64 c1 = (sl_height x, c2)"
      "rget c2 (zeros 32) 32 = (sl_block_hash_a x, c3)" "rget c3 (zeros 64) 64 = (sl_sig_a x, c4)"
      "rget c4 (zeros 32) 32 = (sl_block_hash_b x, c5)" "rget c5 (zeros 64) 64 = (sl_sig_b x, c)"
      "\<not> r_err c" "r_pos c = length b"
    by (auto simp: ac_body_slash_decode_def split: prod.splits if_splits)
  then show g: "wf_slash x"
    using r(1,3,4,5,6) [THEN rget_shape(1)] by (simp add: wf)
  have "adv (rcur_init b) (sl_validator x @ ac_be64 (sl_height x) @ sl_block_hash_a x @ sl_sig_a x @
      sl_block_hash_b x @ sl_sig_b x @ []) c"
    by (intro adv_exact [OF r(1)] adv_u64 [OF r(2)] adv_exact [OF r(3)] adv_exact [OF r(4)]
        adv_exact [OF r(5)] adv_exact [OF r(6)] adv_nil [OF r(7)]) simp_all
  then have "b = slash_bytes x"
    using adv_init_all r(8) by (simp add: slash_bytes_def)
  then show "ac_body_slash_encode AC_TX_BODY_MAX x = Some b"
    using g by (simp add: ac_body_slash_encode_eq)
qed

section \<open>Transactions: the byte layout\<close>

definition tx_prefix :: "ac_tx \<Rightarrow> bytes" where
  "tx_prefix tx = tx_version tx # ac_be64 (tx_chain_id tx) @ tx_kind tx # tx_sender tx @
     ac_be64 (tx_nonce tx) @ ac_be32 (tx_gas_limit tx) @ ac_be64 (tx_tip tx) @
     ac_be64 (tx_valid_until tx)"

definition tx_body_bytes :: "ac_tx \<Rightarrow> bytes" where
  "tx_body_bytes tx = tx_prefix tx @
     ac_be32 (tx_body_len tx) @ take (unat (tx_body_len tx)) (tx_body tx) @
     ac_be32 (tx_memo_len tx) @ take (unat (tx_memo_len tx)) (tx_memo tx)"

definition tx_bytes :: "ac_tx \<Rightarrow> bytes" where
  "tx_bytes tx = tx_body_bytes tx @ tx_sig tx"

lemma tx_body_bytes_sig [simp]: "tx_body_bytes (tx\<lparr>tx_sig := s\<rparr>) = tx_body_bytes tx"
  by (simp add: tx_body_bytes_def tx_prefix_def)

lemma wf_bufD:
  assumes "wf_buf cap n b"
  shows "length (take (unat n) b) = unat n" "unat n \<le> cap"
    "memcpy_into (zeros cap) (take (unat n) b) = b"
proof -
  show "length (take (unat n) b) = unat n" "unat n \<le> cap"
    using assms by (simp_all add: wf)
  show "memcpy_into (zeros cap) (take (unat n) b) = b"
    using assms append_take_drop_id [of "unat n" b] by (simp add: memcpy_into_def wf)
qed

lemma wf_tx_bufs:
  assumes "wf_tx tx"
  shows "wf_buf 512 (tx_body_len tx) (tx_body tx)" "wf_buf 512 (tx_memo_len tx) (tx_memo tx)"
    "length (tx_sender tx) = 32" "length (tx_sig tx) = 64"
    "length (tx_body tx) = 512" "length (tx_memo tx) = 512"
  using assms by (simp_all add: wf_tx_def wf)

lemma length_tx_prefix: "wf_tx tx \<Longrightarrow> length (tx_prefix tx) = 70"
  by (simp add: tx_prefix_def wf_tx_bufs)

lemma length_tx_bytes:
  assumes "wf_tx tx"
  shows "length (tx_bytes tx) = 142 + unat (tx_body_len tx) + unat (tx_memo_len tx)"
    "length (tx_body_bytes tx) = 78 + unat (tx_body_len tx) + unat (tx_memo_len tx)"
  using wf_bufD(1,2) [OF wf_tx_bufs(1) [OF assms]] wf_bufD(1,2) [OF wf_tx_bufs(2) [OF assms]]
  by (simp_all add: tx_bytes_def tx_body_bytes_def length_tx_prefix wf_tx_bufs assms)

lemma tx_bytes_bound:
  assumes "wf_tx tx"
  shows "length (tx_bytes tx) \<le> 1166" "length (tx_body_bytes tx) \<le> 1102"
  using wf_bufD(2) [OF wf_tx_bufs(1) [OF assms]] wf_bufD(2) [OF wf_tx_bufs(2) [OF assms]]
  by (simp_all add: length_tx_bytes assms)

lemma ac_tx_encode_eq:
  assumes "wf_tx tx"
  shows "ac_tx_encode cap tx = (if length (tx_bytes tx) \<le> cap then Some (tx_bytes tx) else None)"
proof -
  note b = wf_tx_bufs [OF assms]
  note n = wf_bufD(2) [OF b(1)] wf_bufD(2) [OF b(2)]
  show ?thesis
    unfolding ac_tx_encode_def Let_def
    by (rule trans [OF wgood_done])
      (rule wgood_intros | simp add: b n tx_bytes_def tx_body_bytes_def tx_prefix_def)+
qed

lemma ac_tx_signable_bytes_eq:
  assumes "wf_tx tx"
  shows "ac_tx_signable_bytes 2048 tx = Some (TX_DOMAIN @ tx_body_bytes tx)"
proof -
  note b = wf_tx_bufs [OF assms]
  note n = wf_bufD(2) [OF b(1)] wf_bufD(2) [OF b(2)]
  have "ac_tx_signable_bytes cap tx = (if length (TX_DOMAIN @ tx_body_bytes tx) \<le> cap
      then Some (TX_DOMAIN @ tx_body_bytes tx) else None)" for cap
    unfolding ac_tx_signable_bytes_def Let_def
    by (rule trans [OF wgood_done])
      (rule wgood_intros | simp add: b n tx_body_bytes_def tx_prefix_def)+
  then show ?thesis
    using tx_bytes_bound(2) [OF assms] by (simp add: TX_DOMAIN_def)
qed

lemma ac_tx_decode_encode:
  assumes "wf_tx tx"
  shows "ac_tx_decode (tx_bytes tx) = Some tx"
proof -
  note b = wf_tx_bufs [OF assms]
  note n = wf_bufD(1,2) [OF b(1)] wf_bufD(1,2) [OF b(2)]
  have "\<not> 2048 < length (tx_bytes tx)"
    using tx_bytes_bound(1) [OF assms] by simp
  moreover have "length (tx_bytes tx) = length (tx_prefix tx) + 4 + unat (tx_body_len tx) + 4
      + unat (tx_memo_len tx) + 64"
    by (simp add: length_tx_bytes length_tx_prefix assms)
  ultimately show ?thesis
    using n wf_bufD(3) [OF b(1)] wf_bufD(3) [OF b(2)] b
    unfolding tx_bytes_def tx_body_bytes_def tx_prefix_def ac_tx_decode_def
    by (simp add: rcur_init_at)
qed

lemma ac_tx_decodeE:
  assumes "ac_tx_decode buf = Some tx"
  shows "wf_tx tx" "buf = tx_bytes tx"
proof -
  obtain c1 c2 c3 c4 c5 c6 c7 c8 c9 c10 c11 c12 c where
    r: "rget_u8 (rcur_init buf) = (tx_version tx, c1)" "rget_u64 c1 = (tx_chain_id tx, c2)"
      "rget_u8 c2 = (tx_kind tx, c3)" "rget c3 (zeros 32) 32 = (tx_sender tx, c4)"
      "rget_u64 c4 = (tx_nonce tx, c5)" "rget_u32 c5 = (tx_gas_limit tx, c6)"
      "rget_u64 c6 = (tx_tip tx, c7)" "rget_u64 c7 = (tx_valid_until tx, c8)"
      "rget_u32 c8 = (tx_body_len tx, c9)"
      "rget c9 (zeros 512) (unat (tx_body_len tx)) = (tx_body tx, c10)"
      "rget_u32 c10 = (tx_memo_len tx, c11)"
      "rget c11 (zeros 512) (unat (tx_memo_len tx)) = (tx_memo tx, c12)"
      "rget c12 (zeros 64) 64 = (tx_sig tx, c)"
    and e: "\<not> r_err c" "r_pos c = length buf"
    and n: "unat (tx_body_len tx) \<le> 512" "unat (tx_memo_len tx) \<le> 512"
    using assms by (auto simp: ac_tx_decode_def not_less split: prod.splits if_splits)
  show "wf_tx tx"
    using n rget_shape [OF r(4)] rget_shape [OF r(10)] rget_shape [OF r(12)] rget_shape [OF r(13)]
    by (simp add: wf_tx_def wf)
  have "adv (rcur_init buf) (tx_version tx # ac_be64 (tx_chain_id tx) @ tx_kind tx # tx_sender tx @
      ac_be64 (tx_nonce tx) @ ac_be32 (tx_gas_limit tx) @ ac_be64 (tx_tip tx) @
      ac_be64 (tx_valid_until tx) @ ac_be32 (tx_body_len tx) @
      take (unat (tx_body_len tx)) (tx_body tx) @ ac_be32 (tx_memo_len tx) @
      take (unat (tx_memo_len tx)) (tx_memo tx) @ tx_sig tx @ []) c"
    by (intro adv_u8 [OF r(1)] adv_u64 [OF r(2)] adv_u8 [OF r(3)] adv_exact [OF r(4)]
        adv_u64 [OF r(5)] adv_u32 [OF r(6)] adv_u64 [OF r(7)] adv_u64 [OF r(8)] adv_u32 [OF r(9)]
        adv_rget [OF r(10)] adv_u32 [OF r(11)] adv_rget [OF r(12)] adv_exact [OF r(13)]
        adv_nil [OF e(1)]) (simp_all add: n)
  then show "buf = tx_bytes tx"
    using adv_init_all e(2) by (simp add: tx_bytes_def tx_body_bytes_def tx_prefix_def)
qed

interpretation tx: wire_codec "ac_tx_encode AC_TX_MAX_BYTES" ac_tx_decode wf_tx
proof
  fix x b
  assume g: "wf_tx x"
  then have e: "ac_tx_encode AC_TX_MAX_BYTES x = Some (tx_bytes x)"
    using tx_bytes_bound(1) [OF g] by (simp add: ac_tx_encode_eq)
  then show "ac_tx_encode AC_TX_MAX_BYTES x \<noteq> None" by simp
  assume "ac_tx_encode AC_TX_MAX_BYTES x = Some b"
  then show "ac_tx_decode b = Some x" using e ac_tx_decode_encode [OF g] by simp
next
  fix x b
  assume d: "ac_tx_decode b = Some x"
  then show g: "wf_tx x" by (rule ac_tx_decodeE)
  show "ac_tx_encode AC_TX_MAX_BYTES x = Some b"
    using ac_tx_decodeE [OF d] tx_bytes_bound(1) [OF g] by (simp add: ac_tx_encode_eq)
qed

lemma ac_tx_encode_max: "wf_tx tx \<Longrightarrow> ac_tx_encode 2048 tx = Some (tx_bytes tx)"
  using tx_bytes_bound(1) [of tx] by (simp add: ac_tx_encode_eq)

section \<open>Properties of the transaction codec\<close>

text \<open>
  Claim C27. The transaction decoder accepts exactly the encodings of well-formed transactions:
  a buffer decodes to \<open>tx\<close> if and only if \<open>tx\<close> is well formed and \<^verbatim>\<open>ac_tx_encode\<close> writes that very
  buffer. So decoding inverts encoding, and no transaction has two accepted encodings.
\<close>

theorem ac_tx_decode_iff:
  "ac_tx_decode buf = Some tx \<longleftrightarrow> wf_tx tx \<and> ac_tx_encode AC_TX_MAX_BYTES tx = Some buf"
  by (rule tx.dec_iff)

text \<open>
  The same for the four body shapes: transfer, stake, name and slash bodies decode
  exactly from their encodings, and a decoded name is valid.
\<close>

theorem ac_body_decode_iff:
  "(ac_body_transfer_decode buf = Some bt \<longleftrightarrow>
      wf_transfer bt \<and> ac_body_transfer_encode AC_TX_BODY_MAX bt = Some buf) \<and>
   (ac_body_stake_decode buf = Some bs \<longleftrightarrow> ac_body_stake_encode AC_TX_BODY_MAX bs = Some buf) \<and>
   (ac_body_name_decode (zeros 32) buf = Some bn \<longleftrightarrow>
      wf_name bn \<and> ac_body_name_encode AC_TX_BODY_MAX bn = Some buf) \<and>
   (ac_body_slash_decode buf = Some sl \<longleftrightarrow>
      wf_slash sl \<and> ac_body_slash_encode AC_TX_BODY_MAX sl = Some buf)"
  using transfer.dec_iff stake.dec_iff name.dec_iff slash.dec_iff by blast

text \<open>
  The signed bytes of a transaction determine every field but the signature: two
  well-formed transactions with the same \<^verbatim>\<open>ac_tx_signable_bytes\<close> differ at most in \<^verbatim>\<open>sig\<close>. What is
  hashed for the transaction id and signed by the sender is therefore unambiguous.
\<close>

theorem ac_tx_signable_inj:
  assumes "wf_tx tx" "wf_tx tx'"
    and "ac_tx_signable_bytes AC_TX_MAX_BYTES tx = ac_tx_signable_bytes AC_TX_MAX_BYTES tx'"
  shows "tx' = tx\<lparr>tx_sig := tx_sig tx'\<rparr>"
proof -
  let ?t = "tx\<lparr>tx_sig := tx_sig tx'\<rparr>"
  have w: "wf_tx ?t" using assms(1,2) by (simp add: wf_tx_def)
  have "tx_body_bytes ?t = tx_body_bytes tx'"
    using assms by (simp add: ac_tx_signable_bytes_eq)
  then have "tx_bytes ?t = tx_bytes tx'" by (simp add: tx_bytes_def)
  then have "?t = tx'"
    using tx.enc_inj [OF w assms(2)] by (simp add: ac_tx_encode_max [OF w] ac_tx_encode_max [OF assms(2)])
  then show ?thesis by simp
qed

text \<open>A transaction for concrete runs: kind, sender, nonce, gas limit, tip and body are given.\<close>

definition demo_tx :: "u8 \<Rightarrow> ac_addr \<Rightarrow> u64 \<Rightarrow> u32 \<Rightarrow> u64 \<Rightarrow> bytes \<Rightarrow> ac_tx" where
  "demo_tx kind sender nonce gas_limit tip body =
     \<lparr>tx_version = 1, tx_chain_id = 7, tx_kind = kind, tx_sender = sender, tx_nonce = nonce,
      tx_gas_limit = gas_limit, tx_tip = tip, tx_valid_until = 1000,
      tx_body_len = of_nat (length body), tx_body = memcpy_into (zeros 512) body,
      tx_memo_len = 0, tx_memo = zeros 512, tx_sig = zeros 64\<rparr>"

lemma wf_demo_tx: "length sender = 32 \<Longrightarrow> length body \<le> 512 \<Longrightarrow> wf_tx (demo_tx k sender n g t body)"
  by (auto simp: wf_tx_def demo_tx_def wf unat_of_nat)

theorem ac_tx_signable_inj_witness:
  "let t = demo_tx 1 (zeros 32) 0 21 5 (zeros 40); t' = t\<lparr>tx_sig := 1 # zeros 63\<rparr>
   in wf_tx t \<and> wf_tx t' \<and> t' = t\<lparr>tx_sig := tx_sig t'\<rparr>"
proof -
  let ?t = "demo_tx 1 (zeros 32) 0 21 5 (zeros 40)" and ?t' = "demo_tx 1 (zeros 32) 0 21 5 (zeros 40)\<lparr>tx_sig := 1 # zeros 63\<rparr>"
  have w: "wf_tx ?t" by (simp add: wf_demo_tx)
  then have w': "wf_tx ?t'" by (simp add: wf_tx_def wf)
  have "ac_tx_signable_bytes AC_TX_MAX_BYTES ?t = ac_tx_signable_bytes AC_TX_MAX_BYTES ?t'"
    by (simp add: ac_tx_signable_bytes_def)
  then show ?thesis using ac_tx_signable_inj [OF w w'] w w' by simp
qed

text \<open>
  A signed transaction verifies: signing a well-formed transaction with the key pair of
  its sender succeeds, changes only the signature and passes \<^verbatim>\<open>ac_tx_verify\<close>.
\<close>

theorem ac_tx_sign_verify:
  assumes "sodium_ok S" "length seed = 32" "wf_tx tx"
    and "tx_sender tx = kp_pk (ac_keypair_from_seed S seed)"
  shows "\<exists>sig. ac_tx_sign S tx (ac_keypair_from_seed S seed) = Some (tx\<lparr>tx_sig := sig\<rparr>) \<and>
    wf_tx (tx\<lparr>tx_sig := sig\<rparr>) \<and> ac_tx_verify S (tx\<lparr>tx_sig := sig\<rparr>)"
proof (intro exI conjI)
  let ?kp = "ac_keypair_from_seed S seed"
  let ?sig = "ac_sign S (ac_hash S (TX_DOMAIN @ tx_body_bytes tx)) ?kp"
  show "ac_tx_sign S tx ?kp = Some (tx\<lparr>tx_sig := ?sig\<rparr>)"
    using assms(3) by (simp add: ac_tx_sign_def ac_tx_signable_bytes_eq)
  show w: "wf_tx (tx\<lparr>tx_sig := ?sig\<rparr>)"
    using assms(3) length_ac_sign [OF assms(1)] by (simp add: wf_tx_def wf)
  show "ac_tx_verify S (tx\<lparr>tx_sig := ?sig\<rparr>)"
    using sodium_ok_keypair(4) [OF assms(1,2)] assms(4)
    by (simp add: ac_tx_verify_def ac_tx_signable_bytes_eq [OF w])
qed

theorem ac_tx_sign_verify_witness:
  "\<exists>sig. ac_tx_sign demo_sodium (demo_tx 1 (zeros 32) 0 21 5 (zeros 40))
      (ac_keypair_from_seed demo_sodium (zeros 32))
    = Some (demo_tx 1 (zeros 32) 0 21 5 (zeros 40)\<lparr>tx_sig := sig\<rparr>) \<and>
    wf_tx (demo_tx 1 (zeros 32) 0 21 5 (zeros 40)\<lparr>tx_sig := sig\<rparr>) \<and>
    ac_tx_verify demo_sodium (demo_tx 1 (zeros 32) 0 21 5 (zeros 40)\<lparr>tx_sig := sig\<rparr>)"
  by (rule ac_tx_sign_verify [OF sodium_ok_demo])
    (simp_all add: wf_demo_tx, simp add: demo_tx_def ac_keypair_from_seed_def demo_sodium_def)

end
