(* ===== verification/Block.thy ===== *)
theory Block
  imports Codec
begin

text \<open>
  The second half of \<^verbatim>\<open>codec.c\<close>: block headers, the block hash, the transaction root, the message
  a committee vote signs, and whole blocks. A block keeps its transactions and its commit
  certificate as lists, so \<^verbatim>\<open>tx_count\<close> and \<^verbatim>\<open>nsigners\<close> are their lengths; allocation succeeds.
  Header and block decoders stop after what they need and return the number of bytes consumed; the
  locale \<open>prefix_codec\<close> states what they promise and is interpreted for both.
\<close>

section \<open>Limits\<close>

definition AC_BLOCK_VERSION :: u8 where "AC_BLOCK_VERSION = 1"
definition AC_BLOCK_MAX_TXS :: nat where "AC_BLOCK_MAX_TXS = 4096"
definition AC_BLOCK_GAS_LIMIT :: u64 where "AC_BLOCK_GAS_LIMIT = 30000000"
definition AC_COMMITTEE_MAX :: nat where "AC_COMMITTEE_MAX = 256"
definition HEADER_BYTES_MAX :: nat where "HEADER_BYTES_MAX = 256"

lemmas block_limits [simp] =
  AC_BLOCK_VERSION_def AC_BLOCK_MAX_TXS_def AC_BLOCK_GAS_LIMIT_def AC_COMMITTEE_MAX_def
  HEADER_BYTES_MAX_def

section \<open>Structs\<close>

record ac_block_header =
  h_version :: u8
  h_height :: u64
  h_slot :: u64
  h_parent_hash :: ac_hash
  h_timestamp_ms :: u64
  h_proposer :: ac_addr
  h_proposer_vrf_proof :: bytes
  h_state_root :: ac_hash
  h_tx_root :: ac_hash
  h_base_fee :: u64
  h_gas_used :: u64
  h_gas_limit :: u64
  h_tx_count :: u32

record ac_commit_signer =
  cs_signer :: ac_addr
  cs_sig :: ac_sig
  cs_vrf_proof :: bytes

record ac_block =
  b_header :: ac_block_header
  b_txs :: "ac_tx list"
  b_signers :: "ac_commit_signer list"

section \<open>Headers\<close>

definition ac_block_header_encode :: "nat \<Rightarrow> ac_block_header \<Rightarrow> bytes option" where
  "ac_block_header_encode cap h =
     (let c = wcur_init cap;
          c = wput_u8 c (h_version h);
          c = wput_u64 c (h_height h);
          c = wput_u64 c (h_slot h);
          c = wput c (h_parent_hash h) AC_HASH_SIZE;
          c = wput_u64 c (h_timestamp_ms h);
          c = wput c (h_proposer h) AC_PUBKEY_SIZE;
          c = wput c (h_proposer_vrf_proof h) AC_VRF_PROOF_SIZE;
          c = wput c (h_state_root h) AC_HASH_SIZE;
          c = wput c (h_tx_root h) AC_HASH_SIZE;
          c = wput_u64 c (h_base_fee h);
          c = wput_u64 c (h_gas_used h);
          c = wput_u64 c (h_gas_limit h);
          c = wput_u32 c (h_tx_count h)
      in wdone c)"

definition ac_block_header_decode :: "bytes \<Rightarrow> (ac_block_header \<times> nat) option" where
  "ac_block_header_decode buf =
     (case rget_u8 (rcur_init buf) of (version, c) \<Rightarrow>
      case rget_u64 c of (height, c) \<Rightarrow>
      case rget_u64 c of (slot, c) \<Rightarrow>
      case rget c (zeros 32) AC_HASH_SIZE of (parent_hash, c) \<Rightarrow>
      case rget_u64 c of (timestamp_ms, c) \<Rightarrow>
      case rget c (zeros 32) AC_PUBKEY_SIZE of (proposer, c) \<Rightarrow>
      case rget c (zeros 64) AC_VRF_PROOF_SIZE of (vrf_proof, c) \<Rightarrow>
      case rget c (zeros 32) AC_HASH_SIZE of (state_root, c) \<Rightarrow>
      case rget c (zeros 32) AC_HASH_SIZE of (tx_root, c) \<Rightarrow>
      case rget_u64 c of (base_fee, c) \<Rightarrow>
      case rget_u64 c of (gas_used, c) \<Rightarrow>
      case rget_u64 c of (gas_limit, c) \<Rightarrow>
      case rget_u32 c of (tx_count, c) \<Rightarrow>
      if r_err c then None
      else Some (\<lparr>h_version = version, h_height = height, h_slot = slot,
        h_parent_hash = parent_hash, h_timestamp_ms = timestamp_ms, h_proposer = proposer,
        h_proposer_vrf_proof = vrf_proof, h_state_root = state_root, h_tx_root = tx_root,
        h_base_fee = base_fee, h_gas_used = gas_used, h_gas_limit = gas_limit,
        h_tx_count = tx_count\<rparr>, r_pos c))"

definition BLOCK_DOMAIN :: bytes where "BLOCK_DOMAIN = cstr ''AGCH:BLOCK:v1''"

definition ac_block_hash :: "sodium \<Rightarrow> ac_block_header \<Rightarrow> ac_hash" where
  "ac_block_hash S h =
     (case ac_block_header_encode HEADER_BYTES_MAX h of
        None \<Rightarrow> zeros 32
      | Some buf \<Rightarrow> ac_hash_multi S [BLOCK_DOMAIN, buf])"

definition ac_block_tx_root :: "sodium \<Rightarrow> ac_tx list \<Rightarrow> ac_hash" where
  "ac_block_tx_root S txs =
     (if txs = [] then zeros 32 else ac_hash S (concat (map (ac_tx_hash S) txs)))"

definition VOTE_DOMAIN :: bytes where "VOTE_DOMAIN = cstr ''AGCH:VOTE:v1''"

definition ac_vote_message :: "u64 \<Rightarrow> ac_hash \<Rightarrow> bytes" where
  "ac_vote_message height block_hash = VOTE_DOMAIN @ ac_be64 height @ take AC_HASH_SIZE block_hash"

section \<open>Whole blocks\<close>

text \<open>The transactions are encoded one after the other into what is left of the buffer.\<close>

fun encode_txs :: "nat \<Rightarrow> bytes \<Rightarrow> ac_tx list \<Rightarrow> bytes option" where
  "encode_txs cap buf [] = Some buf"
| "encode_txs cap buf (tx # txs) =
     (case ac_tx_encode (cap - length buf) tx of
        None \<Rightarrow> None
      | Some b \<Rightarrow> encode_txs cap (buf @ b) txs)"

definition wput_signer :: "wcur \<Rightarrow> ac_commit_signer \<Rightarrow> wcur" where
  "wput_signer c s =
     (let c = wput c (cs_signer s) AC_PUBKEY_SIZE;
          c = wput c (cs_sig s) AC_SIG_SIZE
      in wput c (cs_vrf_proof s) AC_VRF_PROOF_SIZE)"

definition ac_block_encode :: "ac_block \<Rightarrow> bytes option" where
  "ac_block_encode b =
     (let upper = HEADER_BYTES_MAX + length (b_txs b) * AC_TX_MAX_BYTES + 4
                  + length (b_signers b) * (AC_PUBKEY_SIZE + AC_SIG_SIZE + AC_VRF_PROOF_SIZE)
      in case ac_block_header_encode upper (b_header b) of
           None \<Rightarrow> None
         | Some hb \<Rightarrow>
           (case encode_txs upper hb (b_txs b) of
              None \<Rightarrow> None
            | Some buf \<Rightarrow>
              let c = \<lparr>w_buf = buf, w_cap = upper, w_err = False\<rparr>;
                  c = wput_u32 c (of_nat (length (b_signers b)));
                  c = foldl wput_signer c (b_signers b)
              in wdone c))"

text \<open>
  The walk over the layout of one transaction that finds its exact length in the unread bytes, and
  the loop that decodes each window; the loop's arguments are the number of transactions left, the
  buffer and the position.
\<close>

definition tx_window :: "bytes \<Rightarrow> nat option" where
  "tx_window p =
     (let remaining = length p in
      if remaining < 70 + 4 then None else
      let body_len = ac_rd32 (drop 70 p) in
      if unat body_len > AC_TX_BODY_MAX then None else
      let pos = 70 + 4 + unat body_len in
      if remaining < pos + 4 then None else
      let memo_len = ac_rd32 (drop pos p) in
      if unat memo_len > AC_MEMO_MAX then None else
      let pos = pos + 4 + unat memo_len + AC_SIG_SIZE in
      if remaining < pos then None else Some pos)"

fun decode_txs :: "nat \<Rightarrow> bytes \<Rightarrow> nat \<Rightarrow> (ac_tx list \<times> nat) option" where
  "decode_txs 0 buf cpos = Some ([], cpos)"
| "decode_txs (Suc n) buf cpos =
     (case tx_window (drop cpos buf) of
        None \<Rightarrow> None
      | Some pos \<Rightarrow>
        (case ac_tx_decode (take pos (drop cpos buf)) of
           None \<Rightarrow> None
         | Some tx \<Rightarrow> map_option (\<lambda>(txs, e). (tx # txs, e)) (decode_txs n buf (cpos + pos))))"

fun rget_signers :: "nat \<Rightarrow> rcur \<Rightarrow> ac_commit_signer list \<times> rcur" where
  "rget_signers 0 c = ([], c)"
| "rget_signers (Suc n) c =
     (case rget c (zeros 32) AC_PUBKEY_SIZE of (signer, c) \<Rightarrow>
      case rget c (zeros 64) AC_SIG_SIZE of (sig, c) \<Rightarrow>
      case rget c (zeros 64) AC_VRF_PROOF_SIZE of (vrf_proof, c) \<Rightarrow>
      case rget_signers n c of (ss, c) \<Rightarrow>
      (\<lparr>cs_signer = signer, cs_sig = sig, cs_vrf_proof = vrf_proof\<rparr> # ss, c))"

definition ac_block_decode :: "bytes \<Rightarrow> (ac_block \<times> nat) option" where
  "ac_block_decode buf =
     (if length buf < HEADER_BYTES_MAX - 100 then None else
      case ac_block_header_decode buf of
        None \<Rightarrow> None
      | Some (header, hn) \<Rightarrow>
        if unat (h_tx_count header) > AC_BLOCK_MAX_TXS then None else
        (case decode_txs (unat (h_tx_count header)) buf hn of
           None \<Rightarrow> None
         | Some (txs, pos) \<Rightarrow>
           if length buf - pos < 4 then None else
           (case rget_u32 \<lparr>r_p = buf, r_cap = length buf, r_pos = pos, r_err = False\<rparr> of
              (nsigners, c) \<Rightarrow>
              if unat nsigners > AC_COMMITTEE_MAX then None else
              (case rget_signers (unat nsigners) c of
                 (signers, c) \<Rightarrow>
                 if r_err c then None
                 else Some (\<lparr>b_header = header, b_txs = txs, b_signers = signers\<rparr>, r_pos c)))))"

section \<open>Well-formed structs\<close>

definition wf_header :: "ac_block_header \<Rightarrow> bool" where
  "wf_header h \<longleftrightarrow> wf_hash (h_parent_hash h) \<and> wf_addr (h_proposer h) \<and>
     length (h_proposer_vrf_proof h) = AC_VRF_PROOF_SIZE \<and> wf_hash (h_state_root h) \<and>
     wf_hash (h_tx_root h)"

definition wf_signer :: "ac_commit_signer \<Rightarrow> bool" where
  "wf_signer s \<longleftrightarrow> wf_addr (cs_signer s) \<and> wf_sig (cs_sig s) \<and>
     length (cs_vrf_proof s) = AC_VRF_PROOF_SIZE"

definition wf_block :: "ac_block \<Rightarrow> bool" where
  "wf_block b \<longleftrightarrow> wf_header (b_header b) \<and> list_all wf_tx (b_txs b) \<and> list_all wf_signer (b_signers b) \<and>
     unat (h_tx_count (b_header b)) = length (b_txs b) \<and> length (b_txs b) \<le> AC_BLOCK_MAX_TXS \<and>
     length (b_signers b) \<le> AC_COMMITTEE_MAX"

section \<open>What a prefix decoder promises\<close>

locale prefix_codec =
  fixes enc :: "'a \<Rightarrow> bytes option"
    and dec :: "bytes \<Rightarrow> ('a \<times> nat) option"
    and good :: "'a \<Rightarrow> bool"
  assumes enc_total: "good x \<Longrightarrow> enc x \<noteq> None"
    and dec_enc: "good x \<Longrightarrow> enc x = Some b \<Longrightarrow> dec (b @ r) = Some (x, length b)"
    and dec_good: "dec b = Some (x, n) \<Longrightarrow> good x"
    and dec_len: "dec b = Some (x, n) \<Longrightarrow> n \<le> length b"
    and enc_dec: "dec b = Some (x, n) \<Longrightarrow> enc x = Some (take n b)"
begin

lemma dec_iff: "dec b = Some (x, n) \<longleftrightarrow> good x \<and> n \<le> length b \<and> enc x = Some (take n b)"
proof
  assume "good x \<and> n \<le> length b \<and> enc x = Some (take n b)"
  then show "dec b = Some (x, n)"
    using dec_enc [of x "take n b" "drop n b"] by (simp add: min_absorb2)
qed (simp add: dec_good dec_len enc_dec)

lemma prefix_free:
  assumes "good x" "good y" "enc x = Some a" "enc y = Some (a @ r)"
  shows "x = y \<and> r = []"
  using dec_enc [OF assms(1,3), of r] dec_enc [OF assms(2,4), of "[]"] by simp

lemma enc_inj: "good x \<Longrightarrow> good y \<Longrightarrow> enc x = enc y \<Longrightarrow> x = y"
  using enc_total [of x] prefix_free [of x y _ "[]"] by auto

end

section \<open>Headers: the byte layout\<close>

definition header_bytes :: "ac_block_header \<Rightarrow> bytes" where
  "header_bytes h = h_version h # ac_be64 (h_height h) @ ac_be64 (h_slot h) @ h_parent_hash h @
     ac_be64 (h_timestamp_ms h) @ h_proposer h @ h_proposer_vrf_proof h @ h_state_root h @
     h_tx_root h @ ac_be64 (h_base_fee h) @ ac_be64 (h_gas_used h) @ ac_be64 (h_gas_limit h) @
     ac_be32 (h_tx_count h)"

lemma wf_header_lengths:
  assumes "wf_header h"
  shows "length (h_parent_hash h) = 32" "length (h_proposer h) = 32"
    "length (h_proposer_vrf_proof h) = 64" "length (h_state_root h) = 32" "length (h_tx_root h) = 32"
  using assms by (simp_all add: wf_header_def wf)

lemma length_header_bytes: "wf_header h \<Longrightarrow> length (header_bytes h) = 245"
  by (simp add: header_bytes_def wf_header_lengths)

lemma ac_block_header_encode_eq:
  assumes "wf_header h"
  shows "ac_block_header_encode cap h = (if 245 \<le> cap then Some (header_bytes h) else None)"
  unfolding ac_block_header_encode_def Let_def
  by (rule trans [OF wgood_done])
    (rule wgood_intros | simp add: header_bytes_def wf_header_lengths assms)+

lemma ac_block_header_decode_encode:
  "wf_header h \<Longrightarrow> ac_block_header_decode (header_bytes h @ r) = Some (h, 245)"
  by (simp add: ac_block_header_decode_def header_bytes_def rcur_init_at wf_header_lengths)

lemma ac_block_header_decodeE:
  assumes "ac_block_header_decode buf = Some (h, n)"
  shows "wf_header h" "n = 245" "take n buf = header_bytes h" "n \<le> length buf"
proof -
  obtain c1 c2 c3 c4 c5 c6 c7 c8 c9 c10 c11 c12 c where
    r: "rget_u8 (rcur_init buf) = (h_version h, c1)" "rget_u64 c1 = (h_height h, c2)"
      "rget_u64 c2 = (h_slot h, c3)" "rget c3 (zeros 32) 32 = (h_parent_hash h, c4)"
      "rget_u64 c4 = (h_timestamp_ms h, c5)" "rget c5 (zeros 32) 32 = (h_proposer h, c6)"
      "rget c6 (zeros 64) 64 = (h_proposer_vrf_proof h, c7)"
      "rget c7 (zeros 32) 32 = (h_state_root h, c8)" "rget c8 (zeros 32) 32 = (h_tx_root h, c9)"
      "rget_u64 c9 = (h_base_fee h, c10)" "rget_u64 c10 = (h_gas_used h, c11)"
      "rget_u64 c11 = (h_gas_limit h, c12)" "rget_u32 c12 = (h_tx_count h, c)"
    and e: "\<not> r_err c" "n = r_pos c"
    using assms by (auto simp: ac_block_header_decode_def split: prod.splits if_splits)
  show w: "wf_header h"
    using r(4,6,7,8,9) [THEN rget_shape(1)] by (simp add: wf_header_def wf)
  have "adv (rcur_init buf) (h_version h # ac_be64 (h_height h) @ ac_be64 (h_slot h) @
      h_parent_hash h @ ac_be64 (h_timestamp_ms h) @ h_proposer h @ h_proposer_vrf_proof h @
      h_state_root h @ h_tx_root h @ ac_be64 (h_base_fee h) @ ac_be64 (h_gas_used h) @
      ac_be64 (h_gas_limit h) @ ac_be32 (h_tx_count h) @ []) c"
    by (intro adv_u8 [OF r(1)] adv_u64 [OF r(2)] adv_u64 [OF r(3)] adv_exact [OF r(4)]
        adv_u64 [OF r(5)] adv_exact [OF r(6)] adv_exact [OF r(7)] adv_exact [OF r(8)]
        adv_exact [OF r(9)] adv_u64 [OF r(10)] adv_u64 [OF r(11)] adv_u64 [OF r(12)]
        adv_u32 [OF r(13)] adv_nil [OF e(1)]) simp_all
  then have a: "adv (rcur_init buf) (header_bytes h) c"
    by (simp add: header_bytes_def)
  show n: "n = 245" and t: "take n buf = header_bytes h"
    using adv_init [OF a] e(2) length_header_bytes [OF w] by auto
  show "n \<le> length buf"
    using arg_cong [OF t, of length] length_header_bytes [OF w] n by simp
qed

interpretation header: prefix_codec "ac_block_header_encode HEADER_BYTES_MAX" ac_block_header_decode wf_header
proof
  fix x b r
  assume g: "wf_header x"
  then show "ac_block_header_encode HEADER_BYTES_MAX x \<noteq> None"
    by (simp add: ac_block_header_encode_eq)
  assume "ac_block_header_encode HEADER_BYTES_MAX x = Some b"
  then show "ac_block_header_decode (b @ r) = Some (x, length b)"
    using g by (auto simp: ac_block_header_encode_eq ac_block_header_decode_encode length_header_bytes)
next
  fix b x n
  assume d: "ac_block_header_decode b = Some (x, n)"
  note e = ac_block_header_decodeE [OF d]
  show "wf_header x" "n \<le> length b" by (rule e)+
  show "ac_block_header_encode HEADER_BYTES_MAX x = Some (take n b)"
    using e(3) by (simp add: ac_block_header_encode_eq [OF e(1)])
qed

section \<open>Blocks: the byte layout\<close>

definition signer_bytes :: "ac_commit_signer \<Rightarrow> bytes" where
  "signer_bytes s = cs_signer s @ cs_sig s @ cs_vrf_proof s"

definition txs_bytes :: "ac_tx list \<Rightarrow> bytes" where
  "txs_bytes txs = concat (map tx_bytes txs)"

definition signers_bytes :: "ac_commit_signer list \<Rightarrow> bytes" where
  "signers_bytes ss = concat (map signer_bytes ss)"

definition block_bytes :: "ac_block \<Rightarrow> bytes" where
  "block_bytes b = header_bytes (b_header b) @ txs_bytes (b_txs b) @
     ac_be32 (of_nat (length (b_signers b))) @ signers_bytes (b_signers b)"

lemma txs_bytes_simps [simp]:
  "txs_bytes [] = []" "txs_bytes (tx # txs) = tx_bytes tx @ txs_bytes txs"
  by (simp_all add: txs_bytes_def)

lemma signers_bytes_simps [simp]:
  "signers_bytes [] = []" "signers_bytes (s # ss) = signer_bytes s @ signers_bytes ss"
  by (simp_all add: signers_bytes_def)

lemma length_txs_bytes: "list_all wf_tx txs \<Longrightarrow> length (txs_bytes txs) \<le> length txs * 1166"
  by (induction txs) (auto dest: tx_bytes_bound(1))

lemma length_signers_bytes: "list_all wf_signer ss \<Longrightarrow> length (signers_bytes ss) = length ss * 160"
  by (induction ss) (auto simp: signer_bytes_def wf_signer_def wf)

lemma encode_txs_eq:
  "list_all wf_tx txs \<Longrightarrow> length buf + length (txs_bytes txs) \<le> cap \<Longrightarrow>
    encode_txs cap buf txs = Some (buf @ txs_bytes txs)"
  by (induction txs arbitrary: buf) (auto simp: ac_tx_encode_eq)

lemma wgood_signer:
  "wgood cap b c \<Longrightarrow> wf_signer s \<Longrightarrow> wgood cap (b @ signer_bytes s) (wput_signer c s)"
  unfolding wput_signer_def Let_def signer_bytes_def append_assoc [symmetric]
  using wgood_wput [of cap b c 32 "cs_signer s"]
    wgood_wput [of cap "b @ cs_signer s" _ 64 "cs_sig s"]
    wgood_wput [of cap "(b @ cs_signer s) @ cs_sig s" _ 64 "cs_vrf_proof s"]
  by (simp add: wf_signer_def wf)

lemma wgood_signers:
  "wgood cap b c \<Longrightarrow> list_all wf_signer ss \<Longrightarrow> wgood cap (b @ signers_bytes ss) (foldl wput_signer c ss)"
  by (induction ss arbitrary: b c) (auto dest: wgood_signer simp flip: append_assoc)

lemma ac_block_encode_eq:
  assumes "wf_block b"
  shows "ac_block_encode b = Some (block_bytes b)"
proof -
  let ?cap = "256 + length (b_txs b) * 2048 + 4 + length (b_signers b) * (32 + 64 + 64)"
  let ?buf = "header_bytes (b_header b) @ txs_bytes (b_txs b)"
  have w: "wf_header (b_header b)" "list_all wf_tx (b_txs b)" "list_all wf_signer (b_signers b)"
    using assms by (simp_all add: wf_block_def)
  have cap: "length (block_bytes b) \<le> ?cap"
    using length_txs_bytes [OF w(2)] length_signers_bytes [OF w(3)] length_header_bytes [OF w(1)]
    by (simp add: block_bytes_def)
  have t: "encode_txs ?cap (header_bytes (b_header b)) (b_txs b) = Some ?buf"
    using cap by (intro encode_txs_eq w) (simp add: block_bytes_def)
  have "wgood ?cap ?buf \<lparr>w_buf = ?buf, w_cap = ?cap, w_err = False\<rparr>"
    using cap by (simp add: wgood_def block_bytes_def)
  then have "wgood ?cap ((?buf @ ac_be32 (of_nat (length (b_signers b)))) @ signers_bytes (b_signers b))
     (foldl wput_signer (wput_u32 \<lparr>w_buf = ?buf, w_cap = ?cap, w_err = False\<rparr>
        (of_nat (length (b_signers b)))) (b_signers b))"
    by (intro wgood_signers w wgood_u32)
  note d = wgood_done [OF this]
  show ?thesis
    using t d cap by (simp add: ac_block_encode_def Let_def ac_block_header_encode_eq [OF w(1)] block_bytes_def)
qed

section \<open>Blocks: the decoder\<close>

lemma tx_window_tx_bytes:
  assumes "wf_tx tx"
  shows "tx_window (tx_bytes tx @ r) = Some (length (tx_bytes tx))"
proof -
  note b = wf_bufD(1,2) [OF wf_tx_bufs(1) [OF assms]] wf_bufD(1,2) [OF wf_tx_bufs(2) [OF assms]]
  have p: "drop 70 (tx_bytes tx @ r) = ac_be32 (tx_body_len tx) @ take (unat (tx_body_len tx)) (tx_body tx) @
      ac_be32 (tx_memo_len tx) @ take (unat (tx_memo_len tx)) (tx_memo tx) @ tx_sig tx @ r"
    by (simp add: tx_bytes_def tx_body_bytes_def length_tx_prefix assms)
  have "drop (70 + 4 + unat (tx_body_len tx)) (tx_bytes tx @ r) =
      drop (4 + unat (tx_body_len tx)) (drop 70 (tx_bytes tx @ r))"
    by (simp only: drop_drop add.assoc add.commute add.left_commute)
  also have "\<dots> = ac_be32 (tx_memo_len tx) @ take (unat (tx_memo_len tx)) (tx_memo tx) @ tx_sig tx @ r"
    unfolding p using b by simp
  finally show ?thesis
    unfolding tx_window_def Let_def p using b length_tx_bytes(1) [OF assms] by simp
qed

lemma tx_window_le: "tx_window p = Some n \<Longrightarrow> n \<le> length p"
  by (auto simp: tx_window_def Let_def split: if_splits)

lemma decode_txs_encode:
  "list_all wf_tx txs \<Longrightarrow> decode_txs (length txs) (d @ txs_bytes txs @ r) (length d)
     = Some (txs, length d + length (txs_bytes txs))"
proof (induction txs arbitrary: d)
  case (Cons tx txs)
  then show ?case
    using Cons.IH [of "d @ tx_bytes tx"]
    by (simp add: tx_window_tx_bytes ac_tx_decode_encode)
qed simp

lemma decode_txsE:
  assumes "decode_txs n buf pos = Some (txs, e)" "pos \<le> length buf"
  shows "length txs = n \<and> list_all wf_tx txs \<and> drop pos buf = txs_bytes txs @ drop e buf \<and>
    e = pos + length (txs_bytes txs) \<and> e \<le> length buf"
  using assms
proof (induction n arbitrary: pos txs)
  case (Suc n)
  then obtain k tx txs' where k: "tx_window (drop pos buf) = Some k"
    and t: "ac_tx_decode (take k (drop pos buf)) = Some tx"
    and d: "decode_txs n buf (pos + k) = Some (txs', e)" and txs: "txs = tx # txs'"
    by (auto split: option.splits)
  have kl: "pos + k \<le> length buf"
    using tx_window_le [OF k] Suc.prems(2) by simp
  note tx = ac_tx_decodeE [OF t]
  have "length (tx_bytes tx) = k"
    using arg_cong [OF tx(2), of length] kl by simp
  moreover have "drop pos buf = tx_bytes tx @ drop (pos + k) buf"
    using append_take_drop_id [of k "drop pos buf"] tx(2) by (simp add: add.commute)
  ultimately show ?case
    using Suc.IH [OF d kl] tx(1) txs by simp
qed simp

lemma rget_signers_at:
  "list_all wf_signer ss \<Longrightarrow>
    rget_signers (length ss) (rcur_at d (signers_bytes ss @ r)) = (ss, rcur_at (d @ signers_bytes ss) r)"
proof (induction ss arbitrary: d)
  case (Cons s ss)
  then show ?case
    using Cons.IH [of "d @ cs_signer s @ cs_sig s @ cs_vrf_proof s"]
    by (simp add: signer_bytes_def wf_signer_def wf)
qed simp

lemma rget_signers_SucE:
  assumes "rget_signers (Suc n) c = (ss, c')"
  obtains s ss' c1 c2 c3 where "rget c (zeros 32) 32 = (cs_signer s, c1)"
    "rget c1 (zeros 64) 64 = (cs_sig s, c2)" "rget c2 (zeros 64) 64 = (cs_vrf_proof s, c3)"
    "rget_signers n c3 = (ss', c')" "ss = s # ss'"
proof -
  obtain s ss' where ss: "ss = s # ss'"
    using assms by (auto split: prod.splits)
  obtain c1 c2 c3 where "rget c (zeros 32) 32 = (cs_signer s, c1)"
    "rget c1 (zeros 64) 64 = (cs_sig s, c2)" "rget c2 (zeros 64) 64 = (cs_vrf_proof s, c3)"
    "rget_signers n c3 = (ss', c')"
    using assms ss by (auto split: prod.splits)
  then show ?thesis using that ss by blast
qed

lemma adv_signers:
  assumes "rget_signers n c = (ss, c')" "adv c' y c''"
  shows "adv c (signers_bytes ss @ y) c''"
  using assms(1)
proof (induction n arbitrary: c ss)
  case 0
  then show ?case using assms(2) by simp
next
  case (Suc n)
  obtain s ss' c1 c2 c3 where r: "rget c (zeros 32) 32 = (cs_signer s, c1)"
      "rget c1 (zeros 64) 64 = (cs_sig s, c2)" "rget c2 (zeros 64) 64 = (cs_vrf_proof s, c3)"
      "rget_signers n c3 = (ss', c')" "ss = s # ss'"
    using Suc.prems by (rule rget_signers_SucE)
  have "adv c (cs_signer s @ cs_sig s @ cs_vrf_proof s @ signers_bytes ss' @ y) c''"
    by (intro adv_exact [OF r(1)] adv_exact [OF r(2)] adv_exact [OF r(3)] Suc.IH [OF r(4)]) simp_all
  then show ?case by (simp add: r(5) signer_bytes_def)
qed

lemma rget_signers_wf: "rget_signers n c = (ss, c') \<Longrightarrow> length ss = n \<and> list_all wf_signer ss"
proof (induction n arbitrary: c ss)
  case (Suc n)
  obtain s ss' c1 c2 c3 where r: "rget c (zeros 32) 32 = (cs_signer s, c1)"
      "rget c1 (zeros 64) 64 = (cs_sig s, c2)" "rget c2 (zeros 64) 64 = (cs_vrf_proof s, c3)"
      "rget_signers n c3 = (ss', c')" "ss = s # ss'"
    using Suc.prems by (rule rget_signers_SucE)
  show ?case
    using Suc.IH [OF r(4)] r(1-3) [THEN rget_shape(1)] by (simp add: r(5) wf_signer_def wf)
qed simp

lemma ac_block_decode_encode:
  assumes "wf_block b"
  shows "ac_block_decode (block_bytes b @ r) = Some (b, length (block_bytes b))"
proof -
  let ?h = "header_bytes (b_header b)" and ?n = "of_nat (length (b_signers b)) :: u32"
  have w: "wf_header (b_header b)" "list_all wf_tx (b_txs b)" "list_all wf_signer (b_signers b)"
    and n: "unat (h_tx_count (b_header b)) = length (b_txs b)" "length (b_txs b) \<le> 4096"
    and m: "unat ?n = length (b_signers b)" "length (b_signers b) \<le> 256"
    using assms by (simp_all add: wf_block_def unat_of_nat)
  have h: "ac_block_header_decode (block_bytes b @ r) = Some (b_header b, length ?h)"
    using ac_block_header_decode_encode [OF w(1)] by (simp add: block_bytes_def length_header_bytes [OF w(1)])
  have t: "decode_txs (length (b_txs b)) (block_bytes b @ r) (length ?h) =
      Some (b_txs b, length (?h @ txs_bytes (b_txs b)))"
    using decode_txs_encode [OF w(2), of ?h] by (simp add: block_bytes_def)
  have c: "\<lparr>r_p = block_bytes b @ r, r_cap = length (block_bytes b @ r),
      r_pos = length (?h @ txs_bytes (b_txs b)), r_err = False\<rparr>
    = rcur_at (?h @ txs_bytes (b_txs b)) (ac_be32 ?n @ signers_bytes (b_signers b) @ r)"
    by (simp add: rcur_at_def block_bytes_def)
  have "\<not> length (block_bytes b @ r) < 156" "\<not> length (block_bytes b @ r) - length (?h @ txs_bytes (b_txs b)) < 4"
    by (simp_all add: block_bytes_def length_header_bytes [OF w(1)])
  then show ?thesis
    unfolding ac_block_decode_def using n m rget_signers_at [OF w(3), of _ r]
    by (simp only: h t c option.case prod.case rget_u32_at) (simp add: block_bytes_def)
qed

lemma ac_block_decodeE:
  assumes "ac_block_decode buf = Some (b, n)"
  shows "wf_block b" "take n buf = block_bytes b" "n \<le> length buf"
proof -
  obtain hn pos ns c c' where h: "ac_block_header_decode buf = Some (b_header b, hn)"
    and tc: "unat (h_tx_count (b_header b)) \<le> 4096"
    and t: "decode_txs (unat (h_tx_count (b_header b))) buf hn = Some (b_txs b, pos)"
    and s: "rget_u32 \<lparr>r_p = buf, r_cap = length buf, r_pos = pos, r_err = False\<rparr> = (ns, c)"
    and sc: "unat ns \<le> 256" and ss: "rget_signers (unat ns) c = (b_signers b, c')"
    and e: "\<not> r_err c'" "n = r_pos c'"
    using assms by (auto simp: ac_block_decode_def not_less split: if_splits option.splits prod.splits)
  note hd = ac_block_header_decodeE [OF h] and tx = decode_txsE [OF t]
    and sw = rget_signers_wf [OF ss]
  show "wf_block b"
    using hd(1) tx [OF hd(4)] sw tc sc by (simp add: wf_block_def)
  have ns: "ns = of_nat (length (b_signers b))" using sw by simp
  have "adv \<lparr>r_p = buf, r_cap = length buf, r_pos = pos, r_err = False\<rparr>
      (ac_be32 ns @ signers_bytes (b_signers b) @ []) c'"
    by (intro adv_u32 [OF s] adv_signers [OF ss] adv_nil [OF e(1)])
  then have a: "n = pos + length (ac_be32 ns @ signers_bytes (b_signers b))"
    "drop pos buf = (ac_be32 ns @ signers_bytes (b_signers b)) @ drop n buf"
    using e(2) by (auto simp: adv_def)
  have "buf = header_bytes (b_header b) @ drop hn buf"
    by (metis append_take_drop_id hd(3))
  also have "drop hn buf = txs_bytes (b_txs b) @ drop pos buf"
    using tx [OF hd(4)] by blast
  finally have buf: "buf = block_bytes b @ drop n buf"
    using a(2) ns by (simp add: block_bytes_def)
  have "n = length (block_bytes b)"
    using a(1) tx [OF hd(4)] hd(2) length_header_bytes [OF hd(1)] by (simp add: block_bytes_def)
  then show "take n buf = block_bytes b" "n \<le> length buf"
    using buf by (metis append_eq_conv_conj, metis append_eq_conv_conj length_take nat_le_linear take_all min.cobounded2)
qed

interpretation block: prefix_codec ac_block_encode ac_block_decode wf_block
proof
  fix x b r
  assume g: "wf_block x"
  then show "ac_block_encode x \<noteq> None"
    by (simp add: ac_block_encode_eq)
  assume "ac_block_encode x = Some b"
  then show "ac_block_decode (b @ r) = Some (x, length b)"
    using g by (auto simp: ac_block_encode_eq ac_block_decode_encode)
next
  fix b x n
  assume d: "ac_block_decode b = Some (x, n)"
  note e = ac_block_decodeE [OF d]
  show "wf_block x" "n \<le> length b" by (rule e)+
  show "ac_block_encode x = Some (take n b)"
    using e(2) by (simp add: ac_block_encode_eq [OF e(1)])
qed

section \<open>Hashes and signed messages\<close>

lemma ac_block_hash_eq:
  "wf_header h \<Longrightarrow> ac_block_hash S h = crypto_generichash S (BLOCK_DOMAIN @ header_bytes h)"
  by (simp add: ac_block_hash_def ac_block_header_encode_eq ac_hash_multi_concat ac_hash_def)

lemma header_bytes_inj: "wf_header h \<Longrightarrow> wf_header h' \<Longrightarrow> header_bytes h = header_bytes h' \<longleftrightarrow> h = h'"
  using header.enc_inj [of h h'] by (auto simp: ac_block_header_encode_eq)

lemma length_ac_block_hash: "sodium_ok S \<Longrightarrow> length (ac_block_hash S h) = 32"
  by (auto simp: ac_block_hash_def length_ac_hash_multi split: option.splits)

lemma ac_tx_hash_eq: "wf_tx tx \<Longrightarrow> ac_tx_hash S tx = ac_hash S (TX_DOMAIN @ tx_body_bytes tx)"
  by (simp add: ac_tx_hash_def ac_tx_signable_bytes_eq)

lemma length_ac_tx_hash: "sodium_ok S \<Longrightarrow> length (ac_tx_hash S tx) = 32"
  by (auto simp: ac_tx_hash_def length_ac_hash split: option.splits)

lemma concat_32_inj:
  assumes "\<forall>x\<in>set xs. length x = 32" "\<forall>y\<in>set ys. length y = 32" "concat xs = concat ys"
  shows "xs = ys"
  using assms
proof (induction xs arbitrary: ys)
  case Nil
  then show ?case by (cases ys) auto
next
  case (Cons x xs)
  have "ys \<noteq> []" using Cons.prems(1,3) by auto
  then obtain y ys' where ys: "ys = y # ys'" by (cases ys) auto
  have "x = y \<and> concat xs = concat ys'"
    using Cons.prems unfolding ys by (intro append_eq_append_conv [THEN iffD1]) simp_all
  then show ?case using Cons.IH [of ys'] Cons.prems(1,2) ys by simp
qed

section \<open>Properties of the block codec\<close>

text \<open>
  Claim C26. The block decoder is exact: it returns block \<open>b\<close> and a count \<open>n\<close> if and only if \<open>b\<close> is
  well formed and the first \<open>n\<close> bytes are what \<^verbatim>\<open>ac_block_encode\<close> writes for \<open>b\<close>. So a decoded block
  re-encodes to the bytes it came from, whatever follows them in the buffer.
\<close>

theorem ac_block_decode_iff:
  "ac_block_decode buf = Some (b, n) \<longleftrightarrow>
     wf_block b \<and> n \<le> length buf \<and> ac_block_encode b = Some (take n buf)"
  by (rule block.dec_iff)

text \<open>
  The block hash commits to the whole header: two different well-formed headers hash
  different byte strings, so they have different block hashes unless those two strings collide.
\<close>

theorem ac_block_hash_binding:
  assumes "wf_header h" "wf_header h'"
    and "inj_on (crypto_generichash S) {BLOCK_DOMAIN @ header_bytes h, BLOCK_DOMAIN @ header_bytes h'}"
  shows "ac_block_hash S h = ac_block_hash S h' \<longleftrightarrow> h = h'"
  using assms(3) header_bytes_inj [OF assms(1,2)]
  by (auto simp: ac_block_hash_eq [OF assms(1)] ac_block_hash_eq [OF assms(2)] inj_on_def)

text \<open>A header for concrete runs.\<close>

definition demo_header :: "u64 \<Rightarrow> u64 \<Rightarrow> ac_addr \<Rightarrow> u32 \<Rightarrow> ac_block_header" where
  "demo_header height slot proposer tx_count =
     \<lparr>h_version = 1, h_height = height, h_slot = slot, h_parent_hash = zeros 32, h_timestamp_ms = 0,
      h_proposer = proposer, h_proposer_vrf_proof = zeros 64, h_state_root = zeros 32,
      h_tx_root = zeros 32, h_base_fee = 1, h_gas_used = 0, h_gas_limit = 30000000,
      h_tx_count = tx_count\<rparr>"

lemma wf_demo_header: "length p = 32 \<Longrightarrow> wf_header (demo_header n s p t)"
  by (simp add: demo_header_def wf_header_def wf)

theorem ac_block_hash_binding_witness:
  "ac_block_hash demo_sodium (demo_header 1 1 (zeros 32) 0) \<noteq>
   ac_block_hash demo_sodium (demo_header 1 1 (zeros 32) 1)"
proof -
  let ?h = "demo_header 1 1 (zeros 32) 0" and ?h' = "demo_header 1 1 (zeros 32) 1"
  have "crypto_generichash demo_sodium (BLOCK_DOMAIN @ header_bytes ?h) !0 \<noteq>
      crypto_generichash demo_sodium (BLOCK_DOMAIN @ header_bytes ?h') ! 0"
    by (simp add: demo_sodium_def last32_def pad32_def header_bytes_def demo_header_def ac_be32_def)
  then have "inj_on (crypto_generichash demo_sodium)
      {BLOCK_DOMAIN @ header_bytes ?h, BLOCK_DOMAIN @ header_bytes ?h'}"
    by (auto simp: inj_on_def)
  then have "ac_block_hash demo_sodium ?h = ac_block_hash demo_sodium ?h' \<longleftrightarrow> ?h = ?h'"
    by (intro ac_block_hash_binding wf_demo_header) simp_all
  moreover have "?h \<noteq> ?h'" by (simp add: demo_header_def)
  ultimately show ?thesis by blast
qed

text \<open>
  The transaction root commits to the list of transaction hashes: when the hash function
  does not collide on the two concatenations, two non-empty lists with the same root have the same
  hashes in the same order.
\<close>

theorem ac_block_tx_root_binding:
  assumes "sodium_ok S" "txs \<noteq> []" "txs' \<noteq> []"
    and "inj_on (crypto_generichash S)
      {concat (map (ac_tx_hash S) txs), concat (map (ac_tx_hash S) txs')}"
    and "ac_block_tx_root S txs = ac_block_tx_root S txs'"
  shows "map (ac_tx_hash S) txs = map (ac_tx_hash S) txs'"
proof -
  have "crypto_generichash S (concat (map (ac_tx_hash S) txs)) =
      crypto_generichash S (concat (map (ac_tx_hash S) txs'))"
    using assms(2,3,5) by (simp add: ac_block_tx_root_def ac_hash_def)
  then have "concat (map (ac_tx_hash S) txs) = concat (map (ac_tx_hash S) txs')"
    by (rule inj_onD [OF assms(4)]) simp_all
  then show ?thesis
    by (intro concat_32_inj) (auto simp: length_ac_tx_hash [OF assms(1)])
qed

theorem ac_block_tx_root_binding_witness:
  "let t = demo_tx 1 (zeros 32) 0 21 5 (zeros 40); t' = t\<lparr>tx_sig := 1 # zeros 63\<rparr>
   in t \<noteq> t' \<and> map (ac_tx_hash demo_sodium) [t] = map (ac_tx_hash demo_sodium) [t']"
proof -
  let ?t = "demo_tx 1 (zeros 32) 0 21 5 (zeros 40)" and ?t' = "demo_tx 1 (zeros 32) 0 21 5 (zeros 40)\<lparr>tx_sig := 1 # zeros 63\<rparr>"
  have "ac_tx_signable_bytes AC_TX_MAX_BYTES ?t = ac_tx_signable_bytes AC_TX_MAX_BYTES ?t'"
    by (simp add: ac_tx_signable_bytes_def)
  then have h: "ac_tx_hash demo_sodium ?t = ac_tx_hash demo_sodium ?t'"
    by (simp add: ac_tx_hash_def)
  have "hd (tx_sig ?t) \<noteq> hd (tx_sig ?t')"
    by (simp add: demo_tx_def zeros_def)
  then have "?t \<noteq> ?t'" by metis
  moreover have "map (ac_tx_hash demo_sodium) [?t] = map (ac_tx_hash demo_sodium) [?t']"
    by (rule ac_block_tx_root_binding [OF sodium_ok_demo]) (simp_all add: h ac_block_tx_root_def)
  ultimately show ?thesis unfolding Let_def by (rule conjI)
qed

text \<open>
  The messages of the protocol's signatures are separated: a vote message determines its
  height and block hash, and it is neither an input of the VRF nor a 32-byte transaction hash, so a
  signature given for one purpose is never one for another.
\<close>

theorem ac_vote_message_separated:
  assumes "wf_hash x" "wf_hash y"
  shows "(ac_vote_message h x = ac_vote_message k y \<longleftrightarrow> h = k \<and> x = y) \<and>
    ac_vote_message h x \<noteq> VRF_DOMAIN @ alpha \<and> length (ac_vote_message h x) \<noteq> 32"
proof -
  have "take 7 (ac_vote_message h x) \<noteq> take 7 (VRF_DOMAIN @ alpha)"
    by (simp add: ac_vote_message_def VOTE_DOMAIN_def VRF_DOMAIN_def cstr_def)
  then have "ac_vote_message h x \<noteq> VRF_DOMAIN @ alpha" by metis
  moreover have "ac_vote_message h x = ac_vote_message k y \<longleftrightarrow> h = k \<and> x = y"
    using assms be64_inj [of h k] by (auto simp: ac_vote_message_def wf)
  moreover have "length (ac_vote_message h x) \<noteq> 32"
    using assms(1) by (simp add: ac_vote_message_def VOTE_DOMAIN_def wf)
  ultimately show ?thesis by blast
qed

theorem ac_vote_message_separated_witness:
  "ac_vote_message 5 (zeros 32) \<noteq> ac_vote_message 6 (zeros 32) \<and>
   ac_vote_message 5 (zeros 32) \<noteq> VRF_DOMAIN @ [1]"
  using ac_vote_message_separated [of "zeros 32" "zeros 32" 5 6 "[1]"] by (simp add: wf)

end
