(* ===== verification/State.thy ===== *)
theory State
  imports Block
begin

text \<open>
  \<^verbatim>\<open>state.c\<close> up to the transition function: the sorted account array with its binary search, the
  sorted name registry, the state root and the snapshot format. The struct \<^verbatim>\<open>ac_state_s\<close> is the
  record \<open>ac_state\<close>; the two dynamic arrays are lists (growing them succeeds), and indices are
  integers as in the source, so that a failed search returns \<^verbatim>\<open>-(insert_pos + 1)\<close>. The locale
  \<open>ordered_array\<close> proves the search and the array updates correct once for both arrays; the locale
  \<open>account_store\<close> is the contract the transition function and the chain rely on.
\<close>

section \<open>Structs\<close>

record ac_account =
  acc_addr :: ac_addr
  acc_balance :: u64
  acc_nonce :: u64
  acc_stake :: u64
  acc_unbond_at :: u64

record state_name =
  sn_len :: u8
  sn_name :: bytes
  sn_addr :: ac_addr

record ac_state =
  st_chain_id :: u64
  st_accounts :: "ac_account list"
  st_names :: "state_name list"

definition ac_state_new :: "u64 \<Rightarrow> ac_state" where
  "ac_state_new chain_id = \<lparr>st_chain_id = chain_id, st_accounts = [], st_names = []\<rparr>"

definition ac_state_chain_id :: "ac_state \<Rightarrow> u64" where
  "ac_state_chain_id s = st_chain_id s"

definition name_cmp :: "bytes \<Rightarrow> nat \<Rightarrow> bytes \<Rightarrow> nat \<Rightarrow> int" where
  "name_cmp a alen b blen =
     (let n = (if alen < blen then alen else blen);
          c = memcmp (take n a) (take n b)
      in if c \<noteq> 0 then c else if alen < blen then -1 else if alen > blen then 1 else 0)"

section \<open>Accounts\<close>

text \<open>
  The search loop of \<^verbatim>\<open>acc_lookup\<close> and \<^verbatim>\<open>name_lookup_index\<close>: \<open>c\<close> compares an element with the key
  searched for.
\<close>

function bsearch :: "('e \<Rightarrow> int) \<Rightarrow> 'e list \<Rightarrow> int \<Rightarrow> int \<Rightarrow> int" where
  "bsearch c xs lo hi =
     (if lo \<le> hi then
        let mid = (lo + hi) div 2; r = c (xs ! nat mid)
        in if r = 0 then mid
           else if r < 0 then bsearch c xs (mid + 1) hi
           else bsearch c xs lo (mid - 1)
      else - (lo + 1))"
  by pat_completeness auto
termination
  by (relation "measure (\<lambda>(c, xs, lo, hi). nat (hi - lo + 1))") (auto simp: Let_def)

declare bsearch.simps [simp del]

definition acc_lookup :: "ac_state \<Rightarrow> ac_addr \<Rightarrow> int" where
  "acc_lookup s addr =
     bsearch (\<lambda>a. ac_addr_cmp (acc_addr a) addr) (st_accounts s) 0 (int (length (st_accounts s)) - 1)"

definition zero_account :: "ac_addr \<Rightarrow> ac_account" where
  "zero_account addr =
     \<lparr>acc_addr = addr, acc_balance = 0, acc_nonce = 0, acc_stake = 0, acc_unbond_at = 0\<rparr>"

definition ac_state_get :: "ac_state \<Rightarrow> ac_addr \<Rightarrow> bool \<times> ac_account" where
  "ac_state_get s addr =
     (let i = acc_lookup s addr
      in if i < 0 then (False, zero_account addr) else (True, st_accounts s ! nat i))"

definition account_is_empty :: "ac_account \<Rightarrow> bool" where
  "account_is_empty a \<longleftrightarrow>
     acc_balance a = 0 \<and> acc_nonce a = 0 \<and> acc_stake a = 0 \<and> acc_unbond_at a = 0"

definition ac_state_set :: "ac_state \<Rightarrow> ac_account \<Rightarrow> ac_state" where
  "ac_state_set s acc =
     (let i = acc_lookup s (acc_addr acc)
      in if i \<ge> 0 then
           (if account_is_empty acc then s\<lparr>st_accounts := remove_at (nat i) (st_accounts s)\<rparr>
            else s\<lparr>st_accounts := (st_accounts s)[nat i := acc]\<rparr>)
         else if account_is_empty acc then s
         else s\<lparr>st_accounts := insert_at (nat (- i - 1)) acc (st_accounts s)\<rparr>)"

definition ac_state_count :: "ac_state \<Rightarrow> nat" where
  "ac_state_count s = length (st_accounts s)"

definition ac_state_at :: "ac_state \<Rightarrow> nat \<Rightarrow> ac_account option" where
  "ac_state_at s i = (if i \<ge> length (st_accounts s) then None else Some (st_accounts s ! i))"

definition ac_state_credit :: "ac_state \<Rightarrow> ac_addr \<Rightarrow> u64 \<Rightarrow> ac_state" where
  "ac_state_credit s addr amount =
     (let a = snd (ac_state_get s addr)
      in ac_state_set s (a\<lparr>acc_balance := acc_balance a + amount\<rparr>))"

definition ac_state_debit :: "ac_state \<Rightarrow> ac_addr \<Rightarrow> u64 \<Rightarrow> ac_state" where
  "ac_state_debit s addr amount =
     (let a = snd (ac_state_get s addr)
      in ac_state_set s (a\<lparr>acc_balance := (if amount > acc_balance a then 0 else acc_balance a - amount)\<rparr>))"

section \<open>Names\<close>

definition name_lookup_index :: "ac_state \<Rightarrow> bytes \<Rightarrow> nat \<Rightarrow> int" where
  "name_lookup_index s name nlen =
     bsearch (\<lambda>n. name_cmp (sn_name n) (unat (sn_len n)) name nlen) (st_names s) 0
       (int (length (st_names s)) - 1)"

definition ac_state_name_lookup :: "ac_state \<Rightarrow> bytes \<Rightarrow> nat \<Rightarrow> ac_addr option" where
  "ac_state_name_lookup s name nlen =
     (let i = name_lookup_index s name nlen
      in if i < 0 then None else Some (sn_addr (st_names s ! nat i)))"

definition ac_state_name_register :: "ac_state \<Rightarrow> bytes \<Rightarrow> nat \<Rightarrow> ac_addr \<Rightarrow> ac_state option" where
  "ac_state_name_register s name nlen addr =
     (if \<not> ac_name_valid name nlen then None
      else let i = name_lookup_index s name nlen
        in if i \<ge> 0 then None
           else let e = \<lparr>sn_len = of_nat nlen,
                         sn_name = memcpy_into (zeros AC_NAME_MAX_LEN) (take nlen name),
                         sn_addr = addr\<rparr>
             in Some (s\<lparr>st_names := insert_at (nat (- i - 1)) e (st_names s)\<rparr>))"

section \<open>State root\<close>

definition STATE_DOMAIN :: bytes where "STATE_DOMAIN = cstr ''AGCH:STATE:v1''"

definition account_chunks :: "ac_account \<Rightarrow> bytes list" where
  "account_chunks a = [acc_addr a, ac_be64 (acc_balance a), ac_be64 (acc_nonce a),
     ac_be64 (acc_stake a), ac_be64 (acc_unbond_at a)]"

definition name_chunks :: "state_name \<Rightarrow> bytes list" where
  "name_chunks n = [[sn_len n], take (unat (sn_len n)) (sn_name n), sn_addr n]"

definition ac_state_root :: "sodium \<Rightarrow> ac_state \<Rightarrow> ac_hash" where
  "ac_state_root S s = ac_hash_multi S
     (STATE_DOMAIN # concat (map account_chunks (st_accounts s)) @ [255] #
      concat (map name_chunks (st_names s)))"

section \<open>Snapshots\<close>

definition STATE_MAGIC :: bytes where "STATE_MAGIC = cstr ''AGCH:STATESNAP:v1''"
definition STATE_VERSION :: u8 where "STATE_VERSION = 1"

definition ac_state_serialize :: "ac_state \<Rightarrow> bytes" where
  "ac_state_serialize s =
     STATE_MAGIC @ STATE_VERSION # ac_be64 (st_chain_id s) @
     ac_be32 (of_nat (length (st_accounts s))) @ ac_be32 (of_nat (length (st_names s))) @
     concat (map (\<lambda>a. concat (account_chunks a)) (st_accounts s)) @
     concat (map (\<lambda>n. concat (name_chunks n)) (st_names s))"

definition rd_account :: "bytes \<Rightarrow> nat \<Rightarrow> ac_account" where
  "rd_account buf pos =
     \<lparr>acc_addr = take AC_PUBKEY_SIZE (drop pos buf), acc_balance = ac_rd64 (drop (pos + 32) buf),
      acc_nonce = ac_rd64 (drop (pos + 40) buf), acc_stake = ac_rd64 (drop (pos + 48) buf),
      acc_unbond_at = ac_rd64 (drop (pos + 56) buf)\<rparr>"

text \<open>The account loop: entries left, buffer, position, entries read so far.\<close>

fun rd_accounts :: "nat \<Rightarrow> bytes \<Rightarrow> nat \<Rightarrow> ac_account list \<Rightarrow> (ac_account list \<times> nat) option" where
  "rd_accounts 0 buf pos acc = Some (acc, pos)"
| "rd_accounts (Suc n) buf pos acc =
     (if pos + AC_PUBKEY_SIZE + 32 > length buf then None
      else let a = rd_account buf pos
        in if acc \<noteq> [] \<and> ac_addr_cmp (acc_addr (last acc)) (acc_addr a) \<ge> 0 then None
           else rd_accounts n buf (pos + 64) (acc @ [a]))"

definition rd_name :: "bytes \<Rightarrow> nat \<Rightarrow> state_name" where
  "rd_name buf pos =
     (let nl = buf ! pos; pos = pos + 1
      in \<lparr>sn_len = nl,
          sn_name = memcpy_into (zeros AC_NAME_MAX_LEN) (take (unat nl) (drop pos buf)),
          sn_addr = take AC_PUBKEY_SIZE (drop (pos + unat nl) buf)\<rparr>)"

text \<open>The checks of one name entry: its length byte, the room left, its characters.\<close>

definition rd_name_ok :: "bytes \<Rightarrow> nat \<Rightarrow> bool" where
  "rd_name_ok buf pos \<longleftrightarrow>
     \<not> (pos + 1 > length buf) \<and>
     (let nl = buf ! pos; pos = pos + 1
      in \<not> (unat nl < AC_NAME_MIN_LEN \<or> unat nl > AC_NAME_MAX_LEN) \<and>
         \<not> (pos + unat nl + AC_PUBKEY_SIZE > length buf)) \<and>
     ac_name_valid (sn_name (rd_name buf pos)) (unat (buf ! pos))"

fun rd_names :: "nat \<Rightarrow> bytes \<Rightarrow> nat \<Rightarrow> state_name list \<Rightarrow> (state_name list \<times> nat) option" where
  "rd_names 0 buf pos acc = Some (acc, pos)"
| "rd_names (Suc n) buf pos acc =
     (if \<not> rd_name_ok buf pos then None
      else if acc \<noteq> [] \<and>
        name_cmp (sn_name (last acc)) (unat (sn_len (last acc)))
          (sn_name (rd_name buf pos)) (unat (sn_len (rd_name buf pos))) \<ge> 0 then None
      else rd_names n buf (pos + 1 + unat (buf ! pos) + AC_PUBKEY_SIZE) (acc @ [rd_name buf pos]))"

text \<open>
  The result is the return code (\<open>True\<close> for 0) and the state after the call: the old contents are
  released before the records are read, so a failure further on leaves the state emptied.
\<close>

definition ac_state_deserialize :: "ac_state \<Rightarrow> bytes \<Rightarrow> bool \<times> ac_state" where
  "ac_state_deserialize s buf =
     (if length buf < length STATE_MAGIC + 17 then (False, s)
      else if memcmp (take (length STATE_MAGIC) buf) STATE_MAGIC \<noteq> 0 then (False, s)
      else let pos = length STATE_MAGIC in
        if buf ! pos \<noteq> STATE_VERSION then (False, s)
        else if ac_rd64 (drop (pos + 1) buf) \<noteq> st_chain_id s then (False, s)
        else let nacc = ac_rd32 (drop (pos + 9) buf); nname = ac_rd32 (drop (pos + 13) buf);
                 s = s\<lparr>st_accounts := [], st_names := []\<rparr>
          in case rd_accounts (unat nacc) buf (pos + 17) [] of
               None \<Rightarrow> (False, s)
             | Some (accounts, pos) \<Rightarrow>
               let s = s\<lparr>st_accounts := accounts\<rparr>
               in case rd_names (unat nname) buf pos [] of
                    None \<Rightarrow> (False, s)
                  | Some (names, pos) \<Rightarrow> (pos = length buf, s\<lparr>st_names := names\<rparr>))"

section \<open>The invariant\<close>

definition keyed :: "('e \<Rightarrow> bytes) \<Rightarrow> 'e list \<Rightarrow> bool" where
  "keyed key xs \<longleftrightarrow> sorted_wrt (<) (map key xs)"

definition amap :: "('e \<Rightarrow> bytes) \<Rightarrow> 'e list \<Rightarrow> bytes \<rightharpoonup> 'e" where
  "amap key xs = map_of (map (\<lambda>e. (key e, e)) xs)"

definition sn_key :: "state_name \<Rightarrow> bytes" where
  "sn_key n = take (unat (sn_len n)) (sn_name n)"

definition wf_account :: "ac_account \<Rightarrow> bool" where [wf]:
  "wf_account a \<longleftrightarrow> wf_addr (acc_addr a)"

definition wf_state_name :: "state_name \<Rightarrow> bool" where
  "wf_state_name n \<longleftrightarrow> length (sn_name n) = 32 \<and> ac_name_valid (sn_name n) (unat (sn_len n)) \<and>
     drop (unat (sn_len n)) (sn_name n) = zeros (32 - unat (sn_len n)) \<and> wf_addr (sn_addr n)"

definition wf_state :: "ac_state \<Rightarrow> bool" where
  "wf_state s \<longleftrightarrow> keyed acc_addr (st_accounts s) \<and> list_all wf_account (st_accounts s) \<and>
     keyed sn_key (st_names s) \<and> list_all wf_state_name (st_names s)"

definition no_empty :: "ac_state \<Rightarrow> bool" where
  "no_empty s \<longleftrightarrow> list_all (\<lambda>a. \<not> account_is_empty a) (st_accounts s)"

section \<open>Ordered arrays\<close>

lemma keyed_split:
  "keyed key (xs @ ys) \<longleftrightarrow> keyed key xs \<and> keyed key ys \<and> (\<forall>x\<in>set xs. \<forall>y\<in>set ys. key x < key y)"
  by (simp add: keyed_def sorted_wrt_append)

lemma keyed_simps [simp]:
  "keyed key []" "keyed key (x # xs) \<longleftrightarrow> (\<forall>y\<in>set xs. key x < key y) \<and> keyed key xs"
  by (simp_all add: keyed_def)

lemma keyed_nth_mono: "keyed key xs \<Longrightarrow> i < j \<Longrightarrow> j < length xs \<Longrightarrow> key (xs ! i) < key (xs ! j)"
  by (simp add: keyed_def sorted_wrt_iff_nth_less)

lemma amap_append: "amap key (xs @ ys) = amap key ys ++ amap key xs"
  by (simp add: amap_def)

lemma amap_Cons [simp]: "amap key (x # xs) = (amap key xs)(key x \<mapsto> x)"
  by (simp add: amap_def)

lemma amap_Nil [simp]: "amap key [] = Map.empty"
  by (simp add: amap_def)

lemma amap_None_iff: "amap key xs k = None \<longleftrightarrow> (\<forall>x\<in>set xs. key x \<noteq> k)"
  by (induction xs) auto

lemma amap_SomeD: "amap key xs k = Some x \<Longrightarrow> x \<in> set xs \<and> key x = k"
  by (induction xs) (auto split: if_splits)

lemma amap_mem: "keyed key xs \<Longrightarrow> x \<in> set xs \<Longrightarrow> amap key xs (key x) = Some x"
  by (induction xs) auto

lemma keyed_update:
  assumes "keyed key xs" "i < length xs" "key y = key (xs ! i)"
  shows "keyed key (xs[i := y])" "amap key (xs[i := y]) = (amap key xs)(key y \<mapsto> y)"
proof -
  let ?a = "take i xs" and ?b = "drop (Suc i) xs"
  have k: "keyed key (?a @ xs ! i # ?b)"
    using assms(1) nth_split [OF assms(2)] by simp
  then show "keyed key (xs[i := y])"
    using assms(3) by (simp add: list_update_split [OF assms(2)] keyed_split)
  have "amap key ?a (key y) = None"
    using k assms(3) by (auto simp: amap_None_iff keyed_split)
  moreover have "amap key xs = amap key (?a @ xs ! i # ?b)"
    using nth_split [OF assms(2)] by simp
  ultimately show "amap key (xs[i := y]) = (amap key xs)(key y \<mapsto> y)"
    using assms(3)
    by (auto simp: list_update_split [OF assms(2)] amap_append map_add_def fun_eq_iff split: option.splits)
qed

lemma keyed_remove:
  assumes "keyed key xs" "i < length xs"
  shows "keyed key (remove_at i xs)" "amap key (remove_at i xs) = (amap key xs)(key (xs ! i) := None)"
proof -
  let ?a = "take i xs" and ?b = "drop (Suc i) xs" and ?k = "key (xs ! i)"
  have k: "keyed key (?a @ xs ! i # ?b)"
    using assms(1) nth_split [OF assms(2)] by simp
  then show "keyed key (remove_at i xs)"
    by (simp add: remove_at_def keyed_split)
  have "amap key ?a ?k = None" "amap key ?b ?k = None"
    using k by (auto simp: amap_None_iff keyed_split)
  moreover have "amap key xs = amap key (?a @ xs ! i # ?b)"
    using nth_split [OF assms(2)] by simp
  ultimately show "amap key (remove_at i xs) = (amap key xs)(?k := None)"
    by (auto simp: remove_at_def amap_append map_add_def fun_eq_iff split: option.splits)
qed

text \<open>A position where a new key belongs: everything before is smaller, everything after larger.\<close>

definition gap :: "('e \<Rightarrow> bytes) \<Rightarrow> bytes \<Rightarrow> 'e list \<Rightarrow> nat \<Rightarrow> bool" where
  "gap key k xs p \<longleftrightarrow> p \<le> length xs \<and> (\<forall>x\<in>set (take p xs). key x < k) \<and> (\<forall>x\<in>set (drop p xs). k < key x)"

lemma keyed_insert:
  assumes "keyed key xs" "gap key (key y) xs p"
  shows "keyed key (insert_at p y xs)" "amap key (insert_at p y xs) = (amap key xs)(key y \<mapsto> y)"
proof -
  let ?a = "take p xs" and ?b = "drop p xs"
  have k: "keyed key (?a @ ?b)" using assms(1) by simp
  show "keyed key (insert_at p y xs)"
    using k assms(2) unfolding keyed_split insert_at_def
    by (auto simp: gap_def intro: less_trans)
  have "amap key ?a (key y) = None"
    using assms(2) by (auto simp: amap_None_iff gap_def)
  moreover have "amap key xs = amap key (?a @ ?b)" by simp
  ultimately show "amap key (insert_at p y xs) = (amap key xs)(key y \<mapsto> y)"
    by (auto simp del: append_take_drop_id simp: insert_at_def amap_append map_add_def fun_eq_iff
        split: option.splits)
qed

lemma gap_None: "gap key k xs p \<Longrightarrow> amap key xs k = None"
  unfolding amap_None_iff gap_def by (metis append_take_drop_id Un_iff set_append less_irrefl)

text \<open>What a search index means: the place of the key, or by its encoding the gap it belongs to.\<close>

definition search_ok :: "('e \<Rightarrow> bytes) \<Rightarrow> bytes \<Rightarrow> 'e list \<Rightarrow> int \<Rightarrow> bool" where
  "search_ok key k xs i \<longleftrightarrow>
     (if i < 0 then gap key k xs (nat (- i - 1)) else nat i < length xs \<and> key (xs ! nat i) = k)"

lemma search_ok_amap:
  assumes "keyed key xs" "search_ok key k xs i"
  shows "amap key xs k = (if i < 0 then None else Some (xs ! nat i))"
  using assms gap_None [of key k xs] amap_mem [OF assms(1), of "xs ! nat i"]
  by (auto simp: search_ok_def split: if_splits)

text \<open>
  The contract of the search: the comparison orders elements against keys. It is met by addresses
  (\<^verbatim>\<open>ac_addr_cmp\<close>) and by names (\<^verbatim>\<open>name_cmp\<close>).
\<close>

locale ordered_array =
  fixes cmp :: "'e \<Rightarrow> 'q \<Rightarrow> int"
    and key :: "'e \<Rightarrow> bytes"
    and qkey :: "'q \<Rightarrow> bytes"
    and good :: "'e \<Rightarrow> bool"
    and good_q :: "'q \<Rightarrow> bool"
  assumes cmp_less: "good e \<Longrightarrow> good_q q \<Longrightarrow> cmp e q < 0 \<longleftrightarrow> key e < qkey q"
    and cmp_zero: "good e \<Longrightarrow> good_q q \<Longrightarrow> cmp e q = 0 \<longleftrightarrow> key e = qkey q"
begin

lemma bsearch_range:
  assumes "keyed key xs" "list_all good xs" "good_q q" "0 \<le> lo" "lo \<le> hi + 1" "hi < int (length xs)"
    and "\<And>i. i < nat lo \<Longrightarrow> key (xs ! i) < qkey q"
    and "\<And>i. hi < int i \<Longrightarrow> i < length xs \<Longrightarrow> qkey q < key (xs ! i)"
  shows "search_ok key (qkey q) xs (bsearch (\<lambda>e. cmp e q) xs lo hi)"
  using assms
proof (induction "\<lambda>e. cmp e q" xs lo hi rule: bsearch.induct)
  case (1 xs lo hi)
  show ?case
  proof (cases "lo \<le> hi")
    case False
    then have "gap key (qkey q) xs (nat lo)"
      using "1.prems" by (auto simp: gap_def in_set_conv_nth)
    then show ?thesis using False "1.prems"(4) by (simp add: bsearch.simps search_ok_def)
  next
    case True
    define mid where "mid = (lo + hi) div 2"
    have mid: "lo \<le> mid" "mid \<le> hi" "0 \<le> mid" "nat mid < length xs"
      using True "1.prems"(4,6) by (auto simp: mid_def)
    then have g: "good (xs ! nat mid)"
      using "1.prems"(2) by (simp add: list_all_length)
    note mono = keyed_nth_mono [OF "1.prems"(1)]
    let ?r = "cmp (xs ! nat mid) q"
    have unfold: "bsearch (\<lambda>e. cmp e q) xs lo hi = (if ?r = 0 then mid
        else if ?r < 0 then bsearch (\<lambda>e. cmp e q) xs (mid + 1) hi else bsearch (\<lambda>e. cmp e q) xs lo (mid - 1))"
      using True by (subst bsearch.simps) (simp add: Let_def mid_def)
    consider "?r = 0" | "?r < 0" | "?r \<noteq> 0" "\<not> ?r < 0" by linarith
    then show ?thesis
    proof cases
      case 1
      then show ?thesis using mid g "1.prems"(3) cmp_zero unfold by (simp add: search_ok_def)
    next
      case 2
      then have less: "key (xs ! nat mid) < qkey q" using cmp_less g "1.prems"(3) by blast
      have below: "key (xs ! i) < qkey q" if "i < nat (mid + 1)" for i
      proof (cases "i = nat mid")
        case False
        then have "key (xs ! i) < key (xs ! nat mid)" using that mid by (intro mono) auto
        then show ?thesis using less by simp
      qed (simp add: less)
      show ?thesis
        using "1.hyps"(1) [OF True mid_def refl _ _ "1.prems"(1,2,3) _ _ "1.prems"(6) below "1.prems"(8)]
          2 mid unfold by simp
    next
      case 3
      then have greater: "qkey q < key (xs ! nat mid)"
        using cmp_less cmp_zero g "1.prems"(3) by (meson linorder_neqE)
      have above: "qkey q < key (xs ! i)" if "mid - 1 < int i" "i < length xs" for i
      proof (cases "i = nat mid")
        case False
        then have "key (xs ! nat mid) < key (xs ! i)" using that mid by (intro mono) auto
        then show ?thesis using greater by simp
      qed (simp add: greater)
      show ?thesis
        using "1.hyps"(2) [OF True mid_def refl _ _ "1.prems"(1,2,3,4) _ _ "1.prems"(7) above]
          3 mid "1.prems"(6) unfold by simp
    qed
  qed
qed

lemma bsearch_spec:
  "keyed key xs \<Longrightarrow> list_all good xs \<Longrightarrow> good_q q \<Longrightarrow>
    search_ok key (qkey q) xs (bsearch (\<lambda>e. cmp e q) xs 0 (int (length xs) - 1))"
  by (rule bsearch_range) auto

end

interpretation accounts: ordered_array "\<lambda>a k. ac_addr_cmp (acc_addr a) k" acc_addr "\<lambda>k. k" wf_account wf_addr
  by unfold_locales (simp_all add: ac_addr_cmp_iffs wf_account_def)

lemma Nil_less_iff: "[] < (xs :: bytes) \<longleftrightarrow> xs \<noteq> []"
  by (cases xs) auto

lemma name_cmp_exact:
  "name_cmp x (length x) y (length y) < 0 \<longleftrightarrow> x < y" "name_cmp x (length x) y (length y) = 0 \<longleftrightarrow> x = y"
proof (induction x y rule: memcmp.induct)
  case (1 x xs y ys)
  { case 1 then show ?case using "1.IH" by (auto simp: name_cmp_def Let_def) }
  { case 2 then show ?case using "1.IH" by (auto simp: name_cmp_def Let_def) }
qed (auto simp: name_cmp_def Let_def Nil_less_iff)

lemma name_cmp_iffs:
  assumes "alen \<le> length a" "blen \<le> length b"
  shows "name_cmp a alen b blen < 0 \<longleftrightarrow> take alen a < take blen b"
    "name_cmp a alen b blen = 0 \<longleftrightarrow> take alen a = take blen b"
proof -
  have "name_cmp a alen b blen =
      name_cmp (take alen a) (length (take alen a)) (take blen b) (length (take blen b))"
    using assms by (simp add: name_cmp_def Let_def)
  then show "name_cmp a alen b blen < 0 \<longleftrightarrow> take alen a < take blen b"
    "name_cmp a alen b blen = 0 \<longleftrightarrow> take alen a = take blen b"
    by (simp_all only: name_cmp_exact)
qed

interpretation names: ordered_array "\<lambda>n (name, nlen). name_cmp (sn_name n) (unat (sn_len n)) name nlen"
  sn_key "\<lambda>(name, nlen). take nlen name" wf_state_name "\<lambda>(name, nlen). nlen \<le> length name"
proof
  fix e :: state_name and q :: "bytes \<times> nat"
  obtain name nlen where q: "q = (name, nlen)" by fastforce
  assume "wf_state_name e" "case q of (name, nlen) \<Rightarrow> nlen \<le> length name"
  then have "unat (sn_len e) \<le> length (sn_name e)" "nlen \<le> length name"
    using name_valid_bounds [of "sn_name e" "unat (sn_len e)"] by (auto simp: wf_state_name_def q)
  note c = name_cmp_iffs [OF this]
  show "((case q of (name, nlen) \<Rightarrow> name_cmp (sn_name e) (unat (sn_len e)) name nlen) < 0) =
      (sn_key e < (case q of (name, nlen) \<Rightarrow> take nlen name))"
    "((case q of (name, nlen) \<Rightarrow> name_cmp (sn_name e) (unat (sn_len e)) name nlen) = 0) =
      (sn_key e = (case q of (name, nlen) \<Rightarrow> take nlen name))"
    by (simp_all add: q c sn_key_def)
qed

section \<open>The account array implements a map\<close>

definition acct_map :: "ac_state \<Rightarrow> ac_addr \<rightharpoonup> ac_account" where
  "acct_map s = amap acc_addr (st_accounts s)"

definition name_map :: "ac_state \<Rightarrow> bytes \<rightharpoonup> state_name" where
  "name_map s = amap sn_key (st_names s)"

lemma acc_lookup_ok:
  "wf_state s \<Longrightarrow> wf_addr k \<Longrightarrow> search_ok acc_addr k (st_accounts s) (acc_lookup s k)"
  unfolding acc_lookup_def by (rule accounts.bsearch_spec) (auto simp: wf_state_def)

lemma name_lookup_ok:
  assumes "wf_state s" "nlen \<le> length name"
  shows "search_ok sn_key (take nlen name) (st_names s) (name_lookup_index s name nlen)"
  using names.bsearch_spec [of "st_names s" "(name, nlen)"] assms
  by (auto simp: wf_state_def name_lookup_index_def)

lemma ac_state_get_map:
  assumes "wf_state s" "wf_addr k"
  shows "ac_state_get s k = (case acct_map s k of None \<Rightarrow> (False, zero_account k) | Some a \<Rightarrow> (True, a))"
  using search_ok_amap [OF _ acc_lookup_ok [OF assms]] assms(1)
  by (simp add: ac_state_get_def acct_map_def wf_state_def)

lemma ac_state_set_map:
  assumes "wf_state s" "wf_account a"
  shows "wf_state (ac_state_set s a)"
    "acct_map (ac_state_set s a) = (acct_map s)(acc_addr a := (if account_is_empty a then None else Some a))"
proof -
  let ?xs = "st_accounts s" and ?i = "acc_lookup s (acc_addr a)"
  have k: "keyed acc_addr ?xs" and g: "list_all wf_account ?xs"
    using assms(1) by (simp_all add: wf_state_def)
  have ok: "search_ok acc_addr (acc_addr a) ?xs ?i"
    using acc_lookup_ok assms by (simp add: wf_account_def)
  note upd = keyed_update [OF k, of "nat ?i" a] and rem = keyed_remove [OF k, of "nat ?i"]
    and ins = keyed_insert [OF k, of a "nat (- ?i - 1)"] and lk = search_ok_amap [OF k ok]
  show "wf_state (ac_state_set s a)"
    using assms ok upd rem ins set_remove_at_subset [of "nat ?i" ?xs] set_update_subset_insert [of ?xs "nat ?i" a]
    unfolding ac_state_set_def Let_def wf_state_def search_ok_def list_all_iff
    by (auto split: if_splits)
  show "acct_map (ac_state_set s a) = (acct_map s)(acc_addr a := (if account_is_empty a then None else Some a))"
    using ok upd rem ins lk unfolding ac_state_set_def Let_def acct_map_def search_ok_def
    by (auto simp: fun_eq_iff split: if_splits)
qed

lemma ac_state_set_frame [simp]:
  "st_chain_id (ac_state_set s a) = st_chain_id s" "st_names (ac_state_set s a) = st_names s"
  by (simp_all add: ac_state_set_def Let_def)

lemma ac_state_set_no_empty: "no_empty s \<Longrightarrow> no_empty (ac_state_set s a)"
  using set_remove_at_subset [of "nat (acc_lookup s (acc_addr a))" "st_accounts s"]
    set_update_subset_insert [of "st_accounts s" "nat (acc_lookup s (acc_addr a))" a]
  by (auto simp: no_empty_def ac_state_set_def Let_def list_all_iff)

lemma ac_state_get_addr: "wf_state s \<Longrightarrow> wf_addr k \<Longrightarrow> acc_addr (snd (ac_state_get s k)) = k"
  by (auto simp: ac_state_get_map zero_account_def acct_map_def split: option.splits dest: amap_SomeD)

lemma empty_zero_account: "account_is_empty a \<longleftrightarrow> a = zero_account (acc_addr a)"
  by (cases a) (auto simp: account_is_empty_def zero_account_def)

lemma ac_state_get_set:
  assumes "wf_state s" "wf_account a" "wf_addr k"
  shows "snd (ac_state_get (ac_state_set s a) k) = (if k = acc_addr a then a else snd (ac_state_get s k))"
  using assms ac_state_set_map [OF assms(1,2)] empty_zero_account [of a]
  by (auto simp: ac_state_get_map split: option.splits)

text \<open>Sums over the accounts, such as the money supply.\<close>

definition total :: "(ac_account \<Rightarrow> nat) \<Rightarrow> ac_state \<Rightarrow> nat" where
  "total f s = sum_list (map f (st_accounts s))"

lemma total_set:
  assumes "wf_state s" "wf_account a" "\<And>k. f (zero_account k) = 0"
  shows "total f (ac_state_set s a) + f (snd (ac_state_get s (acc_addr a))) = total f s + f a"
proof -
  let ?i = "acc_lookup s (acc_addr a)"
  have "search_ok acc_addr (acc_addr a) (st_accounts s) ?i"
    using acc_lookup_ok assms by (simp add: wf_account_def)
  moreover have "f a = 0" if "account_is_empty a"
    using that assms(3) empty_zero_account by metis
  ultimately show ?thesis
    using sum_list_remove_at [of "nat ?i" "st_accounts s" f] sum_list_list_update [of "nat ?i" "st_accounts s" f a] assms(3)
    unfolding ac_state_set_def ac_state_get_def total_def Let_def search_ok_def by (auto split: if_splits)
qed

text \<open>
  The contract of the account store that the transition function, the mempool and the chain rely
  on: reading after writing, the invariant, and how a write moves a sum over all accounts.
\<close>

locale account_store =
  fixes get :: "'s \<Rightarrow> ac_addr \<Rightarrow> ac_account"
    and put :: "'s \<Rightarrow> ac_account \<Rightarrow> 's"
    and sum :: "(ac_account \<Rightarrow> nat) \<Rightarrow> 's \<Rightarrow> nat"
    and inv :: "'s \<Rightarrow> bool"
  assumes get_put: "inv s \<Longrightarrow> wf_account a \<Longrightarrow> wf_addr k \<Longrightarrow>
      get (put s a) k = (if k = acc_addr a then a else get s k)"
    and inv_put: "inv s \<Longrightarrow> wf_account a \<Longrightarrow> inv (put s a)"
    and get_addr: "inv s \<Longrightarrow> wf_addr k \<Longrightarrow> acc_addr (get s k) = k"
    and sum_put: "inv s \<Longrightarrow> wf_account a \<Longrightarrow> (\<And>k. f (zero_account k) = 0) \<Longrightarrow>
      sum f (put s a) + f (get s (acc_addr a)) = sum f s + f a"
begin

lemma wf_get: "inv s \<Longrightarrow> wf_addr k \<Longrightarrow> wf_account (get s k)"
  by (simp add: wf_account_def get_addr)

lemma get_put_other: "inv s \<Longrightarrow> wf_account a \<Longrightarrow> wf_addr k \<Longrightarrow> k \<noteq> acc_addr a \<Longrightarrow> get (put s a) k = get s k"
  by (simp add: get_put)

lemma get_put_same: "inv s \<Longrightarrow> wf_account a \<Longrightarrow> get (put s a) (acc_addr a) = a"
  by (simp add: get_put wf_account_def)

lemma sum_put_put:
  assumes "inv s" "wf_account a" "wf_account b" "acc_addr a \<noteq> acc_addr b" "\<And>k. f (zero_account k) = 0"
  shows "sum f (put (put s a) b) + f (get s (acc_addr a)) + f (get s (acc_addr b)) = sum f s + f a + f b"
  using sum_put [of s a f, OF assms(1,2,5)] sum_put [of "put s a" b f, OF inv_put [OF assms(1,2)] assms(3,5)]
    get_put_other [OF assms(1,2), of "acc_addr b"] assms(3,4)
  by (simp add: wf_account_def)

lemma sum_put_overwrite:
  assumes "inv s" "wf_account a" "wf_account b" "acc_addr a = acc_addr b" "\<And>k. f (zero_account k) = 0"
  shows "sum f (put (put s a) b) + f (get s (acc_addr b)) = sum f s + f b"
  using sum_put [of s a f, OF assms(1,2,5)] sum_put [of "put s a" b f, OF inv_put [OF assms(1,2)] assms(3,5)]
    get_put_same [OF assms(1,2)] assms(4) by simp

lemma members_le_sum:
  assumes "inv s" "wf_addr j" "wf_addr k" "j \<noteq> k" "\<And>k. f (zero_account k) = 0"
  shows "f (get s j) + f (get s k) \<le> sum f s"
  using sum_put_put [of s "zero_account j" "zero_account k" f] assms
  by (simp add: wf_account_def zero_account_def)

lemma member_le_sum: "inv s \<Longrightarrow> wf_addr k \<Longrightarrow> (\<And>k. f (zero_account k) = 0) \<Longrightarrow> f (get s k) \<le> sum f s"
  using sum_put [of s "zero_account k" f] by (simp add: wf_account_def zero_account_def)

end

interpretation st: account_store "\<lambda>s k. snd (ac_state_get s k)" ac_state_set total wf_state
  by unfold_locales (simp_all add: ac_state_get_set ac_state_set_map ac_state_get_addr total_set)

section \<open>The name registry\<close>

lemma register_entry:
  assumes "ac_name_valid name nlen" "nlen \<le> length name" "wf_addr addr"
  defines "e \<equiv> \<lparr>sn_len = of_nat nlen, sn_name = memcpy_into (zeros 32) (take nlen name), sn_addr = addr\<rparr>"
  shows "wf_state_name e" "sn_key e = take nlen name"
proof -
  have n: "1 \<le> nlen" "nlen \<le> 32" using name_valid_bounds [OF assms(1)] by auto
  then have u: "unat (of_nat nlen :: u8) = nlen" by (simp add: unat_of_nat)
  show k: "sn_key e = take nlen name"
    using assms(2) by (simp add: sn_key_def e_def u memcpy_into_def)
  show "wf_state_name e"
    using assms(1-3) n k by (simp add: wf_state_name_def e_def u sn_key_def ac_name_valid_def memcpy_into_def)
qed

lemma ac_state_name_register_map:
  assumes "wf_state s" "wf_addr addr" "nlen \<le> length name"
  shows "ac_state_name_register s name nlen addr = None \<longleftrightarrow>
    \<not> (ac_name_valid name nlen \<and> name_map s (take nlen name) = None)"
    and "ac_state_name_register s name nlen addr = Some s' \<Longrightarrow> wf_state s'"
    and "ac_state_name_register s name nlen addr = Some s' \<Longrightarrow> s' = s\<lparr>st_names := st_names s'\<rparr>"
    and "ac_state_name_register s name nlen addr = Some s' \<Longrightarrow>
      \<exists>e. sn_key e = take nlen name \<and> sn_addr e = addr \<and> name_map s' = (name_map s)(take nlen name \<mapsto> e)"
proof -
  let ?i = "name_lookup_index s name nlen"
  have k: "keyed sn_key (st_names s)" using assms(1) by (simp add: wf_state_def)
  note ok = name_lookup_ok [OF assms(1,3)]
  note lk = search_ok_amap [OF k ok]
  show "ac_state_name_register s name nlen addr = None \<longleftrightarrow>
    \<not> (ac_name_valid name nlen \<and> name_map s (take nlen name) = None)"
    using lk by (auto simp: ac_state_name_register_def name_map_def Let_def)
  assume r: "ac_state_name_register s name nlen addr = Some s'"
  let ?e = "\<lparr>sn_len = of_nat nlen, sn_name = memcpy_into (zeros 32) (take nlen name), sn_addr = addr\<rparr>"
  have v: "ac_name_valid name nlen" and i: "?i < 0"
    and s': "s' = s\<lparr>st_names := insert_at (nat (- ?i - 1)) ?e (st_names s)\<rparr>"
    using r by (auto simp: ac_state_name_register_def Let_def split: if_splits)
  note e = register_entry [OF v assms(3,2)]
  have g: "gap sn_key (sn_key ?e) (st_names s) (nat (- ?i - 1))"
    using ok i e(2) by (simp add: search_ok_def)
  note ins = keyed_insert [OF k g]
  show "wf_state s'" "s' = s\<lparr>st_names := st_names s'\<rparr>"
    using assms(1) ins(1) e(1) s' by (simp_all add: wf_state_def list_all_iff)
  show "\<exists>e. sn_key e = take nlen name \<and> sn_addr e = addr \<and> name_map s' = (name_map s)(take nlen name \<mapsto> e)"
    using ins(2) e(2) by (intro exI [of _ ?e]) (simp add: s' name_map_def)
qed

lemma ac_state_name_lookup_map:
  assumes "wf_state s" "nlen \<le> length name"
  shows "ac_state_name_lookup s name nlen = map_option sn_addr (name_map s (take nlen name))"
  using search_ok_amap [OF _ name_lookup_ok [OF assms]] assms(1)
  by (simp add: ac_state_name_lookup_def name_map_def Let_def wf_state_def)

section \<open>The array is determined by the map\<close>

lemma keyed_unique:
  assumes "keyed key xs" "keyed key ys" "amap key xs = amap key ys"
  shows "xs = ys"
proof -
  have dom: "set (map key zs) = dom (amap key zs)" for zs
    using amap_None_iff [of key zs] by (auto simp: dom_def)
  have the: "zs = map (\<lambda>k. the (amap key zs k)) (map key zs)" if "keyed key zs" for zs
    using amap_mem [OF that] by (simp add: map_idI)
  have "map key xs = map key ys"
    using assms(1,2) dom [of xs] dom [of ys] assms(3)
    by (intro strict_sorted_equal) (auto simp: keyed_def)
  then show ?thesis using the [OF assms(1)] the [OF assms(2)] assms(3) by metis
qed

lemma acct_map_get:
  assumes "wf_state s" "no_empty s" "wf_addr k"
  shows "acct_map s k = (let a = snd (ac_state_get s k) in if account_is_empty a then None else Some a)"
proof (cases "acct_map s k")
  case None
  then show ?thesis
    using empty_zero_account by (simp add: ac_state_get_map [OF assms(1,3)] zero_account_def account_is_empty_def)
next
  case (Some a)
  then have "a \<in> set (st_accounts s)" by (auto simp: acct_map_def dest: amap_SomeD)
  then have "\<not> account_is_empty a" using assms(2) by (auto simp: no_empty_def list_all_iff)
  then show ?thesis using Some by (simp add: ac_state_get_map [OF assms(1,3)])
qed

lemma acct_map_wf: "wf_state s \<Longrightarrow> \<not> wf_addr k \<Longrightarrow> acct_map s k = None"
  by (auto simp: acct_map_def amap_None_iff wf_state_def list_all_iff wf_account_def)

lemma name_map_names: "wf_state s \<Longrightarrow> wf_state s' \<Longrightarrow> name_map s = name_map s' \<Longrightarrow> st_names s = st_names s'"
  by (auto simp: name_map_def wf_state_def intro: keyed_unique)

section \<open>Record layouts\<close>

definition account_bytes :: "ac_account \<Rightarrow> bytes" where
  "account_bytes a = acc_addr a @ ac_be64 (acc_balance a) @ ac_be64 (acc_nonce a) @
     ac_be64 (acc_stake a) @ ac_be64 (acc_unbond_at a)"

definition name_bytes :: "state_name \<Rightarrow> bytes" where
  "name_bytes n = sn_len n # sn_key n @ sn_addr n"

lemma chunks_bytes: "concat (account_chunks a) = account_bytes a" "concat (name_chunks n) = name_bytes n"
  by (simp_all add: account_chunks_def account_bytes_def name_chunks_def name_bytes_def sn_key_def)

lemma length_account_bytes: "wf_account a \<Longrightarrow> length (account_bytes a) = 64"
  by (simp add: account_bytes_def wf)

lemma wf_state_name_len:
  assumes "wf_state_name n"
  shows "length (sn_key n) = unat (sn_len n)" "unat (sn_len n) \<le> 32" "1 \<le> unat (sn_len n)"
    "length (sn_addr n) = 32" "sn_name n = memcpy_into (zeros 32) (sn_key n)"
proof -
  have l: "length (sn_name n) = 32" "ac_name_valid (sn_name n) (unat (sn_len n))"
    "drop (unat (sn_len n)) (sn_name n) = zeros (32 - unat (sn_len n))" "length (sn_addr n) = 32"
    using assms by (simp_all add: wf_state_name_def wf)
  note b = name_valid_bounds [OF l(2)]
  show "length (sn_key n) = unat (sn_len n)" "unat (sn_len n) \<le> 32" "1 \<le> unat (sn_len n)" "length (sn_addr n) = 32"
    using l(1,4) b by (simp_all add: sn_key_def)
  show "sn_name n = memcpy_into (zeros 32) (sn_key n)"
    using l b append_take_drop_id [of "unat (sn_len n)" "sn_name n"] by (simp add: sn_key_def memcpy_into_def)
qed

lemma account_bytes_inj:
  assumes "wf_account a" "wf_account b" "account_bytes a = account_bytes b"
  shows "a = b"
  using assms be64_inj by (auto simp: account_bytes_def wf intro: ac_account.equality)

lemma name_bytes_prefix:
  assumes "wf_state_name a" "wf_state_name b" "name_bytes a @ x = name_bytes b @ y"
  shows "a = b \<and> x = y"
proof -
  note la = wf_state_name_len [OF assms(1)] and lb = wf_state_name_len [OF assms(2)]
  have len: "sn_len a = sn_len b" using assms(3) by (simp add: name_bytes_def)
  have "sn_key a = sn_key b \<and> sn_addr a @ x = sn_addr b @ y"
    using assms(3) la(1) lb(1) len by (simp add: name_bytes_def)
  then have "sn_key a = sn_key b \<and> sn_addr a = sn_addr b \<and> x = y"
    using la(4) lb(4) by simp
  then show ?thesis using len la(5) lb(5) by (metis state_name.equality unit.exhaust)
qed

lemma account_list_inj:
  assumes "list_all wf_account xs" "list_all wf_account ys" "length xs = length ys"
    and "concat (map account_bytes xs) @ u = concat (map account_bytes ys) @ v"
  shows "xs = ys \<and> u = v"
  using assms(3,1,2,4)
proof (induction xs ys rule: list_induct2)
  case (Cons x xs y ys)
  then have "account_bytes x = account_bytes y \<and>
      concat (map account_bytes xs) @ u = concat (map account_bytes ys) @ v"
    by (simp add: length_account_bytes)
  then show ?case using Cons account_bytes_inj by simp
qed simp

lemma name_list_inj:
  assumes "list_all wf_state_name xs" "list_all wf_state_name ys"
    and "concat (map name_bytes xs) = concat (map name_bytes ys)"
  shows "xs = ys"
  using assms
proof (induction xs arbitrary: ys)
  case Nil
  then show ?case by (cases ys) (auto simp: name_bytes_def)
next
  case (Cons x xs)
  obtain y ys' where ys: "ys = y # ys'"
    using Cons.prems(3) by (cases ys) (auto simp: name_bytes_def)
  have "x = y \<and> concat (map name_bytes xs) = concat (map name_bytes ys')"
    using Cons.prems ys by (intro name_bytes_prefix) auto
  then show ?case using Cons.IH [of ys'] Cons.prems ys by simp
qed

definition root_preimage :: "ac_state \<Rightarrow> bytes" where
  "root_preimage s = STATE_DOMAIN @ concat (map account_bytes (st_accounts s)) @ 255 #
     concat (map name_bytes (st_names s))"

lemma ac_state_root_eq: "ac_state_root S s = crypto_generichash S (root_preimage s)"
proof -
  have "concat (concat (map account_chunks xs)) = concat (map account_bytes xs)" for xs
    by (induction xs) (simp_all add: chunks_bytes)
  moreover have "concat (concat (map name_chunks xs)) = concat (map name_bytes xs)" for xs
    by (induction xs) (simp_all add: chunks_bytes)
  ultimately show ?thesis
    by (simp add: ac_state_root_def ac_hash_multi_concat ac_hash_def root_preimage_def)
qed

lemma root_preimage_inj:
  assumes "wf_state s" "wf_state s'" "length (st_accounts s) = length (st_accounts s')"
    and "root_preimage s = root_preimage s'"
  shows "st_accounts s = st_accounts s' \<and> st_names s = st_names s'"
proof -
  have "st_accounts s = st_accounts s' \<and> 255 # concat (map name_bytes (st_names s)) = 255 # concat (map name_bytes (st_names s'))"
    using assms by (intro account_list_inj) (simp_all add: wf_state_def root_preimage_def)
  then show ?thesis using assms(1,2) by (auto simp: wf_state_def intro: name_list_inj)
qed

section \<open>Snapshots: reading what was written\<close>

lemma keyed_snoc: "keyed key (xs @ [x]) \<longleftrightarrow> keyed key xs \<and> (xs \<noteq> [] \<longrightarrow> key (last xs) < key x)"
proof (cases xs rule: rev_cases)
  case (snoc ys y)
  have "key y < key x \<Longrightarrow> key z < key y \<Longrightarrow> key z < key x" for z
    by (rule less_trans)
  then show ?thesis using snoc by (auto simp: keyed_split)
qed simp

lemma rd64_take: "ac_rd64 (take 8 p) = ac_rd64 p"
  by (simp add: ac_rd64_def)

lemma be64_rd64_take: "8 \<le> length p \<Longrightarrow> ac_be64 (ac_rd64 p) = take 8 p"
  using be64_rd64 [of "take 8 p"] by (simp add: rd64_take)

lemma rd_account_drop: "rd_account buf pos = rd_account (drop pos buf) 0"
  by (simp add: rd_account_def add.commute)

lemma rd_account_bytes: "wf_account a \<Longrightarrow> rd_account (account_bytes a @ r) 0 = a"
  by (simp add: rd_account_def account_bytes_def wf)

lemma account_bytes_rd:
  assumes "64 \<le> length p"
  shows "account_bytes (rd_account p 0) = take 64 p" "wf_account (rd_account p 0)"
proof -
  have "take 64 p = take (32 + (8 + (8 + (8 + 8)))) p" by simp
  also have "\<dots> = take 32 p @ take 8 (drop 32 p) @ take 8 (drop 40 p) @ take 8 (drop 48 p) @ take 8 (drop 56 p)"
    by (simp only: take_add drop_drop) simp
  finally show "account_bytes (rd_account p 0) = take 64 p"
    using assms by (simp add: account_bytes_def rd_account_def be64_rd64_take)
  show "wf_account (rd_account p 0)"
    using assms by (simp add: rd_account_def wf)
qed

lemma rd_accounts_write:
  assumes "list_all wf_account (acc @ ys)" "keyed acc_addr (acc @ ys)"
    and "drop pos buf = concat (map account_bytes ys) @ r" "pos \<le> length buf"
  shows "rd_accounts (length ys) buf pos acc = Some (acc @ ys, pos + length (concat (map account_bytes ys)))"
  using assms
proof (induction ys arbitrary: pos acc)
  case (Cons y ys)
  have y: "wf_account y" using Cons.prems(1) by simp
  have rd: "rd_account buf pos = y"
    using Cons.prems(3) rd_account_bytes [OF y] by (simp add: rd_account_drop [of buf])
  have len: "pos + 64 \<le> length buf"
    using arg_cong [OF Cons.prems(3), of length] length_account_bytes [OF y] Cons.prems(4) by simp
  have "keyed acc_addr (acc @ [y])" using Cons.prems(2) by (auto simp: keyed_split)
  then have "acc \<noteq> [] \<longrightarrow> acc_addr (last acc) < acc_addr y" by (simp add: keyed_snoc)
  moreover have "acc \<noteq> [] \<longrightarrow> wf_addr (acc_addr (last acc))"
    using Cons.prems(1) by (auto simp: list_all_iff wf_account_def)
  ultimately have "\<not> (acc \<noteq> [] \<and> ac_addr_cmp (acc_addr (last acc)) (acc_addr y) \<ge> 0)"
    using y ac_addr_cmp_iffs(1) by (auto simp: not_le wf_account_def)
  moreover have "drop (pos + 64) buf = concat (map account_bytes ys) @ r"
    using arg_cong [OF Cons.prems(3), of "drop 64"] length_account_bytes [OF y] by (simp add: add.commute)
  ultimately show ?case
    using Cons.IH [of "acc @ [y]" "pos + 64"] Cons.prems(1,2) len rd length_account_bytes [OF y] by auto
qed simp

lemma rd_accounts_read:
  assumes "rd_accounts n buf pos acc = Some (xs, e)" "pos \<le> length buf"
    and "list_all wf_account acc" "keyed acc_addr acc"
  shows "\<exists>ys. xs = acc @ ys \<and> length ys = n \<and> list_all wf_account xs \<and> keyed acc_addr xs \<and>
    drop pos buf = concat (map account_bytes ys) @ drop e buf \<and> e \<le> length buf"
  using assms
proof (induction n arbitrary: pos acc)
  case (Suc n)
  define a where "a = rd_account buf pos"
  have len: "pos + 64 \<le> length buf"
    and ord: "acc \<noteq> [] \<longrightarrow> ac_addr_cmp (acc_addr (last acc)) (acc_addr a) < 0"
    and rest: "rd_accounts n buf (pos + 64) (acc @ [a]) = Some (xs, e)"
    using Suc.prems(1) by (auto simp: a_def Let_def not_le split: if_splits)
  have a: "wf_account a" "account_bytes a = take 64 (drop pos buf)"
    unfolding a_def using account_bytes_rd [of "drop pos buf"] len by (simp_all add: rd_account_drop [of buf])
  have "acc \<noteq> [] \<longrightarrow> wf_addr (acc_addr (last acc))"
    using Suc.prems(3) by (auto simp: list_all_iff wf_account_def)
  then have "keyed acc_addr (acc @ [a])"
    using ord a(1) Suc.prems(4) ac_addr_cmp_iffs(1) by (auto simp: keyed_snoc wf_account_def)
  then obtain ys where ys: "xs = (acc @ [a]) @ ys" "length ys = n" "list_all wf_account xs" "keyed acc_addr xs"
    "drop (pos + 64) buf = concat (map account_bytes ys) @ drop e buf" "e \<le> length buf"
    using Suc.IH [OF rest len] Suc.prems(3) a(1) by auto
  have "drop pos buf = account_bytes a @ drop (pos + 64) buf"
    using append_take_drop_id [of 64 "drop pos buf"] a(2) by (simp add: add.commute)
  then show ?case using ys by (intro exI [of _ "a # ys"]) simp
qed auto

lemma rd_name_at:
  assumes "drop pos buf = l # k @ a @ r" "length k = unat l" "length a = 32"
  shows "buf ! pos = l" "rd_name buf pos = \<lparr>sn_len = l, sn_name = memcpy_into (zeros 32) k, sn_addr = a\<rparr>"
    "pos + 1 + unat l + 32 \<le> length buf" "drop (pos + 1 + unat l + 32) buf = r"
proof -
  have pos: "pos < length buf" using assms(1) by (cases "pos < length buf") auto
  then show b: "buf ! pos = l" using assms(1) by (metis hd_drop_conv_nth list.sel(1))
  have d: "drop (pos + 1) buf = k @ a @ r"
    using assms(1) by (metis drop_Suc_Cons drop0 drop_drop plus_1_eq_Suc)
  have d2: "drop (pos + 1 + unat l) buf = a @ r"
    using arg_cong [OF d, of "drop (unat l)"] assms(2) by (simp add: add.commute)
  show "rd_name buf pos = \<lparr>sn_len = l, sn_name = memcpy_into (zeros 32) k, sn_addr = a\<rparr>"
    using d d2 b assms(2,3) by (simp add: rd_name_def Let_def)
  show "drop (pos + 1 + unat l + 32) buf = r"
    using arg_cong [OF d2, of "drop 32"] assms(3) by (simp add: add.commute)
  show "pos + 1 + unat l + 32 \<le> length buf"
    using arg_cong [OF assms(1), of length] assms(2,3) pos by simp
qed

lemma name_cmp_key:
  assumes "wf_state_name a" "wf_state_name b"
  shows "name_cmp (sn_name a) (unat (sn_len a)) (sn_name b) (unat (sn_len b)) < 0 \<longleftrightarrow> sn_key a < sn_key b"
proof -
  have "length (sn_name a) = 32" "length (sn_name b) = 32"
    using assms by (simp_all add: wf_state_name_def)
  then show ?thesis
    using wf_state_name_len(2) [OF assms(1)] wf_state_name_len(2) [OF assms(2)]
    by (subst name_cmp_iffs) (simp_all add: sn_key_def)
qed

lemma rd_name_write:
  assumes "wf_state_name y" "drop pos buf = name_bytes y @ r"
  shows "rd_name_ok buf pos" "rd_name buf pos = y" "buf ! pos = sn_len y"
    "pos + 1 + unat (sn_len y) + 32 \<le> length buf" "drop (pos + 1 + unat (sn_len y) + 32) buf = r"
proof -
  note l = wf_state_name_len [OF assms(1)]
  have d: "drop pos buf = sn_len y # sn_key y @ sn_addr y @ r"
    using assms(2) by (simp add: name_bytes_def)
  note at = rd_name_at [OF d l(1,4)]
  show rd: "rd_name buf pos = y"
    using at(2) l(5) by (cases y) simp
  show "buf ! pos = sn_len y" "pos + 1 + unat (sn_len y) + 32 \<le> length buf"
    "drop (pos + 1 + unat (sn_len y) + 32) buf = r"
    by (rule at)+
  have "ac_name_valid (sn_name y) (unat (sn_len y))"
    using assms(1) by (simp add: wf_state_name_def)
  then show "rd_name_ok buf pos"
    using at(1,3) l(2,3) by (simp add: rd_name_ok_def rd Let_def)
qed

lemma rd_name_read:
  assumes "rd_name_ok buf pos"
  defines "n \<equiv> rd_name buf pos"
  shows "wf_state_name n" "drop pos buf = name_bytes n @ drop (pos + 1 + unat (buf ! pos) + 32) buf"
    "pos + 1 + unat (buf ! pos) + 32 \<le> length buf"
proof -
  let ?l = "buf ! pos"
  have ok: "pos < length buf" "unat ?l \<le> 32" "pos + 1 + unat ?l + 32 \<le> length buf"
    "ac_name_valid (sn_name n) (unat ?l)"
    using assms by (auto simp: rd_name_ok_def Let_def)
  have d: "drop pos buf = ?l # take (unat ?l) (drop (pos + 1) buf) @
      take 32 (drop (pos + 1 + unat ?l) buf) @ drop (pos + 1 + unat ?l + 32) buf"
  proof -
    have "drop pos buf = ?l # drop (pos + 1) buf"
      using ok(1) by (simp add: Cons_nth_drop_Suc)
    also have "drop (pos + 1) buf = take (unat ?l) (drop (pos + 1) buf) @ drop (pos + 1 + unat ?l) buf"
      by (rule drop_split)
    also have "drop (pos + 1 + unat ?l) buf =
        take 32 (drop (pos + 1 + unat ?l) buf) @ drop (pos + 1 + unat ?l + 32) buf"
      by (rule drop_split)
    finally show ?thesis .
  qed
  have len: "length (take (unat ?l) (drop (pos + 1) buf)) = unat ?l"
    "length (take 32 (drop (pos + 1 + unat ?l) buf)) = 32"
    using ok(3) by auto
  note at = rd_name_at(2) [OF d len]
  show "wf_state_name n"
    using ok(2,4) len at unfolding n_def
    by (simp add: wf_state_name_def wf memcpy_into_def)
  show "drop pos buf = name_bytes n @ drop (pos + 1 + unat ?l + 32) buf"
    using d at len unfolding n_def by (simp add: name_bytes_def sn_key_def memcpy_into_def)
  show "pos + 1 + unat ?l + 32 \<le> length buf" by (rule ok)
qed

lemma rd_names_write:
  assumes "list_all wf_state_name (acc @ ys)" "keyed sn_key (acc @ ys)"
    and "drop pos buf = concat (map name_bytes ys) @ r" "pos \<le> length buf"
  shows "rd_names (length ys) buf pos acc = Some (acc @ ys, pos + length (concat (map name_bytes ys)))"
  using assms
proof (induction ys arbitrary: pos acc)
  case (Cons y ys)
  have y: "wf_state_name y" using Cons.prems(1) by simp
  have "drop pos buf = name_bytes y @ (concat (map name_bytes ys) @ r)"
    using Cons.prems(3) by simp
  note w = rd_name_write [OF y this]
  have "keyed sn_key (acc @ [y])" using Cons.prems(2) by (auto simp: keyed_split)
  then have "acc \<noteq> [] \<longrightarrow> sn_key (last acc) < sn_key y" by (simp add: keyed_snoc)
  moreover have "acc \<noteq> [] \<longrightarrow> wf_state_name (last acc)"
    using Cons.prems(1) by (auto simp: list_all_iff)
  ultimately have "\<not> (acc \<noteq> [] \<and> name_cmp (sn_name (last acc)) (unat (sn_len (last acc)))
      (sn_name y) (unat (sn_len y)) \<ge> 0)"
    using y name_cmp_key by (auto simp: not_le)
  moreover have "length (name_bytes y) = 1 + unat (sn_len y) + 32"
    using wf_state_name_len [OF y] by (simp add: name_bytes_def)
  ultimately show ?case
    using Cons.IH [of "acc @ [y]", OF _ _ w(5,4)] Cons.prems(1,2) w(1-3) by simp
qed simp

lemma rd_names_read:
  assumes "rd_names n buf pos acc = Some (xs, e)" "pos \<le> length buf"
    and "list_all wf_state_name acc" "keyed sn_key acc"
  shows "\<exists>ys. xs = acc @ ys \<and> length ys = n \<and> list_all wf_state_name xs \<and> keyed sn_key xs \<and>
    drop pos buf = concat (map name_bytes ys) @ drop e buf \<and> e \<le> length buf"
  using assms
proof (induction n arbitrary: pos acc)
  case (Suc n)
  define a where "a = rd_name buf pos"
  have ok: "rd_name_ok buf pos"
    and ord: "acc \<noteq> [] \<longrightarrow> name_cmp (sn_name (last acc)) (unat (sn_len (last acc))) (sn_name a) (unat (sn_len a)) < 0"
    and rest: "rd_names n buf (pos + 1 + unat (buf ! pos) + 32) (acc @ [a]) = Some (xs, e)"
    using Suc.prems(1) by (auto simp: a_def not_le split: if_splits)
  note r = rd_name_read [OF ok, folded a_def]
  have "acc \<noteq> [] \<longrightarrow> wf_state_name (last acc)"
    using Suc.prems(3) by (auto simp: list_all_iff)
  then have "keyed sn_key (acc @ [a])"
    using ord r(1) Suc.prems(4) name_cmp_key by (auto simp: keyed_snoc)
  then obtain ys where ys: "xs = (acc @ [a]) @ ys" "length ys = n" "list_all wf_state_name xs" "keyed sn_key xs"
    "drop (pos + 1 + unat (buf ! pos) + 32) buf = concat (map name_bytes ys) @ drop e buf" "e \<le> length buf"
    using Suc.IH [OF rest r(3)] Suc.prems(3) r(1) by auto
  then show ?case using r(2) by (intro exI [of _ "a # ys"]) simp
qed auto

lemma serialize_bytes:
  "ac_state_serialize s = STATE_MAGIC @ STATE_VERSION # ac_be64 (st_chain_id s) @
     ac_be32 (of_nat (length (st_accounts s))) @ ac_be32 (of_nat (length (st_names s))) @
     concat (map account_bytes (st_accounts s)) @ concat (map name_bytes (st_names s))"
  by (simp add: ac_state_serialize_def chunks_bytes)

definition small_state :: "ac_state \<Rightarrow> bool" where
  "small_state s \<longleftrightarrow> length (st_accounts s) < 2 ^ 32 \<and> length (st_names s) < 2 ^ 32"

lemma length_STATE_MAGIC [simp]: "length STATE_MAGIC = 17"
  by (simp add: STATE_MAGIC_def)

lemma deserialize_serialize:
  assumes "wf_state t" "small_state t" "st_chain_id s = st_chain_id t"
  shows "ac_state_deserialize s (ac_state_serialize t) = (True, t)"
proof -
  define buf where "buf = ac_state_serialize t"
  let ?A = "concat (map account_bytes (st_accounts t))" and ?N = "concat (map name_bytes (st_names t))"
  let ?na = "of_nat (length (st_accounts t)) :: u32" and ?nn = "of_nat (length (st_names t)) :: u32"
  have n: "unat ?na = length (st_accounts t)" "unat ?nn = length (st_names t)"
    using assms(2) by (simp_all add: small_state_def unat_of_nat)
  have b: "buf = STATE_MAGIC @ STATE_VERSION # ac_be64 (st_chain_id t) @ ac_be32 ?na @ ac_be32 ?nn @ ?A @ ?N"
    by (simp add: buf_def serialize_bytes)
  have f: "take 17 buf = STATE_MAGIC" "buf ! 17 = STATE_VERSION" "ac_rd64 (drop 18 buf) = st_chain_id t"
    "ac_rd32 (drop 26 buf) = ?na" "ac_rd32 (drop 30 buf) = ?nn" "drop 34 buf = ?A @ ?N" "34 \<le> length buf"
    by (simp_all add: b nth_append)
  have w: "list_all wf_account (st_accounts t)" "keyed acc_addr (st_accounts t)"
    "list_all wf_state_name (st_names t)" "keyed sn_key (st_names t)"
    using assms(1) by (simp_all add: wf_state_def)
  have a: "rd_accounts (unat ?na) buf 34 [] = Some (st_accounts t, 34 + length ?A)"
    using rd_accounts_write [of "[]" "st_accounts t" 34 buf ?N] w f n by simp
  have d: "drop (34 + length ?A) buf = ?N @ []" "34 + length ?A \<le> length buf" "length buf = 34 + length ?A + length ?N"
    using arg_cong [OF f(6), of "drop (length ?A)"] by (simp add: add.commute, simp_all add: b)
  have m: "rd_names (unat ?nn) buf (34 + length ?A) [] = Some (st_names t, 34 + length ?A + length ?N)"
    using rd_names_write [of "[]" "st_names t", OF _ _ d(1,2)] w n by simp
  have "ac_state_deserialize s buf = (True, t)"
    using f a m d(3) assms(3) by (simp add: ac_state_deserialize_def Let_def)
  then show ?thesis by (simp add: buf_def)
qed

lemma serialize_deserialize:
  assumes "ac_state_deserialize s buf = (True, t)"
  shows "wf_state t" "small_state t" "st_chain_id s = st_chain_id t" "ac_state_serialize t = buf"
proof -
  let ?na = "ac_rd32 (drop 26 buf)" and ?nn = "ac_rd32 (drop 30 buf)"
  obtain acc pos nms where len: "34 \<le> length buf" and mag: "memcmp (take 17 buf) STATE_MAGIC = 0"
    and ver: "buf ! 17 = STATE_VERSION" and cid: "ac_rd64 (drop 18 buf) = st_chain_id s"
    and ra: "rd_accounts (unat ?na) buf 34 [] = Some (acc, pos)"
    and rn: "rd_names (unat ?nn) buf pos [] = Some (nms, length buf)"
    and t: "t = s\<lparr>st_accounts := acc, st_names := nms\<rparr>"
    using assms by (auto simp: ac_state_deserialize_def Let_def split: if_splits option.splits prod.splits)
  have a: "length acc = unat ?na" "list_all wf_account acc" "keyed acc_addr acc"
    "drop 34 buf = concat (map account_bytes acc) @ drop pos buf" "pos \<le> length buf"
    using rd_accounts_read [OF ra len] by auto
  have n: "length nms = unat ?nn" "list_all wf_state_name nms" "keyed sn_key nms"
    "drop pos buf = concat (map name_bytes nms)"
    using rd_names_read [OF rn a(5)] by auto
  show "wf_state t" using a n t by (simp add: wf_state_def)
  show "small_state t"
    using a(1) n(1) t unsigned_less [of ?na] unsigned_less [of ?nn] by (simp add: small_state_def)
  show "st_chain_id s = st_chain_id t" by (simp add: t)
  have "take 17 buf = STATE_MAGIC" using mag len by (simp add: memcmp_eq_iff)
  moreover have "take 8 (drop 18 buf) = ac_be64 (st_chain_id s)"
    using cid be64_rd64_take [of "drop 18 buf"] len by simp
  moreover have "take 4 (drop 26 buf) = ac_be32 ?na" "take 4 (drop 30 buf) = ac_be32 ?nn"
    using be32_rd32 [of "take 4 (drop 26 buf)"] be32_rd32 [of "take 4 (drop 30 buf)"] len by (simp_all add: ac_rd32_def)
  moreover have "buf = take 17 buf @ buf ! 17 # take 8 (drop 18 buf) @ take 4 (drop 26 buf) @
      take 4 (drop 30 buf) @ drop 34 buf"
  proof -
    have "buf = take 17 buf @ drop 17 buf" by simp
    also have "drop 17 buf = buf ! 17 # drop 18 buf" using len Cons_nth_drop_Suc [of 17 buf] by simp
    also have "drop 18 buf = take 8 (drop 18 buf) @ drop 26 buf" using append_take_drop_id [of 8 "drop 18 buf"] by simp
    also have "drop 26 buf = take 4 (drop 26 buf) @ drop 30 buf" using append_take_drop_id [of 4 "drop 26 buf"] by simp
    also have "drop 30 buf = take 4 (drop 30 buf) @ drop 34 buf" using append_take_drop_id [of 4 "drop 30 buf"] by simp
    finally show ?thesis .
  qed
  ultimately have "buf = STATE_MAGIC @ STATE_VERSION # ac_be64 (st_chain_id s) @ ac_be32 ?na @ ac_be32 ?nn @
      concat (map account_bytes acc) @ concat (map name_bytes nms)"
    using ver a(4) n(4) by simp
  then show "ac_state_serialize t = buf"
    using a(1) n(1) by (simp add: serialize_bytes t)
qed

section \<open>Properties of the state\<close>

text \<open>
  The sorted account array implements a finite map. Writing an account keeps the
  invariant (strictly sorted by address) and stores it at its address only; reading any address
  afterwards finds the new account, or the absent zero account if the one written was empty, and at
  every other address what was there before.
\<close>

theorem ac_state_get_after_set:
  assumes "wf_state s" "wf_account a" "wf_addr k"
  shows "wf_state (ac_state_set s a) \<and>
    ac_state_get (ac_state_set s a) k =
      (if k = acc_addr a then (\<not> account_is_empty a, a) else ac_state_get s k)"
  using assms ac_state_set_map [OF assms(1,2)] empty_zero_account [of a]
  by (auto simp: ac_state_get_map split: option.splits)

text \<open>A state with two accounts, for concrete runs.\<close>

definition demo_account :: "byte \<Rightarrow> u64 \<Rightarrow> u64 \<Rightarrow> ac_account" where
  "demo_account b balance stake =
     \<lparr>acc_addr = b # zeros 31, acc_balance = balance, acc_nonce = 0, acc_stake = stake, acc_unbond_at = 0\<rparr>"

definition demo_state :: ac_state where
  "demo_state = \<lparr>st_chain_id = 7,
     st_accounts = [demo_account 1 1000000 0, demo_account 2 5000 400], st_names = []\<rparr>"

lemma acc_addr_demo [simp]: "acc_addr (demo_account b x y) = b # zeros 31"
  by (simp add: demo_account_def)

lemma wf_demo_account: "wf_account (demo_account b x y)"
  by (simp add: demo_account_def wf)

lemma wf_demo_state: "wf_state demo_state"
  by (simp add: wf_state_def demo_state_def demo_account_def wf)

theorem ac_state_get_after_set_witness:
  "ac_state_get (ac_state_set demo_state (demo_account 3 7 0)) (3 # zeros 31) = (True, demo_account 3 7 0) \<and>
   ac_state_get (ac_state_set demo_state (demo_account 3 7 0)) (1 # zeros 31) = (True, demo_account 1 1000000 0)"
proof -
  have "ac_state_get demo_state (1 # zeros 31) = (True, demo_account 1 1000000 0)"
    by (subst ac_state_get_map)
      (simp_all add: wf_demo_state wf acct_map_def, simp add: demo_state_def demo_account_def)
  then show ?thesis
    using ac_state_get_after_set [OF wf_demo_state wf_demo_account, of "3 # zeros 31" 3 7 0]
      ac_state_get_after_set [OF wf_demo_state wf_demo_account, of "1 # zeros 31" 3 7 0]
    by (simp add: wf demo_account_def account_is_empty_def)
qed

text \<open>
  \<^verbatim>\<open>acc_lookup\<close> is a correct binary search on every well-formed state: a non-negative
  result is the index of the account with that address, and a negative one encodes the only position
  where the address can be inserted without breaking the order.
\<close>

theorem acc_lookup_correct:
  assumes "wf_state s" "wf_addr k"
  shows "(acc_lookup s k \<ge> 0 \<longrightarrow> nat (acc_lookup s k) < length (st_accounts s) \<and>
            acc_addr (st_accounts s ! nat (acc_lookup s k)) = k) \<and>
    (acc_lookup s k < 0 \<longrightarrow> k \<notin> acc_addr ` set (st_accounts s) \<and>
       (\<forall>a. acc_addr a = k \<longrightarrow> keyed acc_addr (insert_at (nat (- acc_lookup s k - 1)) a (st_accounts s))))"
proof -
  have k: "keyed acc_addr (st_accounts s)" using assms(1) by (simp add: wf_state_def)
  note ok = acc_lookup_ok [OF assms]
  have "k \<notin> acc_addr ` set (st_accounts s)" if "gap acc_addr k (st_accounts s) p" for p
    using gap_None [OF that] unfolding amap_None_iff by auto
  then show ?thesis
    using ok keyed_insert(1) [OF k] by (auto simp: search_ok_def)
qed

theorem acc_lookup_correct_witness:
  "acc_lookup demo_state (2 # zeros 31) = 1 \<and> acc_addr (st_accounts demo_state ! 1) = 2 # zeros 31 \<and>
   acc_lookup demo_state (3 # zeros 31) = - 3 \<and>
   3 # zeros 31 \<notin> acc_addr ` set (st_accounts demo_state)"
proof -
  have "acc_lookup demo_state (2 # zeros 31) = 1" "acc_lookup demo_state (3 # zeros 31) = - 3"
    by (simp_all add: acc_lookup_def demo_state_def bsearch.simps ac_addr_cmp_def)
  then show ?thesis
    using acc_lookup_correct [OF wf_demo_state, of "2 # zeros 31"]
      acc_lookup_correct [OF wf_demo_state, of "3 # zeros 31"] by (simp add: wf)
qed

text \<open>
  The state does not remember its history: two well-formed states of the same chain that
  store no empty account and answer every account read and every name lookup alike are equal, so
  they have the same root and the same snapshot, whatever order of writes led to them.
\<close>

theorem ac_state_extensional:
  assumes "wf_state s" "wf_state t" "no_empty s" "no_empty t" "st_chain_id s = st_chain_id t"
    and "\<And>k. wf_addr k \<Longrightarrow> snd (ac_state_get s k) = snd (ac_state_get t k)"
    and "\<And>n. ac_state_name_lookup s n (length n) = ac_state_name_lookup t n (length n)"
  shows "s = t"
proof -
  have "acct_map s k = acct_map t k" for k
    using acct_map_get [OF assms(1,3)] acct_map_get [OF assms(2,4)] assms(6) acct_map_wf [OF assms(1)]
      acct_map_wf [OF assms(2)] by (cases "wf_addr k") simp_all
  then have a: "st_accounts s = st_accounts t"
    using assms(1,2) by (intro keyed_unique) (auto simp: wf_state_def acct_map_def)
  have names: "map_option sn_addr (name_map s n) = map_option sn_addr (name_map t n)" for n
    using assms(7) [of n] ac_state_name_lookup_map [OF assms(1), of "length n" n]
      ac_state_name_lookup_map [OF assms(2), of "length n" n] by simp
  have entry: "x = y" if "x \<in> set (st_names s)" "y \<in> set (st_names t)" "sn_key x = sn_key y" "sn_addr x = sn_addr y" for x y
  proof -
    have w: "wf_state_name x" "wf_state_name y" using that assms(1,2) by (auto simp: wf_state_def list_all_iff)
    note l = wf_state_name_len [OF w(1)] wf_state_name_len [OF w(2)]
    have "sn_len x = sn_len y" using l(1,6) that(3) by (metis word_unat_eq_iff)
    then show ?thesis using l(5,10) that by (metis state_name.equality unit.exhaust)
  qed
  have "name_map s n = name_map t n" for n
    using names [of n] entry
    by (cases "name_map s n"; cases "name_map t n") (auto simp: name_map_def dest!: amap_SomeD)
  then have "st_names s = st_names t" using name_map_names [OF assms(1,2)] by blast
  then show ?thesis using a assms(5) by (cases s; cases t) simp
qed

theorem ac_state_extensional_witness:
  "ac_state_set (ac_state_set demo_state (demo_account 3 7 0)) (demo_account 4 8 0) =
   ac_state_set (ac_state_set demo_state (demo_account 4 8 0)) (demo_account 3 7 0)"
proof (rule ac_state_extensional)
  let ?a = "demo_account 3 7 0" and ?b = "demo_account 4 8 0"
  have ne: "no_empty demo_state"
    by (simp add: no_empty_def demo_state_def demo_account_def account_is_empty_def)
  note w = st.inv_put [OF wf_demo_state wf_demo_account]
  show "wf_state (ac_state_set (ac_state_set demo_state ?a) ?b)"
    "wf_state (ac_state_set (ac_state_set demo_state ?b) ?a)"
    by (intro st.inv_put wf_demo_account wf_demo_state)+
  show "no_empty (ac_state_set (ac_state_set demo_state ?a) ?b)"
    "no_empty (ac_state_set (ac_state_set demo_state ?b) ?a)"
    by (intro ac_state_set_no_empty ne)+
  show "snd (ac_state_get (ac_state_set (ac_state_set demo_state ?a) ?b) k) =
      snd (ac_state_get (ac_state_set (ac_state_set demo_state ?b) ?a) k)" if "wf_addr k" for k
    using that by (simp add: ac_state_get_set w wf_demo_account wf_demo_state wf_addr_def)
qed (simp_all add: ac_state_name_lookup_def name_lookup_index_def Let_def)

text \<open>
  Names are registered once and for good: registration succeeds exactly for a valid name
  that is free; it changes nothing but the registry, keeps the invariant, makes the name resolve to
  the registrant and leaves every other name as it was.
\<close>

theorem ac_state_name_register_spec:
  assumes "wf_state s" "wf_addr addr" "nlen \<le> length name"
  shows "(ac_state_name_register s name nlen addr = None \<longleftrightarrow>
      \<not> ac_name_valid name nlen \<or> ac_state_name_lookup s name nlen \<noteq> None) \<and>
    (\<forall>s'. ac_state_name_register s name nlen addr = Some s' \<longrightarrow>
       wf_state s' \<and> s' = s\<lparr>st_names := st_names s'\<rparr> \<and>
       (\<forall>n l. l \<le> length n \<longrightarrow> ac_state_name_lookup s' n l =
          (if take l n = take nlen name then Some addr else ac_state_name_lookup s n l)))"
proof -
  note reg = ac_state_name_register_map [OF assms]
  have "ac_state_name_lookup s' n l =
      (if take l n = take nlen name then Some addr else ac_state_name_lookup s n l)"
    if r: "ac_state_name_register s name nlen addr = Some s'" and l: "l \<le> length n" for s' n l
    using reg(4) [OF r] ac_state_name_lookup_map [OF assms(1) l] ac_state_name_lookup_map [OF reg(2) [OF r] l]
    by auto
  then show ?thesis
    using reg ac_state_name_lookup_map [OF assms(1,3)] by auto
qed

theorem ac_state_name_register_spec_witness:
  "case ac_state_name_register demo_state (cstr ''bob'') 3 (1 # zeros 31) of
     None \<Rightarrow> False
   | Some s' \<Rightarrow> ac_state_name_lookup s' (cstr ''bob'') 3 = Some (1 # zeros 31) \<and>
       ac_state_name_lookup s' (cstr ''al'') 2 = None"
proof -
  have "ac_state_name_lookup demo_state (cstr ''bob'') 3 = None"
    "ac_state_name_lookup demo_state (cstr ''al'') 2 = None" "ac_name_valid (cstr ''bob'') 3"
    "cstr ''al'' \<noteq> cstr ''bob''"
    by (simp_all add: ac_state_name_lookup_def name_lookup_index_def demo_state_def bsearch.simps
        ac_name_valid_def cstr_def name_char_ok_def)
  then show ?thesis
    using ac_state_name_register_spec [OF wf_demo_state, of "1 # zeros 31" 3 "cstr ''bob''"]
    by (auto simp: wf split: option.split)
qed

text \<open>
  Claim C28. The snapshot format is exact: \<^verbatim>\<open>ac_state_deserialize\<close> reports success with state \<open>t\<close> if
  and only if \<open>t\<close> is a well-formed state of the same chain with fewer than $2^{32}$ accounts and
  names and the buffer is precisely \<^verbatim>\<open>ac_state_serialize\<close> of \<open>t\<close>. So a saved state is restored
  unchanged, and a truncated, extended, reordered or foreign snapshot is refused.
\<close>

theorem ac_state_deserialize_iff:
  "ac_state_deserialize s buf = (True, t) \<longleftrightarrow>
     wf_state t \<and> small_state t \<and> st_chain_id s = st_chain_id t \<and> ac_state_serialize t = buf"
  using deserialize_serialize serialize_deserialize by blast

text \<open>
  The state root is binding among states with the same number of accounts: if the hash
  function does not collide on the two hashed strings, equal roots mean equal accounts and equal
  names.
\<close>

theorem ac_state_root_binding:
  assumes "wf_state s" "wf_state t" "length (st_accounts s) = length (st_accounts t)"
    and "inj_on (crypto_generichash S) {root_preimage s, root_preimage t}"
    and "ac_state_root S s = ac_state_root S t"
  shows "st_accounts s = st_accounts t \<and> st_names s = st_names t"
proof -
  have "root_preimage s = root_preimage t"
    by (rule inj_onD [OF assms(4) assms(5) [unfolded ac_state_root_eq]]) simp_all
  then show ?thesis by (rule root_preimage_inj [OF assms(1-3)])
qed

theorem ac_state_root_binding_witness:
  "ac_state_root demo_sodium (demo_state\<lparr>st_chain_id := 8\<rparr>) = ac_state_root demo_sodium demo_state \<and>
   st_accounts (demo_state\<lparr>st_chain_id := 8\<rparr>) = st_accounts demo_state"
proof -
  have r: "root_preimage (demo_state\<lparr>st_chain_id := 8\<rparr>) = root_preimage demo_state"
    by (simp add: root_preimage_def)
  have w: "wf_state (demo_state\<lparr>st_chain_id := 8\<rparr>)"
    using wf_demo_state by (simp add: wf_state_def)
  show ?thesis
    using ac_state_root_binding [OF w wf_demo_state, of demo_sodium] r by (simp add: ac_state_root_eq)
qed

text \<open>A pair of states for the next theorem.\<close>

definition ambiguous_name :: state_name where
  "ambiguous_name = \<lparr>sn_len = 31, sn_name = replicate 31 97 @ [0], sn_addr = replicate 32 255\<rparr>"

definition ambiguous_account :: ac_account where
  "ambiguous_account = rd_account (255 # name_bytes ambiguous_name) 0"

lemma ambiguous_preimage: "255 # name_bytes ambiguous_name = 255 # 31 # replicate 31 97 @ replicate 32 255"
  by (simp add: name_bytes_def sn_key_def ambiguous_name_def)

lemma ambiguous_bytes: "account_bytes ambiguous_account @ [255] = 255 # name_bytes ambiguous_name"
proof -
  have "replicate 32 255 = replicate 31 255 @ [255 :: byte]"
    by (simp flip: replicate_Suc add: replicate_append_same)
  then show ?thesis
    unfolding ambiguous_account_def ambiguous_preimage
    by (subst account_bytes_rd(1)) simp_all
qed

lemma ambiguous_wf: "wf_account ambiguous_account" "\<not> account_is_empty ambiguous_account" "wf_state_name ambiguous_name"
proof -
  show "wf_account ambiguous_account"
    unfolding ambiguous_account_def ambiguous_preimage by (rule account_bytes_rd(2)) simp
  have "acc_unbond_at ambiguous_account = ac_rd64 (replicate 9 255)"
    unfolding ambiguous_account_def ambiguous_preimage by (simp add: rd_account_def)
  then show "\<not> account_is_empty ambiguous_account"
    by (simp add: account_is_empty_def ac_rd64_def)
  show "wf_state_name ambiguous_name"
    by (simp add: wf_state_name_def ambiguous_name_def wf ac_name_valid_def list_all_iff)
      (simp add: name_char_ok_def zeros_def)
qed

text \<open>
  Between states with different numbers of accounts the root is ambiguous, for every hash
  function: the number of accounts is not hashed and the separator \<^verbatim>\<open>0xFF\<close> is a possible first byte
  of an address. A registry of one 31-character name whose owner's address ends in \<^verbatim>\<open>0xFF\<close> and a
  single account whose address starts with \<^verbatim>\<open>0xFF\<close> give the same hashed string.
\<close>

theorem ac_state_root_ambiguous:
  "\<exists>s t. wf_state s \<and> wf_state t \<and> no_empty s \<and> no_empty t \<and> st_chain_id s = st_chain_id t \<and>
     st_accounts s \<noteq> st_accounts t \<and> st_names s \<noteq> st_names t \<and>
     (\<forall>S. ac_state_root S s = ac_state_root S t)"
proof -
  let ?s = "\<lparr>st_chain_id = 7, st_accounts = [], st_names = [ambiguous_name]\<rparr>"
  let ?t = "\<lparr>st_chain_id = 7, st_accounts = [ambiguous_account], st_names = []\<rparr>"
  have "root_preimage ?s = root_preimage ?t"
    using ambiguous_bytes by (simp add: root_preimage_def)
  then show ?thesis
    by (intro exI [of _ ?s] exI [of _ ?t]) (simp add: ambiguous_wf ac_state_root_eq no_empty_def wf_state_def)
qed

end
