(* ===== verification/Apply.thy ===== *)
theory Apply
  imports State
begin

text \<open>
  The transition function \<^verbatim>\<open>ac_state_apply_tx\<close> of \<^verbatim>\<open>state.c\<close>. It is split where the source has its
  phases: \<open>apply_check\<close> (the checks whose failure leaves the state alone), one function per case of the
  switch on the kind, working on the local copy of the sender and on the state, and \<open>apply_charge\<close>
  (fees, and writing the sender back last). All amounts are 64-bit words, so every wrap of the source
  is a wrap of the model. The properties account for every unit of the money supply, including the
  cases where the source loses or creates some.
\<close>

section \<open>Results\<close>

record ac_apply_result =
  ar_ok :: bool
  ar_gas_used :: u64
  ar_fee_burned :: u64
  ar_fee_tip :: u64
  ar_err :: string

definition result_zero :: ac_apply_result where
  "result_zero = \<lparr>ar_ok = False, ar_gas_used = 0, ar_fee_burned = 0, ar_fee_tip = 0, ar_err = ''''\<rparr>"

definition result_set_err :: "ac_apply_result \<Rightarrow> string \<Rightarrow> ac_apply_result" where
  "result_set_err r msg = r\<lparr>ar_ok := False, ar_err := take 63 msg\<rparr>"

definition AC_EPOCH_SLOTS :: u64 where "AC_EPOCH_SLOTS = 7200"
definition NAME_FEE :: u64 where "NAME_FEE = 1000000"

text \<open>\<^verbatim>\<open>tx->body, tx->body_len\<close> as a buffer.\<close>

definition tx_body_buf :: "ac_tx \<Rightarrow> bytes" where
  "tx_body_buf tx = take (unat (tx_body_len tx)) (tx_body tx)"

section \<open>Checks\<close>

definition apply_needed_gas :: "ac_tx \<Rightarrow> u64" where
  "apply_needed_gas tx = word_of_int (ac_tx_intrinsic_gas (tx_kind tx)) + ucast (tx_memo_len tx)"

definition apply_max_fee :: "ac_tx \<Rightarrow> u64 \<Rightarrow> u64" where
  "apply_max_fee tx base_fee = ucast (tx_gas_limit tx) * (base_fee + tx_tip tx)"

definition apply_check :: "ac_state \<Rightarrow> ac_tx \<Rightarrow> u64 \<Rightarrow> u64 \<Rightarrow> string option" where
  "apply_check s tx slot base_fee =
     (if tx_version tx \<noteq> AC_TX_VERSION then Some ''bad version''
      else if tx_chain_id tx \<noteq> st_chain_id s then Some ''wrong chain_id''
      else if slot \<ge> tx_valid_until tx then Some ''expired''
      else let sender = snd (ac_state_get s (tx_sender tx)) in
        if tx_nonce tx \<noteq> acc_nonce sender then Some ''bad nonce''
        else if ac_tx_intrinsic_gas (tx_kind tx) < 0 then Some ''unknown kind''
        else if ucast (tx_gas_limit tx) < apply_needed_gas tx then Some ''gas limit too low''
        else let per_gas = base_fee + tx_tip tx in
          if per_gas \<noteq> 0 \<and> ucast (tx_gas_limit tx) > UINT64_MAX div per_gas then Some ''fee overflow''
          else let max_fee = apply_max_fee tx base_fee;
                   body = ac_body_transfer_decode (tx_body_buf tx)
            in if tx_kind tx = AC_TX_TRANSFER \<and> body = None then Some ''bad body''
               else let value = (if tx_kind tx = AC_TX_TRANSFER then bt_amount (the body) else 0)
                 in if max_fee > UINT64_MAX - value \<or> acc_balance sender < max_fee + value
                    then Some ''insufficient balance'' else None)"

section \<open>Bodies\<close>

text \<open>What the switch leaves: the state, the local sender, the gas, the burned name fee, the error.\<close>

record body_out =
  bo_state :: ac_state
  bo_sender :: ac_account
  bo_charged :: u64
  bo_burned :: u64
  bo_err :: "string option"

definition body_fail :: "ac_state \<Rightarrow> ac_account \<Rightarrow> u64 \<Rightarrow> string \<Rightarrow> body_out" where
  "body_fail s sender gas msg =
     \<lparr>bo_state = s, bo_sender = sender, bo_charged = gas, bo_burned = 0, bo_err = Some msg\<rparr>"

definition body_done :: "ac_state \<Rightarrow> ac_account \<Rightarrow> u64 \<Rightarrow> u64 \<Rightarrow> body_out" where
  "body_done s sender gas burned =
     \<lparr>bo_state = s, bo_sender = sender, bo_charged = gas, bo_burned = burned, bo_err = None\<rparr>"

definition apply_transfer :: "ac_state \<Rightarrow> ac_tx \<Rightarrow> ac_account \<Rightarrow> u64 \<Rightarrow> body_out" where
  "apply_transfer s tx sender gas =
     (let b = the (ac_body_transfer_decode (tx_body_buf tx));
          (exists, rcv) = ac_state_get s (bt_recipient b);
          new_acc_cost = (if \<not> exists then 50 else 0);
          charged = gas + new_acc_cost
      in if charged > ucast (tx_gas_limit tx) then body_fail s sender charged ''out of gas''
         else body_done
           (ac_state_set s (rcv\<lparr>acc_addr := bt_recipient b, acc_balance := acc_balance rcv + bt_amount b\<rparr>))
           (sender\<lparr>acc_balance := acc_balance sender - bt_amount b\<rparr>) charged 0)"

definition apply_bond :: "ac_state \<Rightarrow> ac_tx \<Rightarrow> ac_account \<Rightarrow> u64 \<Rightarrow> body_out" where
  "apply_bond s tx sender gas =
     (case ac_body_stake_decode (tx_body_buf tx) of
        None \<Rightarrow> body_fail s sender gas ''bad body''
      | Some b \<Rightarrow>
        if acc_balance sender < bs_amount b then body_fail s sender gas ''insufficient''
        else body_done s (sender\<lparr>acc_balance := acc_balance sender - bs_amount b,
                                 acc_stake := acc_stake sender + bs_amount b\<rparr>) gas 0)"

definition apply_unbond :: "ac_state \<Rightarrow> ac_tx \<Rightarrow> u64 \<Rightarrow> ac_account \<Rightarrow> u64 \<Rightarrow> body_out" where
  "apply_unbond s tx slot sender gas =
     (case ac_body_stake_decode (tx_body_buf tx) of
        None \<Rightarrow> body_fail s sender gas ''bad body''
      | Some b \<Rightarrow>
        if acc_stake sender < bs_amount b then body_fail s sender gas ''insufficient stake''
        else body_done s (sender\<lparr>acc_stake := acc_stake sender - bs_amount b,
                                 acc_balance := acc_balance sender + bs_amount b,
                                 acc_unbond_at := (if acc_unbond_at sender = 0
                                   then slot + AC_EPOCH_SLOTS * 6 div 24 else acc_unbond_at sender)\<rparr>) gas 0)"

definition apply_name :: "ac_state \<Rightarrow> ac_tx \<Rightarrow> ac_account \<Rightarrow> u64 \<Rightarrow> body_out" where
  "apply_name s tx sender gas =
     (case ac_body_name_decode (zeros 32) (tx_body_buf tx) of
        None \<Rightarrow> body_fail s sender gas ''bad name''
      | Some b \<Rightarrow>
        if acc_balance sender < NAME_FEE then body_fail s sender gas ''fee''
        else let sender = sender\<lparr>acc_balance := acc_balance sender - NAME_FEE\<rparr>
          in case ac_state_name_register s (bn_name b) (unat (bn_name_len b)) (tx_sender tx) of
               None \<Rightarrow> body_fail s (sender\<lparr>acc_balance := acc_balance sender + NAME_FEE\<rparr>) gas ''name taken''
             | Some s' \<Rightarrow> body_done s' sender gas NAME_FEE)"

definition apply_slash :: "sodium \<Rightarrow> ac_state \<Rightarrow> ac_tx \<Rightarrow> ac_account \<Rightarrow> u64 \<Rightarrow> body_out" where
  "apply_slash S s tx sender gas =
     (case ac_body_slash_decode (tx_body_buf tx) of
        None \<Rightarrow> body_fail s sender gas ''bad evidence''
      | Some b \<Rightarrow>
        if ac_hash_eq (sl_block_hash_a b) (sl_block_hash_b b)
        then body_fail s sender gas ''non-conflicting evidence''
        else if \<not> ac_verify S (sl_sig_a b) (ac_vote_message (sl_height b) (sl_block_hash_a b)) (sl_validator b) \<or>
                \<not> ac_verify S (sl_sig_b b) (ac_vote_message (sl_height b) (sl_block_hash_b b)) (sl_validator b)
        then body_fail s sender gas ''bad signatures''
        else let v = snd (ac_state_get s (sl_validator b)) in
          if acc_stake v = 0 then body_fail s sender gas ''no stake''
          else let reward = acc_stake v div 2
            in body_done (ac_state_set s (v\<lparr>acc_stake := 0\<rparr>))
                 (sender\<lparr>acc_balance := acc_balance sender + reward\<rparr>) gas 0)"

definition apply_body :: "sodium \<Rightarrow> ac_state \<Rightarrow> ac_tx \<Rightarrow> u64 \<Rightarrow> ac_account \<Rightarrow> u64 \<Rightarrow> body_out" where
  "apply_body S s tx slot sender gas =
     (if tx_kind tx = AC_TX_TRANSFER then apply_transfer s tx sender gas
      else if tx_kind tx = AC_TX_STAKE_BOND then apply_bond s tx sender gas
      else if tx_kind tx = AC_TX_STAKE_UNBOND then apply_unbond s tx slot sender gas
      else if tx_kind tx = AC_TX_REGISTER_NAME then apply_name s tx sender gas
      else if tx_kind tx = AC_TX_SLASH_EVIDENCE then apply_slash S s tx sender gas
      else body_fail s sender gas ''unknown kind'')"

section \<open>Charging and writing back\<close>

definition apply_charge :: "ac_tx \<Rightarrow> u64 \<Rightarrow> body_out \<Rightarrow> int \<times> ac_apply_result \<times> ac_state" where
  "apply_charge tx base_fee b =
     (let actual_gas = (if bo_charged b > ucast (tx_gas_limit tx) then ucast (tx_gas_limit tx) else bo_charged b);
          fee_burned = actual_gas * base_fee;
          fee_tip = actual_gas * tx_tip tx;
          sender = bo_sender b;
          balance = (if acc_balance sender < fee_burned + fee_tip then
                       (let total = fee_burned + fee_tip;
                            total = (if total > acc_balance sender then acc_balance sender else total)
                        in acc_balance sender - total)
                     else acc_balance sender - (fee_burned + fee_tip));
          r = result_zero\<lparr>ar_gas_used := actual_gas, ar_fee_burned := bo_burned b + fee_burned,
                           ar_fee_tip := fee_tip\<rparr>;
          s' = ac_state_set (bo_state b) (sender\<lparr>acc_balance := balance, acc_addr := tx_sender tx\<rparr>)
      in case bo_err b of
           Some msg \<Rightarrow> (1, result_set_err r msg, s')
         | None \<Rightarrow> (0, r\<lparr>ar_ok := True\<rparr>, s'))"

definition ac_state_apply_tx ::
  "sodium \<Rightarrow> ac_state \<Rightarrow> ac_tx \<Rightarrow> u64 \<Rightarrow> u64 \<Rightarrow> int \<times> ac_apply_result \<times> ac_state" where
  "ac_state_apply_tx S s tx slot base_fee =
     (case apply_check s tx slot base_fee of
        Some msg \<Rightarrow> (-1, result_set_err result_zero msg, s)
      | None \<Rightarrow>
        let sender = snd (ac_state_get s (tx_sender tx));
            sender = sender\<lparr>acc_nonce := acc_nonce sender + 1\<rparr>
        in apply_charge tx base_fee (apply_body S s tx slot sender (apply_needed_gas tx)))"

section \<open>What the checks give\<close>

lemma apply_check_common:
  assumes "apply_check s tx slot base_fee = None"
  shows "tx_version tx = 1" "tx_chain_id tx = st_chain_id s" "slot < tx_valid_until tx"
    "tx_nonce tx = acc_nonce (snd (ac_state_get s (tx_sender tx)))" "ac_tx_intrinsic_gas (tx_kind tx) \<ge> 0"
    "apply_needed_gas tx \<le> ucast (tx_gas_limit tx)"
    "base_fee + tx_tip tx = 0 \<or> ucast (tx_gas_limit tx) \<le> UINT64_MAX div (base_fee + tx_tip tx)"
  using assms by (auto simp: apply_check_def Let_def not_less not_le split: if_splits)

lemma apply_check_value:
  assumes "apply_check s tx slot base_fee = None"
  shows "tx_kind tx = 1 \<Longrightarrow> \<exists>b. ac_body_transfer_decode (tx_body_buf tx) = Some b \<and>
      unat (apply_max_fee tx base_fee) + unat (bt_amount b) \<le> unat (acc_balance (snd (ac_state_get s (tx_sender tx))))"
    "apply_max_fee tx base_fee \<le> acc_balance (snd (ac_state_get s (tx_sender tx)))"
proof -
  let ?bal = "acc_balance (snd (ac_state_get s (tx_sender tx)))" and ?fee = "apply_max_fee tx base_fee"
  let ?v = "if tx_kind tx = 1 then bt_amount (the (ac_body_transfer_decode (tx_body_buf tx))) else 0"
  have c: "?fee \<le> UINT64_MAX - ?v" "?fee + ?v \<le> ?bal"
    and b: "tx_kind tx = 1 \<Longrightarrow> ac_body_transfer_decode (tx_body_buf tx) \<noteq> None"
    using assms by (auto simp: apply_check_def Let_def not_less not_le split: if_splits)
  have sum: "unat ?fee + unat ?v \<le> unat ?bal"
    using c u64_le_max_diff [of ?fee ?v] unat_add_nowrap [of ?fee ?v] by (simp add: word_le_nat_alt)
  then show "?fee \<le> ?bal" by (simp add: word_le_nat_alt)
  show "tx_kind tx = 1 \<Longrightarrow> \<exists>b. ac_body_transfer_decode (tx_body_buf tx) = Some b \<and>
      unat ?fee + unat (bt_amount b) \<le> unat ?bal"
    using b sum by auto
qed

lemma apply_fee_nowrap:
  assumes "apply_check s tx slot base_fee = None" "unat base_fee + unat (tx_tip tx) < 2 ^ 64"
    and "gas \<le> ucast (tx_gas_limit tx)"
  shows "unat (gas * base_fee) = unat gas * unat base_fee" "unat (gas * tx_tip tx) = unat gas * unat (tx_tip tx)"
    "unat (gas * base_fee + gas * tx_tip tx) = unat (gas * base_fee) + unat (gas * tx_tip tx)"
    "unat (gas * base_fee + gas * tx_tip tx) \<le> unat (apply_max_fee tx base_fee)"
proof -
  let ?p = "base_fee + tx_tip tx" and ?g = "ucast (tx_gas_limit tx) :: u64"
  have p: "unat ?p = unat base_fee + unat (tx_tip tx)" by (rule unat_add_nowrap [OF assms(2)])
  have lim: "unat ?g * unat ?p < 2 ^ 64"
    using apply_check_common(7) [OF assms(1)] u64_le_max_div [of ?p ?g] by (cases "?p = 0") auto
  have le: "unat gas * unat ?p \<le> unat ?g * unat ?p"
    using assms(3) by (simp add: word_le_nat_alt)
  then have g: "unat gas * unat base_fee + unat gas * unat (tx_tip tx) < 2 ^ 64"
    using lim by (simp add: p distrib_left)
  show a: "unat (gas * base_fee) = unat gas * unat base_fee"
    using g by (intro unat_mult_nowrap) linarith
  show b: "unat (gas * tx_tip tx) = unat gas * unat (tx_tip tx)"
    using g by (intro unat_mult_nowrap) linarith
  show c: "unat (gas * base_fee + gas * tx_tip tx) = unat (gas * base_fee) + unat (gas * tx_tip tx)"
    using g by (intro unat_add_nowrap) (simp only: a b)
  have "unat (apply_max_fee tx base_fee) = unat ?g * unat ?p"
    unfolding apply_max_fee_def by (rule unat_mult_nowrap [OF lim])
  then show "unat (gas * base_fee + gas * tx_tip tx) \<le> unat (apply_max_fee tx base_fee)"
    using le by (simp add: c a b p distrib_left)
qed

section \<open>What the bodies do\<close>

text \<open>The account besides the sender's that a transaction may write.\<close>

definition tx_target :: "ac_tx \<Rightarrow> ac_addr option" where
  "tx_target tx =
     (if tx_kind tx = AC_TX_TRANSFER then map_option bt_recipient (ac_body_transfer_decode (tx_body_buf tx))
      else if tx_kind tx = AC_TX_SLASH_EVIDENCE then map_option sl_validator (ac_body_slash_decode (tx_body_buf tx))
      else None)"

lemma transfer_wf: "ac_body_transfer_decode b = Some x \<Longrightarrow> wf_addr (bt_recipient x)"
  using transfer.dec_good by (simp add: wf_transfer_def)

lemma slash_wf:
  "ac_body_slash_decode b = Some x \<Longrightarrow> wf_addr (sl_validator x)"
  "ac_body_slash_decode b = Some x \<Longrightarrow> wf_hash (sl_block_hash_a x)"
  "ac_body_slash_decode b = Some x \<Longrightarrow> wf_hash (sl_block_hash_b x)"
  using slash.dec_good by (simp_all add: wf_slash_def)

lemma name_decode_len: "ac_body_name_decode (zeros 32) b = Some x \<Longrightarrow> unat (bn_name_len x) \<le> length (bn_name x)"
  using name_decode_shape(1,3) name_valid_bounds by (metis length_zeros)

lemmas body_defs = body_fail_def body_done_def apply_transfer_def apply_bond_def apply_unbond_def
  apply_name_def apply_slash_def

lemma apply_body_sender:
  "acc_addr (bo_sender (apply_body S s tx slot sender gas)) = acc_addr sender"
  "acc_nonce (bo_sender (apply_body S s tx slot sender gas)) = acc_nonce sender"
  by (auto simp: apply_body_def body_defs Let_def split: option.splits prod.splits)

lemma apply_body_cases:
  assumes "wf_state s" "apply_check s tx slot' base_fee = None" "b = apply_body S s tx slot sender gas"
  obtains (same) "bo_state b = s"
    | (acct) a where "wf_account a" "tx_target tx = Some (acc_addr a)" "bo_state b = ac_state_set s a" "bo_err b = None"
    | (name) n l where "tx_kind tx = 4" "ac_state_name_register s n l (tx_sender tx) = Some (bo_state b)" "l \<le> length n"
proof -
  consider (t) "tx_kind tx = 1" | (n) "tx_kind tx = 4" | (v) "tx_kind tx = 5" | (o) "tx_kind tx \<notin> {1, 4, 5}" by auto
  then show ?thesis
  proof cases
    case t
    obtain x where x: "ac_body_transfer_decode (tx_body_buf tx) = Some x"
      using apply_check_value(1) [OF assms(2)] t by auto
    show ?thesis
      using acct [of "(snd (ac_state_get s (bt_recipient x)))\<lparr>acc_addr := bt_recipient x,
          acc_balance := acc_balance (snd (ac_state_get s (bt_recipient x))) + bt_amount x\<rparr>"] same assms(3) t x transfer_wf [OF x]
      by (auto simp: apply_body_def body_defs tx_target_def wf_account_def Let_def split: prod.splits if_splits)
  next
    case n
    then show ?thesis
      using name same assms(3) name_decode_len [of "tx_body_buf tx"]
      by (auto simp: apply_body_def body_defs Let_def split: option.splits if_splits)
  next
    case v
    show ?thesis
    proof (cases "ac_body_slash_decode (tx_body_buf tx)")
      case (Some x)
      have "acc_addr (snd (ac_state_get s (sl_validator x))) = sl_validator x"
        using ac_state_get_addr [OF assms(1) slash_wf(1) [OF Some]] .
      then show ?thesis
        using acct [of "(snd (ac_state_get s (sl_validator x)))\<lparr>acc_stake := 0\<rparr>"] same assms(3) v Some slash_wf(1) [OF Some]
        by (auto simp: apply_body_def body_defs tx_target_def wf_account_def Let_def split: if_splits)
    qed (use same assms(3) v in \<open>simp add: apply_body_def body_defs\<close>)
  next
    case o
    then show ?thesis
      using same assms(3) by (auto simp: apply_body_def body_defs Let_def split: option.splits if_splits)
  qed
qed

lemma get_names_irrelevant: "ac_state_get (s\<lparr>st_names := x\<rparr>) k = ac_state_get s k"
  by (simp add: ac_state_get_def acc_lookup_def Let_def)

lemma apply_body_state:
  assumes "wf_state s" "wf_addr (tx_sender tx)" "apply_check s tx slot' base_fee = None"
    and "b = apply_body S s tx slot sender gas"
  shows "wf_state (bo_state b)" "st_chain_id (bo_state b) = st_chain_id s"
    "tx_kind tx \<noteq> 4 \<Longrightarrow> st_names (bo_state b) = st_names s"
    "wf_addr k \<Longrightarrow> tx_target tx \<noteq> Some k \<Longrightarrow> ac_state_get (bo_state b) k = ac_state_get s k"
proof -
  have "wf_state (bo_state b) \<and> st_chain_id (bo_state b) = st_chain_id s \<and>
      (tx_kind tx \<noteq> 4 \<longrightarrow> st_names (bo_state b) = st_names s) \<and>
      (wf_addr k \<longrightarrow> tx_target tx \<noteq> Some k \<longrightarrow> ac_state_get (bo_state b) k = ac_state_get s k)"
    using assms(1,3,4)
  proof (cases rule: apply_body_cases)
    case (acct a)
    then show ?thesis
      using ac_state_set_map [OF assms(1) acct(1)] assms(1) by (auto simp: ac_state_get_map)
  next
    case (name n l)
    note reg = ac_state_name_register_map [OF assms(1,2) name(3)]
    obtain x where "bo_state b = s\<lparr>st_names := x\<rparr>" using reg(3) [OF name(2)] by blast
    then show ?thesis using reg(2) [OF name(2)] name(1) by (simp add: get_names_irrelevant)
  qed (use assms(1) in simp_all)
  then show "wf_state (bo_state b)" "st_chain_id (bo_state b) = st_chain_id s"
    "tx_kind tx \<noteq> 4 \<Longrightarrow> st_names (bo_state b) = st_names s"
    "wf_addr k \<Longrightarrow> tx_target tx \<noteq> Some k \<Longrightarrow> ac_state_get (bo_state b) k = ac_state_get s k"
    by blast+
qed

section \<open>Included transactions\<close>

definition charged_gas :: "ac_tx \<Rightarrow> body_out \<Rightarrow> u64" where
  "charged_gas tx b = (if bo_charged b > ucast (tx_gas_limit tx) then ucast (tx_gas_limit tx) else bo_charged b)"

definition final_sender :: "ac_tx \<Rightarrow> u64 \<Rightarrow> body_out \<Rightarrow> ac_account" where
  "final_sender tx base_fee b =
     (let fee = charged_gas tx b * base_fee + charged_gas tx b * tx_tip tx
      in (bo_sender b)\<lparr>acc_balance := (if acc_balance (bo_sender b) < fee then 0 else acc_balance (bo_sender b) - fee),
                       acc_addr := tx_sender tx\<rparr>)"

lemma apply_charge_eq:
  "apply_charge tx base_fee b =
     (let r = result_zero\<lparr>ar_gas_used := charged_gas tx b,
                ar_fee_burned := bo_burned b + charged_gas tx b * base_fee,
                ar_fee_tip := charged_gas tx b * tx_tip tx\<rparr>;
          s' = ac_state_set (bo_state b) (final_sender tx base_fee b)
      in case bo_err b of Some msg \<Rightarrow> (1, result_set_err r msg, s') | None \<Rightarrow> (0, r\<lparr>ar_ok := True\<rparr>, s'))"
  by (auto simp: apply_charge_def charged_gas_def final_sender_def Let_def split: option.splits)

lemma charged_gas_le: "charged_gas tx b \<le> ucast (tx_gas_limit tx)"
  by (simp add: charged_gas_def not_less)

definition nonced :: "ac_account \<Rightarrow> ac_account" where
  "nonced a = a\<lparr>acc_nonce := acc_nonce a + 1\<rparr>"

lemma nonced_fields [simp]:
  "acc_addr (nonced a) = acc_addr a" "acc_balance (nonced a) = acc_balance a"
  "acc_stake (nonced a) = acc_stake a" "acc_nonce (nonced a) = acc_nonce a + 1"
  by (simp_all add: nonced_def)

text \<open>The outcome of the switch for a transaction that passed the checks.\<close>

definition tx_body_out :: "sodium \<Rightarrow> ac_state \<Rightarrow> ac_tx \<Rightarrow> u64 \<Rightarrow> body_out" where
  "tx_body_out S s tx slot =
     apply_body S s tx slot (nonced (snd (ac_state_get s (tx_sender tx)))) (apply_needed_gas tx)"

lemma apply_tx_cases:
  assumes "ac_state_apply_tx S s tx slot base_fee = (rc, r, s')"
  obtains (rejected) msg where "apply_check s tx slot base_fee = Some msg" "rc = -1"
      "r = result_set_err result_zero msg" "s' = s"
    | (included) b where "apply_check s tx slot base_fee = None" "b = tx_body_out S s tx slot"
      "rc = (if bo_err b = None then 0 else 1)" "s' = ac_state_set (bo_state b) (final_sender tx base_fee b)"
      "ar_gas_used r = charged_gas tx b" "ar_fee_burned r = bo_burned b + charged_gas tx b * base_fee"
      "ar_fee_tip r = charged_gas tx b * tx_tip tx" "ar_ok r \<longleftrightarrow> bo_err b = None"
proof (cases "apply_check s tx slot base_fee")
  case None
  let ?b = "tx_body_out S s tx slot"
  have e: "apply_charge tx base_fee ?b = (rc, r, s')"
    using assms None by (simp add: ac_state_apply_tx_def tx_body_out_def nonced_def Let_def)
  show ?thesis
  proof (cases "bo_err ?b")
    case None
    then show ?thesis
      using e by (intro included [OF \<open>apply_check s tx slot base_fee = None\<close> refl])
        (auto simp: apply_charge_eq Let_def)
  next
    case (Some msg)
    then show ?thesis
      using e by (intro included [OF \<open>apply_check s tx slot base_fee = None\<close> refl])
        (auto simp: apply_charge_eq Let_def result_set_err_def)
  qed
next
  case (Some msg)
  show ?thesis
    by (rule rejected [OF Some]) (use assms Some in \<open>simp_all add: ac_state_apply_tx_def\<close>)
qed

lemma apply_included:
  assumes "wf_state s" "wf_tx tx" "apply_check s tx slot base_fee = None" "b = tx_body_out S s tx slot"
  defines "fin \<equiv> final_sender tx base_fee b"
  shows "wf_state (bo_state b)" "wf_account fin" "acc_addr fin = tx_sender tx" "acc_nonce fin = tx_nonce tx + 1"
    "wf_state (ac_state_set (bo_state b) fin)"
    "wf_addr k \<Longrightarrow> snd (ac_state_get (ac_state_set (bo_state b) fin) k) =
       (if k = tx_sender tx then fin else snd (ac_state_get (bo_state b) k))"
proof -
  have w: "wf_addr (tx_sender tx)" using assms(2) by (simp add: wf_tx_def)
  show wb: "wf_state (bo_state b)"
    using apply_body_state(1) [OF assms(1) w assms(3)] assms(4) by (simp add: tx_body_out_def)
  show a: "acc_addr fin = tx_sender tx" by (simp add: fin_def final_sender_def Let_def)
  then show wa: "wf_account fin" using w by (simp add: wf_account_def)
  show "acc_nonce fin = tx_nonce tx + 1"
    using apply_check_common(4) [OF assms(3)]
    by (simp add: fin_def final_sender_def Let_def assms(4) tx_body_out_def apply_body_sender nonced_def)
  show "wf_state (ac_state_set (bo_state b) fin)" by (rule st.inv_put [OF wb wa])
  show "wf_addr k \<Longrightarrow> snd (ac_state_get (ac_state_set (bo_state b) fin) k) =
       (if k = tx_sender tx then fin else snd (ac_state_get (bo_state b) k))"
    using st.get_put [OF wb wa] a by simp
qed

section \<open>The money supply\<close>

definition acc_value :: "ac_account \<Rightarrow> nat" where
  "acc_value a = unat (acc_balance a) + unat (acc_stake a)"

definition money :: "ac_state \<Rightarrow> nat" where
  "money s = total acc_value s"

text \<open>The half of a slashed stake that is burned.\<close>

definition slashed :: "ac_state \<Rightarrow> ac_tx \<Rightarrow> int \<Rightarrow> nat" where
  "slashed s tx rc =
     (if tx_kind tx = AC_TX_SLASH_EVIDENCE \<and> rc = 0
      then let stake = unat (acc_stake (snd (ac_state_get s (sl_validator (the (ac_body_slash_decode (tx_body_buf tx)))))))
        in stake - stake div 2
      else 0)"

text \<open>The fee exceeds what the body left in the sender's balance, so the source clamps it.\<close>

definition fee_clamped :: "sodium \<Rightarrow> ac_state \<Rightarrow> ac_tx \<Rightarrow> u64 \<Rightarrow> u64 \<Rightarrow> bool" where
  "fee_clamped S s tx slot base_fee \<longleftrightarrow>
     (let b = tx_body_out S s tx slot
      in acc_balance (bo_sender b) < charged_gas tx b * base_fee + charged_gas tx b * tx_tip tx)"

lemma acc_value_zero [simp]: "acc_value (zero_account k) = 0"
  by (simp add: acc_value_def zero_account_def)

lemma acc_value_nonced [simp]: "acc_value (nonced a) = acc_value a"
  by (simp add: acc_value_def nonced_def)

lemma money_names [simp]: "money (s\<lparr>st_names := x\<rparr>) = money s"
  by (simp add: money_def total_def)

lemmas money_set = st.sum_put [where f = acc_value, OF _ _ acc_value_zero, folded money_def]
lemmas money_set_overwrite = st.sum_put_overwrite [where f = acc_value, OF _ _ _ _ acc_value_zero, folded money_def]
lemmas value_le_money = st.member_le_sum [where f = acc_value, OF _ _ acc_value_zero, folded money_def]
lemmas values_le_money = st.members_le_sum [where f = acc_value, OF _ _ _ _ acc_value_zero, folded money_def]

lemma acc_value_move:
  assumes "amt \<le> acc_balance a" "unat (acc_stake a) + unat (acc_balance a) < 2 ^ 64"
  shows "acc_value (a\<lparr>acc_balance := acc_balance a - amt, acc_stake := acc_stake a + amt\<rparr>) = acc_value a"
  using assms unat_add_nowrap [of "acc_stake a" amt] unat_sub_nowrap [OF assms(1)]
  by (simp add: acc_value_def word_le_nat_alt)

lemma acc_value_release:
  assumes "amt \<le> acc_stake a" "unat (acc_stake a) + unat (acc_balance a) < 2 ^ 64"
  shows "acc_value (a\<lparr>acc_stake := acc_stake a - amt, acc_balance := acc_balance a + amt, acc_unbond_at := u\<rparr>) = acc_value a"
  using assms unat_add_nowrap [of "acc_balance a" amt] unat_sub_nowrap [OF assms(1)]
  by (simp add: acc_value_def word_le_nat_alt)

lemma acc_value_debit:
  "amt \<le> acc_balance a \<Longrightarrow> acc_value (a\<lparr>acc_balance := acc_balance a - amt\<rparr>) + unat amt = acc_value a"
  using unat_sub_nowrap [of amt "acc_balance a"] by (simp add: acc_value_def word_le_nat_alt)

lemma acc_value_credit:
  "unat (acc_balance a) + unat amt < 2 ^ 64 \<Longrightarrow>
    acc_value (a\<lparr>acc_balance := acc_balance a + amt\<rparr>) = acc_value a + unat amt"
  using unat_add_nowrap [of "acc_balance a" amt] by (simp add: acc_value_def)

text \<open>
  The switch moves value between the state and the local sender; what it burns is the name fee and
  half of a slashed stake.
\<close>

definition balanced :: "ac_state \<Rightarrow> ac_account \<Rightarrow> body_out \<Rightarrow> nat \<Rightarrow> bool" where
  "balanced s sender b burned \<longleftrightarrow>
     money (bo_state b) + acc_value (bo_sender b) + unat (bo_burned b) + burned = money s + acc_value sender"

lemma balanced_transfer:
  assumes "wf_state s" "wf_addr a" "ac_body_transfer_decode (tx_body_buf tx) = Some x" "bt_recipient x \<noteq> a"
    and "bt_amount x \<le> acc_balance (snd (ac_state_get s a))" "money s < 2 ^ 64"
  shows "balanced s (nonced (snd (ac_state_get s a))) (apply_transfer s tx (nonced (snd (ac_state_get s a))) gas) 0"
proof -
  let ?rcv = "snd (ac_state_get s (bt_recipient x))"
  have r: "wf_addr (bt_recipient x)" by (rule transfer_wf [OF assms(3)])
  have ra: "acc_addr ?rcv = bt_recipient x" by (rule st.get_addr [OF assms(1) r])
  have "acc_value ?rcv + acc_value (snd (ac_state_get s a)) \<le> money s"
    using values_le_money [OF assms(1) r assms(2,4)] .
  then have nw: "unat (acc_balance ?rcv) + unat (bt_amount x) < 2 ^ 64"
    using assms(5,6) by (simp add: acc_value_def word_le_nat_alt)
  let ?rcv' = "?rcv\<lparr>acc_addr := bt_recipient x, acc_balance := acc_balance ?rcv + bt_amount x\<rparr>"
  have v: "acc_value ?rcv' = acc_value ?rcv + unat (bt_amount x)"
    using acc_value_credit [OF nw] by (simp add: acc_value_def)
  have "money (ac_state_set s ?rcv') + acc_value ?rcv = money s + acc_value ?rcv'"
    using money_set [OF assms(1), of ?rcv'] r by (simp add: wf_account_def)
  moreover have "acc_value ((nonced (snd (ac_state_get s a)))\<lparr>acc_balance := acc_balance (nonced (snd (ac_state_get s a))) - bt_amount x\<rparr>)
      + unat (bt_amount x) = acc_value (snd (ac_state_get s a))"
    using acc_value_debit [of "bt_amount x" "nonced (snd (ac_state_get s a))"] assms(5) by simp
  moreover obtain ex rcv where "ac_state_get s (bt_recipient x) = (ex, rcv)" by fastforce
  ultimately show ?thesis
    using v assms(3) by (simp add: balanced_def apply_transfer_def body_fail_def body_done_def Let_def)
qed

lemma balanced_stake:
  assumes "acc_value a < 2 ^ 64"
  shows "balanced s a (apply_bond s tx a gas) 0" "balanced s a (apply_unbond s tx slot a gas) 0"
  using assms acc_value_move [of _ a] acc_value_release [of _ a]
  by (auto simp: balanced_def apply_bond_def apply_unbond_def body_fail_def body_done_def acc_value_def not_less
      split: option.split)

lemma balanced_name:
  assumes "wf_state s" "wf_addr (tx_sender tx)"
  shows "balanced s a (apply_name s tx a gas) 0"
proof (cases "ac_body_name_decode (zeros 32) (tx_body_buf tx)")
  case (Some x)
  show ?thesis
  proof (cases "ac_state_name_register s (bn_name x) (unat (bn_name_len x)) (tx_sender tx)")
    case (Some s')
    obtain z where "s' = s\<lparr>st_names := z\<rparr>"
      using ac_state_name_register_map(3) [OF assms name_decode_len [OF \<open>ac_body_name_decode (zeros 32) (tx_body_buf tx) = Some x\<close>] Some] by blast
    then show ?thesis
      using Some \<open>ac_body_name_decode _ _ = _\<close> acc_value_debit [of NAME_FEE a]
      by (auto simp: balanced_def apply_name_def body_fail_def body_done_def Let_def not_less)
  qed (use Some in \<open>simp add: balanced_def apply_name_def body_fail_def Let_def\<close>)
qed (simp add: balanced_def apply_name_def body_fail_def)

lemma balanced_slash:
  assumes "wf_state s" "wf_addr a" "money s < 2 ^ 64" "tx_kind tx = 5"
    and "tx_target tx \<noteq> Some a"
  defines "sender \<equiv> nonced (snd (ac_state_get s a))"
  shows "balanced s sender (apply_slash S s tx sender gas)
    (slashed s tx (if bo_err (apply_slash S s tx sender gas) = None then 0 else 1))"
proof (cases "ac_body_slash_decode (tx_body_buf tx)")
  case (Some x)
  let ?v = "snd (ac_state_get s (sl_validator x))"
  have r: "wf_addr (sl_validator x)" by (rule slash_wf(1) [OF Some])
  have ra: "acc_addr ?v = sl_validator x" by (rule st.get_addr [OF assms(1) r])
  have ne: "sl_validator x \<noteq> a" using assms(4,5) Some by (auto simp: tx_target_def)
  have le: "acc_value ?v + acc_value (snd (ac_state_get s a)) \<le> money s"
    by (rule values_le_money [OF assms(1) r assms(2) ne])
  have half: "unat (acc_stake ?v div 2) = unat (acc_stake ?v) div 2"
    by (simp add: unat_div)
  have "unat (acc_balance sender) + unat (acc_stake ?v div 2) < 2 ^ 64"
    using le assms(3) unfolding half sender_def by (simp add: acc_value_def)
  note cr = acc_value_credit [OF this]
  have sv: "acc_value sender = acc_value (snd (ac_state_get s a))" by (simp add: sender_def)
  have "money (ac_state_set s (?v\<lparr>acc_stake := 0\<rparr>)) + acc_value ?v = money s + acc_value (?v\<lparr>acc_stake := 0\<rparr>)"
    using money_set [OF assms(1), of "?v\<lparr>acc_stake := 0\<rparr>"] ra r by (simp add: wf_account_def)
  then have "money (ac_state_set s (?v\<lparr>acc_stake := 0\<rparr>)) + unat (acc_stake ?v) = money s"
    by (simp add: acc_value_def)
  then show ?thesis
    using Some cr half assms(4)
    by (simp add: balanced_def apply_slash_def body_fail_def body_done_def slashed_def Let_def)
qed (use assms(4) in \<open>simp add: balanced_def apply_slash_def body_fail_def slashed_def\<close>)

lemma apply_body_balanced:
  assumes "wf_state s" "wf_tx tx" "apply_check s tx slot base_fee = None" "b = tx_body_out S s tx slot"
    and "money s < 2 ^ 64" "tx_target tx \<noteq> Some (tx_sender tx)"
  shows "balanced s (snd (ac_state_get s (tx_sender tx))) b (slashed s tx (if bo_err b = None then 0 else 1))"
proof -
  let ?a = "snd (ac_state_get s (tx_sender tx))"
  have w: "wf_addr (tx_sender tx)" using assms(2) by (simp add: wf_tx_def)
  have v: "acc_value (nonced ?a) < 2 ^ 64"
    using value_le_money [OF assms(1) w] assms(5) by simp
  have k: "tx_kind tx \<in> {1, 2, 3, 4, 5}"
    using apply_check_common(5) [OF assms(3)] by (auto simp: ac_tx_intrinsic_gas_def split: if_splits)
  have drop_nonce: "balanced s (nonced ?a) b x \<Longrightarrow> balanced s ?a b x" for x
    by (simp add: balanced_def)
  have tr: "balanced s (nonced ?a) b 0" if t: "tx_kind tx = 1"
  proof -
    obtain x where x: "ac_body_transfer_decode (tx_body_buf tx) = Some x"
      and amt: "unat (bt_amount x) \<le> unat (acc_balance ?a)"
      using apply_check_value(1) [OF assms(3) t] by auto
    have "bt_recipient x \<noteq> tx_sender tx" using assms(6) t x by (simp add: tx_target_def)
    then show ?thesis
      using balanced_transfer [OF assms(1) w x _ _ assms(5)] amt t
      by (simp add: assms(4) tx_body_out_def apply_body_def word_le_nat_alt)
  qed
  have other: "balanced s (nonced ?a) b 0" if "tx_kind tx \<in> {2, 3, 4}"
    using that balanced_stake [OF v, of s tx] balanced_name [OF assms(1) w]
    by (auto simp: assms(4) tx_body_out_def apply_body_def)
  have sl: "balanced s (nonced ?a) b (slashed s tx (if bo_err b = None then 0 else 1))" if "tx_kind tx = 5"
    using balanced_slash [OF assms(1) w assms(5) that assms(6), of S] that
    by (simp add: assms(4) tx_body_out_def apply_body_def)
  consider "tx_kind tx \<in> {1, 2, 3, 4}" | "tx_kind tx = 5" using k by auto
  then show ?thesis
    using tr other sl drop_nonce by cases (auto simp: slashed_def)
qed

lemma final_sender_value:
  fixes b :: body_out
  assumes "apply_check s tx slot base_fee = None" "unat base_fee + unat (tx_tip tx) < 2 ^ 64"
  defines "fee \<equiv> unat (charged_gas tx b * base_fee) + unat (charged_gas tx b * tx_tip tx)"
  shows "acc_value (final_sender tx base_fee b) = acc_value (bo_sender b) - min fee (unat (acc_balance (bo_sender b)))"
    "unat (charged_gas tx b * base_fee + charged_gas tx b * tx_tip tx) = fee"
    "fee \<le> unat (apply_max_fee tx base_fee)"
proof -
  note f = apply_fee_nowrap [OF assms(1,2) charged_gas_le, of b]
  show fee: "unat (charged_gas tx b * base_fee + charged_gas tx b * tx_tip tx) = fee"
    unfolding fee_def by (rule f(3))
  then show "fee \<le> unat (apply_max_fee tx base_fee)" using f(4) by simp
  show "acc_value (final_sender tx base_fee b) = acc_value (bo_sender b) - min fee (unat (acc_balance (bo_sender b)))"
    using fee by (simp add: final_sender_def Let_def acc_value_def word_less_nat_alt unat_sub_nowrap word_le_nat_alt not_less)
qed

text \<open>Only a bond or a name registration can leave less than the fee.\<close>

lemma fee_covered:
  assumes "wf_state s" "wf_tx tx" "apply_check s tx slot base_fee = None" "b = tx_body_out S s tx slot"
    and "money s < 2 ^ 64" "tx_kind tx = 5 \<Longrightarrow> tx_target tx \<noteq> Some (tx_sender tx)" "tx_kind tx \<notin> {2, 4}"
  shows "unat (apply_max_fee tx base_fee) \<le> unat (acc_balance (bo_sender b))"
proof -
  let ?a = "snd (ac_state_get s (tx_sender tx))"
  have w: "wf_addr (tx_sender tx)" using assms(2) by (simp add: wf_tx_def)
  have fee: "unat (apply_max_fee tx base_fee) \<le> unat (acc_balance ?a)"
    using apply_check_value(2) [OF assms(3)] by (simp add: word_le_nat_alt)
  have k: "tx_kind tx \<in> {1, 3, 5}"
    using apply_check_common(5) [OF assms(3)] assms(7) by (auto simp: ac_tx_intrinsic_gas_def split: if_splits)
  have "acc_value ?a < 2 ^ 64" using value_le_money [OF assms(1) w] assms(5) by simp
  then have rel: "unat (acc_balance ?a + amt) = unat (acc_balance ?a) + unat amt" if "amt \<le> acc_stake ?a" for amt
    using that by (intro unat_add_nowrap) (simp add: acc_value_def word_le_nat_alt)
  have half: "unat (acc_balance ?a + acc_stake v div 2) = unat (acc_balance ?a) + unat (acc_stake v div 2)"
    if "v = snd (ac_state_get s k)" "wf_addr k" "k \<noteq> tx_sender tx" for v k
    using values_le_money [OF assms(1) w that(2)] that assms(5)
    by (intro unat_add_nowrap) (simp add: acc_value_def unat_div)
  consider (t) "tx_kind tx = 1" | (u) "tx_kind tx = 3" | (v) "tx_kind tx = 5" using k by auto
  then show ?thesis
  proof cases
    case t
    obtain x where x: "ac_body_transfer_decode (tx_body_buf tx) = Some x"
      and amt: "unat (apply_max_fee tx base_fee) + unat (bt_amount x) \<le> unat (acc_balance ?a)"
      using apply_check_value(1) [OF assms(3) t] by auto
    have "unat (acc_balance ?a - bt_amount x) = unat (acc_balance ?a) - unat (bt_amount x)"
      using amt by (intro unat_sub_nowrap) (simp add: word_le_nat_alt)
    then show ?thesis
      using t x amt fee
      by (auto simp: assms(4) tx_body_out_def apply_body_def apply_transfer_def body_fail_def body_done_def Let_def split: prod.split)
  next
    case u
    then show ?thesis
      using fee rel
      by (auto simp: assms(4) tx_body_out_def apply_body_def apply_unbond_def body_fail_def body_done_def not_less split: option.split)
  next
    case v
    then show ?thesis
      using fee half [OF refl slash_wf(1)] assms(6) 
      by (auto simp: assms(4) tx_body_out_def apply_body_def apply_slash_def body_fail_def body_done_def Let_def tx_target_def split: option.split)
  qed
qed

lemma apply_money:
  assumes "wf_state s" "wf_tx tx" "apply_check s tx slot base_fee = None" "b = tx_body_out S s tx slot"
    and "unat base_fee + unat (tx_tip tx) < 2 ^ 64" "money s < 2 ^ 64" "tx_target tx \<noteq> Some (tx_sender tx)"
  shows "money (ac_state_set (bo_state b) (final_sender tx base_fee b)) + unat (bo_burned b) +
      min (unat (charged_gas tx b * base_fee) + unat (charged_gas tx b * tx_tip tx)) (unat (acc_balance (bo_sender b))) +
      slashed s tx (if bo_err b = None then 0 else 1) = money s"
proof -
  have w: "wf_addr (tx_sender tx)" using assms(2) by (simp add: wf_tx_def)
  note inc = apply_included [OF assms(1-4)]
  have "ac_state_get (bo_state b) (tx_sender tx) = ac_state_get s (tx_sender tx)"
    using apply_body_state(4) [OF assms(1) w assms(3) assms(4) [unfolded tx_body_out_def] w assms(7)] .
  then have "money (ac_state_set (bo_state b) (final_sender tx base_fee b)) + acc_value (snd (ac_state_get s (tx_sender tx)))
      = money (bo_state b) + acc_value (final_sender tx base_fee b)"
    using money_set [OF inc(1) inc(2)] inc(3) by simp
  moreover have "acc_value (final_sender tx base_fee b) +
      min (unat (charged_gas tx b * base_fee) + unat (charged_gas tx b * tx_tip tx)) (unat (acc_balance (bo_sender b)))
      = acc_value (bo_sender b)"
    by (simp add: final_sender_value(1) [OF assms(3,5), of b]) (simp add: acc_value_def)
  moreover note apply_body_balanced [OF assms(1-4,6,7)]
  ultimately show ?thesis unfolding balanced_def by linarith
qed

lemma burned_nowrap:
  assumes "wf_state s" "wf_tx tx" "apply_check s tx slot base_fee = None" "b = tx_body_out S s tx slot"
    and "unat base_fee + unat (tx_tip tx) < 2 ^ 64" "money s < 2 ^ 63"
  shows "unat (bo_burned b + charged_gas tx b * base_fee) = unat (bo_burned b) + unat (charged_gas tx b * base_fee)"
proof (rule unat_add_nowrap)
  have w: "wf_addr (tx_sender tx)" using assms(2) by (simp add: wf_tx_def)
  have "unat (charged_gas tx b * base_fee) \<le> unat (acc_balance (snd (ac_state_get s (tx_sender tx))))"
    using final_sender_value(3) [OF assms(3,5), of b] apply_check_value(2) [OF assms(3)]
    by (simp add: word_le_nat_alt)
  then have "unat (charged_gas tx b * base_fee) < 2 ^ 63"
    using value_le_money [OF assms(1) w] assms(6) by (simp add: acc_value_def)
  moreover have "bo_burned b = 0 \<or> bo_burned b = NAME_FEE"
    by (auto simp: assms(4) tx_body_out_def apply_body_def body_defs Let_def split: option.splits prod.splits)
  ultimately show "unat (bo_burned b) + unat (charged_gas tx b * base_fee) < 2 ^ 64"
    by (auto simp: NAME_FEE_def)
qed

lemma apply_self_money:
  assumes "wf_state s" "wf_tx tx" "apply_check s tx slot base_fee = None" "b = tx_body_out S s tx slot"
    and "tx_target tx = Some (tx_sender tx)"
  shows "money (ac_state_set (bo_state b) (final_sender tx base_fee b)) +
      acc_value (snd (ac_state_get s (tx_sender tx))) = money s + acc_value (final_sender tx base_fee b)"
  using assms(1,3) assms(4) [unfolded tx_body_out_def]
proof (cases rule: apply_body_cases)
  case same
  then show ?thesis
    using money_set [OF assms(1) apply_included(2) [OF assms(1-4)]] apply_included(3) [OF assms(1-4)] by simp
next
  case (acct a)
  then show ?thesis
    using money_set_overwrite [OF assms(1) acct(1) apply_included(2) [OF assms(1-4)]]
      apply_included(3) [OF assms(1-4)] assms(5) by simp
next
  case (name n l)
  then show ?thesis using assms(5) by (simp add: tx_target_def)
qed

section \<open>Properties of the transition function\<close>

text \<open>
  A transaction that fails a check changes nothing and costs nothing: the return code
  is -1 exactly when a check fails, and then the state is the one before and no gas or fee is
  reported.
\<close>

theorem apply_tx_rejected:
  assumes "ac_state_apply_tx S s tx slot base_fee = (rc, r, s')"
  shows "(rc = -1 \<longleftrightarrow> apply_check s tx slot base_fee \<noteq> None) \<and>
    (rc = -1 \<longrightarrow> s' = s \<and> \<not> ar_ok r \<and> ar_gas_used r = 0 \<and> ar_fee_burned r = 0 \<and> ar_fee_tip r = 0)"
  using assms by (cases rule: apply_tx_cases) (auto simp: result_set_err_def result_zero_def)

theorem apply_tx_rejected_witness:
  "ac_state_apply_tx demo_sodium demo_state (demo_tx 1 (1 # zeros 31) 5 21 1 (zeros 40)) 0 1 =
     (-1, result_set_err result_zero ''bad nonce'', demo_state)"
proof -
  let ?t = "demo_tx 1 (1 # zeros 31) 5 21 1 (zeros 40)"
  have c: "apply_check demo_state ?t 0 1 = Some ''bad nonce''" by code_simp
  obtain rc r s' where a: "ac_state_apply_tx demo_sodium demo_state ?t 0 1 = (rc, r, s')"
    by (metis prod.collapse)
  then have "rc = -1 \<and> s' = demo_state" using apply_tx_rejected [OF a] c by simp
  then show ?thesis using a c by (simp add: ac_state_apply_tx_def)
qed

text \<open>
  Claim C25. An included transaction keeps the state well formed and can never be applied again:
  its sender's nonce becomes one more than the transaction's, so at any later slot and base fee
  the same transaction is rejected.
\<close>

theorem apply_tx_no_replay:
  assumes "wf_state s" "wf_tx tx" "ac_state_apply_tx S s tx slot base_fee = (rc, r, s')" "rc \<noteq> -1"
  shows "wf_state s' \<and> st_chain_id s' = st_chain_id s \<and>
    acc_nonce (snd (ac_state_get s' (tx_sender tx))) = tx_nonce tx + 1 \<and>
    fst (ac_state_apply_tx S s' tx slot' base_fee') = -1"
  using assms(3)
proof (cases rule: apply_tx_cases)
  case (included b)
  have w: "wf_addr (tx_sender tx)" using assms(2) by (simp add: wf_tx_def)
  note inc = apply_included [OF assms(1,2) included(1,2)]
  have n: "acc_nonce (snd (ac_state_get s' (tx_sender tx))) = tx_nonce tx + 1"
    using inc(4) inc(6) [OF w] included(4) by simp
  then have "apply_check s' tx slot' base_fee' \<noteq> None"
    using apply_check_common(4) [of s' tx slot' base_fee'] by auto
  moreover have "st_chain_id s' = st_chain_id s"
    using apply_body_state(2) [OF assms(1) w included(1)] included(2,4) by (simp add: tx_body_out_def)
  ultimately show ?thesis
    using n inc(5) included(4) by (auto simp: ac_state_apply_tx_def)
qed (use assms(4) in simp)

text \<open>A transfer of 100 from the first account of the concrete state to the second.\<close>

definition demo_transfer :: ac_tx where
  "demo_transfer = demo_tx 1 (1 # zeros 31) 0 21 1 ((2 # zeros 31) @ ac_be64 100)"

lemma demo_transfer_fields [simp]:
  "tx_kind demo_transfer = 1" "tx_sender demo_transfer = 1 # zeros 31" "tx_tip demo_transfer = 1"
  by (simp_all add: demo_transfer_def demo_tx_def)

lemma wf_demo_transfer: "wf_tx demo_transfer"
  unfolding demo_transfer_def by (rule wf_demo_tx) simp_all

lemma demo_transfer_run:
  "ac_state_apply_tx demo_sodium demo_state demo_transfer 0 1 =
     (0, \<lparr>ar_ok = True, ar_gas_used = 21, ar_fee_burned = 21, ar_fee_tip = 21, ar_err = ''''\<rparr>,
      \<lparr>st_chain_id = 7, st_accounts = [(demo_account 1 999858 0)\<lparr>acc_nonce := 1\<rparr>, demo_account 2 5100 400], st_names = []\<rparr>)"
  by code_simp

lemma demo_transfer_target: "tx_target demo_transfer = Some (2 # zeros 31)"
  by code_simp

theorem apply_tx_no_replay_witness:
  "fst (ac_state_apply_tx demo_sodium (snd (snd (ac_state_apply_tx demo_sodium demo_state demo_transfer 0 1)))
     demo_transfer 1 1) = -1"
  using apply_tx_no_replay [OF wf_demo_state wf_demo_transfer demo_transfer_run, of 1 1]
  by (simp add: demo_transfer_run)

text \<open>
  A transaction touches only its sender and its target (the recipient of a transfer, the
  validator of slashing evidence): every other account reads as before, and the name registry
  changes only for a name registration.
\<close>

theorem apply_tx_frame:
  assumes "wf_state s" "wf_tx tx" "ac_state_apply_tx S s tx slot base_fee = (rc, r, s')"
    and "wf_addr k" "k \<noteq> tx_sender tx" "tx_target tx \<noteq> Some k"
  shows "snd (ac_state_get s' k) = snd (ac_state_get s k) \<and>
    (tx_kind tx \<noteq> AC_TX_REGISTER_NAME \<longrightarrow> st_names s' = st_names s)"
  using assms(3)
proof (cases rule: apply_tx_cases)
  case (included b)
  have w: "wf_addr (tx_sender tx)" using assms(2) by (simp add: wf_tx_def)
  note st = apply_body_state [OF assms(1) w included(1) included(2) [unfolded tx_body_out_def]]
  show ?thesis
    using apply_included(6) [OF assms(1,2) included(1,2) assms(4)] st(3) st(4) [OF assms(4,6)] assms(5) included(4)
    by simp
qed simp

theorem apply_tx_frame_witness:
  "snd (ac_state_get (snd (snd (ac_state_apply_tx demo_sodium demo_state demo_transfer 0 1))) (3 # zeros 31))
     = zero_account (3 # zeros 31)"
proof -
  have "snd (ac_state_get demo_state (3 # zeros 31)) = zero_account (3 # zeros 31)" by code_simp
  then show ?thesis
    using apply_tx_frame [OF wf_demo_state wf_demo_transfer demo_transfer_run, of "3 # zeros 31"]
    by (simp add: demo_transfer_run demo_transfer_target wf)
qed

lemma apply_tx_money:
  assumes "wf_state s" "wf_tx tx" "ac_state_apply_tx S s tx slot base_fee = (rc, r, s')" "rc \<noteq> -1"
    and "unat base_fee + unat (tx_tip tx) < 2 ^ 64" "money s < 2 ^ 63"
    and "tx_target tx \<noteq> Some (tx_sender tx)" "\<not> fee_clamped S s tx slot base_fee"
  shows "money s' + unat (ar_fee_burned r) + unat (ar_fee_tip r) + slashed s tx rc = money s"
  using assms(3)
proof (cases rule: apply_tx_cases)
  case (included b)
  have m: "money s < 2 ^ 64" using assms(6) by simp
  have "unat (charged_gas tx b * base_fee) + unat (charged_gas tx b * tx_tip tx) \<le> unat (acc_balance (bo_sender b))"
    using assms(8) final_sender_value(2) [OF included(1) assms(5), of b]
    by (simp add: fee_clamped_def Let_def included(2) word_less_nat_alt)
  then show ?thesis
    using apply_money [OF assms(1,2) included(1,2) assms(5) m assms(7)]
      burned_nowrap [OF assms(1,2) included(1,2) assms(5,6)] included
    by (simp add: min_absorb1)
qed (use assms(4) in simp)

text \<open>
  Claim C19. Conservation of money. For an included transaction that is not addressed to its own
  sender, whose fee per gas does not overflow 64 bits and whose fee is not clamped, all balances and
  stakes after it, plus the burned fee and the tip it reports, plus the burned half of a slashed
  stake, add up to all balances and stakes before it. Nothing is created and nothing disappears.
\<close>

theorem apply_tx_conserves_money:
  assumes "wf_state s" "wf_tx tx" "ac_state_apply_tx S s tx slot base_fee = (rc, r, s')" "rc \<noteq> -1"
    and "unat base_fee + unat (tx_tip tx) < 2 ^ 64" "money s < 2 ^ 63"
    and "tx_target tx \<noteq> Some (tx_sender tx)" "\<not> fee_clamped S s tx slot base_fee"
  shows "money s' + unat (ar_fee_burned r) + unat (ar_fee_tip r) + slashed s tx rc = money s"
  using assms by (rule apply_tx_money)

lemma demo_money: "money demo_state = 1005400"
  by (simp add: money_def total_def acc_value_def demo_state_def demo_account_def)

theorem apply_tx_conserves_money_witness:
  "money (snd (snd (ac_state_apply_tx demo_sodium demo_state demo_transfer 0 1))) + 42 = money demo_state"
proof -
  have "\<not> fee_clamped demo_sodium demo_state demo_transfer 0 1" by code_simp
  then show ?thesis
    using apply_tx_conserves_money [OF wf_demo_state wf_demo_transfer demo_transfer_run]
    by (simp add: demo_transfer_run demo_transfer_target demo_money slashed_def)
qed

text \<open>
  Only a bond or a name registration can have its fee clamped, and then money is
  created: the sender pays less than the fee, but the reported tip, which the chain credits to the
  proposer, and burn are not reduced.
\<close>

theorem apply_tx_clamped_fee_creates_money:
  assumes "wf_state s" "wf_tx tx" "ac_state_apply_tx S s tx slot base_fee = (rc, r, s')" "rc \<noteq> -1"
    and "unat base_fee + unat (tx_tip tx) < 2 ^ 64" "money s < 2 ^ 63"
    and "tx_target tx \<noteq> Some (tx_sender tx)" "fee_clamped S s tx slot base_fee"
  shows "tx_kind tx \<in> {AC_TX_STAKE_BOND, AC_TX_REGISTER_NAME} \<and>
    money s < money s' + unat (ar_fee_burned r) + unat (ar_fee_tip r)"
  using assms(3)
proof (cases rule: apply_tx_cases)
  case (included b)
  have m: "money s < 2 ^ 64" using assms(6) by simp
  have less: "unat (acc_balance (bo_sender b)) < unat (charged_gas tx b * base_fee) + unat (charged_gas tx b * tx_tip tx)"
    using assms(8) final_sender_value(2) [OF included(1) assms(5), of b]
    by (simp add: fee_clamped_def Let_def included(2) word_less_nat_alt)
  then have k: "tx_kind tx \<in> {2, 4}"
    using fee_covered [OF assms(1,2) included(1,2) m assms(7)] final_sender_value(3) [OF included(1) assms(5), of b]
    by (meson leD le_trans less_le_trans)
  then have "slashed s tx (if bo_err b = None then 0 else 1) = 0" by (auto simp: slashed_def)
  then show ?thesis
    using apply_money [OF assms(1,2) included(1,2) assms(5) m assms(7)] less k
      burned_nowrap [OF assms(1,2) included(1,2) assms(5,6)] included
    by (simp add: min_absorb2)
qed (use assms(4) in simp)

text \<open>Bonding the whole balance of the second account leaves nothing for a fee of 51 gas.\<close>

definition demo_bond :: ac_tx where
  "demo_bond = demo_tx 2 (2 # zeros 31) 0 51 9 (ac_be64 5000)"

lemma demo_bond_fields [simp]:
  "tx_kind demo_bond = 2" "tx_sender demo_bond = 2 # zeros 31" "tx_tip demo_bond = 9"
  by (simp_all add: demo_bond_def demo_tx_def)

lemma wf_demo_bond: "wf_tx demo_bond"
  unfolding demo_bond_def by (rule wf_demo_tx) simp_all

lemma demo_bond_run:
  "ac_state_apply_tx demo_sodium demo_state demo_bond 0 1 =
     (0, \<lparr>ar_ok = True, ar_gas_used = 51, ar_fee_burned = 51, ar_fee_tip = 459, ar_err = ''''\<rparr>,
      \<lparr>st_chain_id = 7, st_accounts = [demo_account 1 1000000 0, (demo_account 2 0 5400)\<lparr>acc_nonce := 1\<rparr>], st_names = []\<rparr>)"
  by code_simp

theorem apply_tx_clamped_fee_creates_money_witness:
  "money demo_state < money (snd (snd (ac_state_apply_tx demo_sodium demo_state demo_bond 0 1))) + 510"
proof -
  have "fee_clamped demo_sodium demo_state demo_bond 0 1" by code_simp
  then show ?thesis
    using apply_tx_clamped_fee_creates_money [OF wf_demo_state wf_demo_bond demo_bond_run]
    by (simp add: demo_bond_run demo_money tx_target_def)
qed




text \<open>
  A validator that submits evidence against itself keeps its whole stake and receives
  half of it as reward: the slashed copy is overwritten by the local copy of the sender, so the
  reward is new money.
\<close>

theorem apply_tx_self_slash_mints:
  assumes "wf_state s" "wf_tx tx" "ac_state_apply_tx S s tx slot base_fee = (0, r, s')"
    and "unat base_fee + unat (tx_tip tx) < 2 ^ 64" "money s < 2 ^ 62" "tx_kind tx = AC_TX_SLASH_EVIDENCE"
    and "ac_body_slash_decode (tx_body_buf tx) = Some x" "sl_validator x = tx_sender tx"
  defines "stake \<equiv> acc_stake (snd (ac_state_get s (tx_sender tx)))"
  shows "acc_stake (snd (ac_state_get s' (tx_sender tx))) = stake \<and>
    money s' + unat (ar_fee_burned r) + unat (ar_fee_tip r) = money s + unat stake div 2"
  using assms(3)
proof (cases rule: apply_tx_cases)
  case (included b)
  let ?a = "snd (ac_state_get s (tx_sender tx))"
  have w: "wf_addr (tx_sender tx)" using assms(2) by (simp add: wf_tx_def)
  have sender: "bo_sender b = (nonced ?a)\<lparr>acc_balance := acc_balance (nonced ?a) + stake div 2\<rparr>" "bo_burned b = 0"
    using included(2,3) assms(6-8)
    by (auto simp: tx_body_out_def apply_body_def apply_slash_def body_fail_def body_done_def Let_def stake_def split: if_splits)
  have half: "unat (stake div 2) = unat stake div 2" by (simp add: unat_div)
  have "acc_value ?a < 2 ^ 62" using value_le_money [OF assms(1) w] assms(5) by simp
  then have nw: "unat (acc_balance ?a) + unat (stake div 2) < 2 ^ 64"
    unfolding half by (simp add: acc_value_def stake_def)
  have v: "acc_value (bo_sender b) = acc_value ?a + unat stake div 2"
    using acc_value_credit [of "nonced ?a" "stake div 2"] nw half sender by simp
  have "unat (acc_balance ?a) \<le> unat (acc_balance (bo_sender b))"
    using unat_add_nowrap [OF nw] sender by simp
  then have cov: "unat (charged_gas tx b * base_fee) + unat (charged_gas tx b * tx_tip tx) \<le> unat (acc_balance (bo_sender b))"
    using apply_check_value(2) [OF included(1)] final_sender_value(3) [OF included(1) assms(4), of b]
    by (simp add: word_le_nat_alt)
  have "tx_target tx = Some (tx_sender tx)" using assms(6-8) by (simp add: tx_target_def)
  note self = apply_self_money [OF assms(1,2) included(1,2) this]
  have "acc_value (final_sender tx base_fee b) + unat (charged_gas tx b * base_fee) + unat (charged_gas tx b * tx_tip tx)
      = acc_value (bo_sender b)"
    using final_sender_value(1) [OF included(1) assms(4), of b] cov by (simp add: min_absorb1 acc_value_def)
  moreover have "acc_stake (final_sender tx base_fee b) = stake"
    by (simp add: final_sender_def Let_def sender stake_def)
  ultimately show ?thesis
    using self v included(4,6,7) sender(2) apply_included(6) [OF assms(1,2) included(1,2) w] by simp
qed simp

text \<open>Two conflicting votes of the second account of the concrete state, reported by itself.\<close>

definition demo_evidence :: ac_body_slash where
  "demo_evidence = \<lparr>sl_validator = 2 # zeros 31, sl_height = 5,
     sl_block_hash_a = zeros 32, sl_sig_a = (2 # zeros 31) @ last32 (ac_vote_message 5 (zeros 32)),
     sl_block_hash_b = replicate 32 1, sl_sig_b = (2 # zeros 31) @ last32 (ac_vote_message 5 (replicate 32 1))\<rparr>"

definition demo_self_slash :: ac_tx where
  "demo_self_slash = demo_tx 5 (2 # zeros 31) 0 521 1 (slash_bytes demo_evidence)"

lemma demo_evidence_decode: "ac_body_slash_decode (tx_body_buf demo_self_slash) = Some demo_evidence"
  by code_simp

lemma demo_self_slash_run:
  "ac_state_apply_tx demo_sodium demo_state demo_self_slash 0 1 =
     (0, \<lparr>ar_ok = True, ar_gas_used = 521, ar_fee_burned = 521, ar_fee_tip = 521, ar_err = ''''\<rparr>,
      \<lparr>st_chain_id = 7, st_accounts = [demo_account 1 1000000 0, (demo_account 2 4158 400)\<lparr>acc_nonce := 1\<rparr>], st_names = []\<rparr>)"
  by code_simp

lemma demo_self_slash_fields:
  "tx_kind demo_self_slash = 5" "tx_sender demo_self_slash = 2 # zeros 31" "tx_tip demo_self_slash = 1"
  "wf_tx demo_self_slash"
proof -
  show "tx_kind demo_self_slash = 5" "tx_sender demo_self_slash = 2 # zeros 31" "tx_tip demo_self_slash = 1"
    by (simp_all add: demo_self_slash_def demo_tx_def)
  show "wf_tx demo_self_slash"
    unfolding demo_self_slash_def by (rule wf_demo_tx) (simp_all add: slash_bytes_def demo_evidence_def)
qed

theorem apply_tx_self_slash_mints_witness:
  "acc_stake (snd (ac_state_get (snd (snd (ac_state_apply_tx demo_sodium demo_state demo_self_slash 0 1))) (2 # zeros 31))) = 400 \<and>
   money (snd (snd (ac_state_apply_tx demo_sodium demo_state demo_self_slash 0 1))) + 521 + 521 = money demo_state + 200"
proof -
  have "acc_stake (snd (ac_state_get demo_state (2 # zeros 31))) = 400" by code_simp
  then show ?thesis
    using apply_tx_self_slash_mints [OF wf_demo_state demo_self_slash_fields(4) demo_self_slash_run _ _ _ demo_evidence_decode]
    by (simp add: demo_self_slash_fields demo_self_slash_run demo_money demo_evidence_def)
qed

text \<open>
  A successful transfer to another account moves exactly the amount: the recipient's
  balance grows by it, the sender's shrinks by it and the fee, and nothing else of the two accounts
  changes except the sender's nonce.
\<close>

theorem apply_tx_transfer_effect:
  assumes "wf_state s" "wf_tx tx" "ac_state_apply_tx S s tx slot base_fee = (0, r, s')"
    and "unat base_fee + unat (tx_tip tx) < 2 ^ 64" "money s < 2 ^ 63" "tx_kind tx = AC_TX_TRANSFER"
    and "ac_body_transfer_decode (tx_body_buf tx) = Some x" "bt_recipient x \<noteq> tx_sender tx"
  defines "a \<equiv> snd (ac_state_get s (tx_sender tx))" and "a' \<equiv> snd (ac_state_get s' (tx_sender tx))"
    and "d \<equiv> snd (ac_state_get s (bt_recipient x))" and "d' \<equiv> snd (ac_state_get s' (bt_recipient x))"
  shows "unat (acc_balance d') = unat (acc_balance d) + unat (bt_amount x) \<and>
    unat (acc_balance a') + unat (bt_amount x) + unat (ar_fee_burned r) + unat (ar_fee_tip r) = unat (acc_balance a) \<and>
    d' = d\<lparr>acc_balance := acc_balance d'\<rparr> \<and>
    a' = a\<lparr>acc_balance := acc_balance a', acc_nonce := acc_nonce a + 1\<rparr>"
  using assms(3)
proof (cases rule: apply_tx_cases)
  case (included b)
  have w: "wf_addr (tx_sender tx)" using assms(2) by (simp add: wf_tx_def)
  have r: "wf_addr (bt_recipient x)" by (rule transfer_wf [OF assms(7)])
  have m: "money s < 2 ^ 64" using assms(5) by simp
  obtain ex where g: "ac_state_get s (bt_recipient x) = (ex, d)" unfolding d_def by (metis prod.collapse)
  have da: "acc_addr d = bt_recipient x" "acc_addr a = tx_sender tx"
    using st.get_addr [OF assms(1)] r w by (simp_all add: d_def a_def)
  let ?d = "d\<lparr>acc_addr := bt_recipient x, acc_balance := acc_balance d + bt_amount x\<rparr>"
  have dd: "?d = d\<lparr>acc_balance := acc_balance d + bt_amount x\<rparr>" using da(1) by (cases d) simp
  have b: "bo_state b = ac_state_set s ?d" "bo_burned b = 0"
    "bo_sender b = (nonced a)\<lparr>acc_balance := acc_balance a - bt_amount x\<rparr>"
    using included(2,3) assms(6,7) g
    by (auto simp: tx_body_out_def apply_body_def apply_transfer_def body_fail_def body_done_def Let_def a_def split: if_splits)
  have amt: "unat (bt_amount x) \<le> unat (acc_balance a)"
    using apply_check_value(1) [OF included(1)] assms(6,7) by (auto simp: a_def)
  have "acc_value d + acc_value a \<le> money s"
    using values_le_money [OF assms(1) r w assms(8)] by (simp add: d_def a_def)
  then have nw: "unat (acc_balance d + bt_amount x) = unat (acc_balance d) + unat (bt_amount x)"
    using amt m by (intro unat_add_nowrap) (simp add: acc_value_def)
  note fin = apply_included(6) [OF assms(1,2) included(1,2)]
  have d': "d' = d\<lparr>acc_balance := acc_balance d + bt_amount x\<rparr>"
    using fin [OF r] assms(8) st.get_put_same [OF assms(1), of ?d] r by (simp add: d'_def included(4) b wf_account_def dd da(1))
  let ?fee = "unat (charged_gas tx b * base_fee) + unat (charged_gas tx b * tx_tip tx)"
  have cov: "?fee \<le> unat (acc_balance (bo_sender b))"
    using fee_covered [OF assms(1,2) included(1,2) m] final_sender_value(3) [OF included(1) assms(4), of b] assms(6) by simp
  have a': "a' = final_sender tx base_fee b"
    using fin [OF w] by (simp add: a'_def included(4))
  have "unat (acc_balance a - bt_amount x) = unat (acc_balance a) - unat (bt_amount x)"
    using amt by (intro unat_sub_nowrap) (simp add: word_le_nat_alt)
  moreover have "unat (acc_balance a') = unat (acc_balance a - bt_amount x) - ?fee"
    using cov final_sender_value(2) [OF included(1) assms(4), of b]
    by (simp add: a' final_sender_def Let_def b(3) word_less_nat_alt not_less unat_sub_nowrap word_le_nat_alt)
  ultimately show ?thesis
    using nw d' amt cov included(6,7) b(2,3) da
    by (simp add: a' final_sender_def Let_def nonced_def)
qed simp

theorem apply_tx_transfer_effect_witness:
  "unat (acc_balance (snd (ac_state_get (snd (snd (ac_state_apply_tx demo_sodium demo_state demo_transfer 0 1))) (2 # zeros 31)))) = 5100"
proof -
  have "ac_body_transfer_decode (tx_body_buf demo_transfer) = Some \<lparr>bt_recipient = 2 # zeros 31, bt_amount = 100\<rparr>"
    "acc_balance (snd (ac_state_get demo_state (2 # zeros 31))) = 5000"
    by code_simp+
  then show ?thesis
    using apply_tx_transfer_effect [OF wf_demo_state wf_demo_transfer demo_transfer_run]
    by (simp add: demo_transfer_run demo_money)
qed

text \<open>
  Slashing is justified: evidence succeeds only if the accused validator has stake and two
  votes at one height for different block hashes verify under its key. A successful report by
  somebody else takes the whole stake and pays half of it, rounded down, to the reporter.
\<close>

theorem apply_tx_slash_sound:
  assumes "wf_state s" "wf_tx tx" "ac_state_apply_tx S s tx slot base_fee = (0, r, s')"
    and "tx_kind tx = AC_TX_SLASH_EVIDENCE" "tx_target tx \<noteq> Some (tx_sender tx)"
  shows "\<exists>x. ac_body_slash_decode (tx_body_buf tx) = Some x \<and> sl_block_hash_a x \<noteq> sl_block_hash_b x \<and>
    ac_verify S (sl_sig_a x) (ac_vote_message (sl_height x) (sl_block_hash_a x)) (sl_validator x) \<and>
    ac_verify S (sl_sig_b x) (ac_vote_message (sl_height x) (sl_block_hash_b x)) (sl_validator x) \<and>
    acc_stake (snd (ac_state_get s (sl_validator x))) \<noteq> 0 \<and>
    snd (ac_state_get s' (sl_validator x)) = (snd (ac_state_get s (sl_validator x)))\<lparr>acc_stake := 0\<rparr> \<and>
    acc_balance (bo_sender (tx_body_out S s tx slot)) =
      acc_balance (snd (ac_state_get s (tx_sender tx))) + acc_stake (snd (ac_state_get s (sl_validator x))) div 2"
  using assms(3)
proof (cases rule: apply_tx_cases)
  case (included b)
  have b: "b = apply_slash S s tx (nonced (snd (ac_state_get s (tx_sender tx)))) (apply_needed_gas tx)"
    using assms(4) included(2) by (simp add: tx_body_out_def apply_body_def)
  obtain x where x: "ac_body_slash_decode (tx_body_buf tx) = Some x"
    using b included(3) by (cases "ac_body_slash_decode (tx_body_buf tx)") (auto simp: apply_slash_def body_fail_def)
  let ?v = "snd (ac_state_get s (sl_validator x))"
  note w = slash_wf [OF x]
  have f: "\<not> ac_hash_eq (sl_block_hash_a x) (sl_block_hash_b x)"
      "ac_verify S (sl_sig_a x) (ac_vote_message (sl_height x) (sl_block_hash_a x)) (sl_validator x)"
      "ac_verify S (sl_sig_b x) (ac_vote_message (sl_height x) (sl_block_hash_b x)) (sl_validator x)"
      "acc_stake ?v \<noteq> 0" "bo_state b = ac_state_set s (?v\<lparr>acc_stake := 0\<rparr>)"
      "acc_balance (bo_sender b) = acc_balance (snd (ac_state_get s (tx_sender tx))) + acc_stake ?v div 2"
    using b included(3) x
    by (auto simp: apply_slash_def body_fail_def body_done_def Let_def split: if_splits)
  have "sl_validator x \<noteq> tx_sender tx" using assms(4,5) x by (simp add: tx_target_def)
  then have "snd (ac_state_get s' (sl_validator x)) = ?v\<lparr>acc_stake := 0\<rparr>"
    using apply_included(6) [OF assms(1,2) included(1,2) w(1)] st.get_put_same [OF assms(1), of "?v\<lparr>acc_stake := 0\<rparr>"]
      st.get_addr [OF assms(1) w(1)] w(1) by (simp add: included(4) f(5) wf_account_def)
  then show ?thesis
    using x f ac_hash_eq_iff [OF w(2,3)] included(2) by blast
qed simp

definition demo_slash :: ac_tx where
  "demo_slash = demo_tx 5 (1 # zeros 31) 0 521 1 (slash_bytes demo_evidence)"

theorem apply_tx_slash_sound_witness:
  "\<exists>x. ac_body_slash_decode (tx_body_buf demo_slash) = Some x \<and> sl_block_hash_a x \<noteq> sl_block_hash_b x \<and>
    acc_stake (snd (ac_state_get (snd (snd (ac_state_apply_tx demo_sodium demo_state demo_slash 0 1))) (sl_validator x))) = 0"
proof -
  have "fst (ac_state_apply_tx demo_sodium demo_state demo_slash 0 1) = 0" by code_simp
  then obtain r s' where run: "ac_state_apply_tx demo_sodium demo_state demo_slash 0 1 = (0, r, s')"
    by (metis prod.collapse)
  have t: "tx_target demo_slash = Some (2 # zeros 31)" by code_simp
  have f: "tx_kind demo_slash = 5" "tx_sender demo_slash = 1 # zeros 31"
    by (simp_all add: demo_slash_def demo_tx_def)
  have w: "wf_tx demo_slash"
    unfolding demo_slash_def by (rule wf_demo_tx) (simp_all add: slash_bytes_def demo_evidence_def)
  show ?thesis
    using apply_tx_slash_sound [OF wf_demo_state w run] by (auto simp: f t run)
qed

text \<open>
  Gas is bounded and paid for: an included transaction reports at least its intrinsic
  gas and at most its gas limit, and when the fee per gas does not overflow, the fee it reports
  besides a burned name fee is gas times price and at most the balance the sender had.
\<close>

theorem apply_tx_gas_bounds:
  assumes "wf_state s" "wf_tx tx" "ac_state_apply_tx S s tx slot base_fee = (rc, r, s')" "rc \<noteq> -1"
    and "unat base_fee + unat (tx_tip tx) < 2 ^ 64"
  shows "apply_needed_gas tx \<le> ar_gas_used r \<and> ar_gas_used r \<le> ucast (tx_gas_limit tx) \<and>
    unat (ar_gas_used r * base_fee) + unat (ar_fee_tip r) = unat (ar_gas_used r) * (unat base_fee + unat (tx_tip tx)) \<and>
    unat (ar_gas_used r) * (unat base_fee + unat (tx_tip tx)) \<le> unat (acc_balance (snd (ac_state_get s (tx_sender tx))))"
  using assms(3)
proof (cases rule: apply_tx_cases)
  case (included b)
  have g: "apply_needed_gas tx \<le> ucast (tx_gas_limit tx)" by (rule apply_check_common(6) [OF included(1)])
  have "unat (ucast (tx_gas_limit tx) :: u64) < 2 ^ 32"
    using unat_u32_less [of "tx_gas_limit tx"] by simp
  then have "unat (apply_needed_gas tx) + 50 < 2 ^ 64" using g by (simp add: word_le_nat_alt)
  then have "apply_needed_gas tx \<le> apply_needed_gas tx + 50"
    using unat_add_nowrap [of "apply_needed_gas tx" 50] by (simp add: word_le_nat_alt)
  then have "apply_needed_gas tx \<le> bo_charged b"
    by (auto simp: included(2) tx_body_out_def apply_body_def body_defs Let_def split: option.splits prod.splits)
  then have "apply_needed_gas tx \<le> charged_gas tx b" using g by (simp add: charged_gas_def)
  moreover note f = apply_fee_nowrap [OF included(1) assms(5) charged_gas_le, of b]
  moreover have "unat (charged_gas tx b) * unat base_fee + unat (charged_gas tx b) * unat (tx_tip tx)
      \<le> unat (acc_balance (snd (ac_state_get s (tx_sender tx))))"
    using f apply_check_value(2) [OF included(1)] by (simp add: word_le_nat_alt)
  ultimately show ?thesis
    using included(5,7) charged_gas_le [of tx b] by (simp add: distrib_left)
qed (use assms(4) in simp)

theorem apply_tx_gas_bounds_witness:
  "unat (ar_gas_used (fst (snd (ac_state_apply_tx demo_sodium demo_state demo_transfer 0 1)))) * 2 \<le> 1000000"
proof -
  have "acc_balance (snd (ac_state_get demo_state (1 # zeros 31))) = 1000000" by code_simp
  then show ?thesis
    using apply_tx_gas_bounds [OF wf_demo_state wf_demo_transfer demo_transfer_run] by (simp add: demo_transfer_run)
qed

definition demo_wrap :: ac_tx where
  "demo_wrap = demo_tx 1 (1 # zeros 31) 0 21 (- 1) ((2 # zeros 31) @ ac_be64 100)"

text \<open>
  Without the hypothesis on the fee per gas the accounting fails: the sum of base fee
  and tip is computed modulo $2^{64}$ before the overflow test. A tip of $2^{64}-1$ with base fee 1
  costs the sender nothing, and the reported tip, to be credited to the proposer, is $2^{64}$ minus
  the gas used.
\<close>

theorem apply_tx_fee_wraps:
  "wf_state demo_state \<and> wf_tx demo_wrap \<and>
   ac_state_apply_tx demo_sodium demo_state demo_wrap 0 1 =
     (0, \<lparr>ar_ok = True, ar_gas_used = 21, ar_fee_burned = 21, ar_fee_tip = - 21, ar_err = ''''\<rparr>,
      \<lparr>st_chain_id = 7, st_accounts = [(demo_account 1 999900 0)\<lparr>acc_nonce := 1\<rparr>, demo_account 2 5100 400], st_names = []\<rparr>)"
proof (intro conjI)
  show "wf_tx demo_wrap" unfolding demo_wrap_def by (rule wf_demo_tx) simp_all
  show "ac_state_apply_tx demo_sodium demo_state demo_wrap 0 1 =
     (0, \<lparr>ar_ok = True, ar_gas_used = 21, ar_fee_burned = 21, ar_fee_tip = - 21, ar_err = ''''\<rparr>,
      \<lparr>st_chain_id = 7, st_accounts = [(demo_account 1 999900 0)\<lparr>acc_nonce := 1\<rparr>, demo_account 2 5100 400], st_names = []\<rparr>)"
    by code_simp
qed (rule wf_demo_state)

end
