(* ===== verification/Mempool.thy ===== *)
theory Mempool
  imports Apply "HOL-Library.Sublist"
begin

text \<open>
  \<^verbatim>\<open>mempool.c\<close>: the pool of pending transactions, an array sorted by tip. The record \<open>ac_mempool\<close>
  keeps the entries and the allocated capacity, so that writing inside the allocation is a property
  and not an assumption; reallocation succeeds. Every operation holds the pool's mutex for its whole
  critical section, so an operation is one step. The locale \<open>tx_source\<close> is what block production
  relies on when it takes transactions from the pool.
\<close>

section \<open>Structs\<close>

record mp_entry =
  me_tx :: ac_tx
  me_hash :: ac_hash
  me_tip :: u64
  me_added_slot :: u64

record ac_mempool =
  mp_chain_id :: u64
  mp_entries :: "mp_entry list"
  mp_cap :: nat

definition AC_MEMPOOL_CAPACITY :: nat where "AC_MEMPOOL_CAPACITY = 8192"
definition AC_MIN_BASE_FEE :: u64 where "AC_MIN_BASE_FEE = 1"

datatype ac_mp_result = AC_MP_ACCEPTED | AC_MP_DUPLICATE | AC_MP_INVALID_SIG | AC_MP_WRONG_CHAIN
  | AC_MP_BAD_KIND | AC_MP_EXPIRED | AC_MP_GAS_BELOW_MIN | AC_MP_FULL_DROP_LOW_TIP | AC_MP_NONCE_GAP
  | AC_MP_INSUFFICIENT_FUNDS

fun ac_mp_result_str :: "ac_mp_result \<Rightarrow> string" where
  "ac_mp_result_str AC_MP_ACCEPTED = ''accepted''"
| "ac_mp_result_str AC_MP_DUPLICATE = ''duplicate''"
| "ac_mp_result_str AC_MP_INVALID_SIG = ''invalid signature''"
| "ac_mp_result_str AC_MP_WRONG_CHAIN = ''wrong chain_id''"
| "ac_mp_result_str AC_MP_BAD_KIND = ''bad kind''"
| "ac_mp_result_str AC_MP_EXPIRED = ''expired''"
| "ac_mp_result_str AC_MP_GAS_BELOW_MIN = ''gas below minimum''"
| "ac_mp_result_str AC_MP_FULL_DROP_LOW_TIP = ''pool full and tip too low''"
| "ac_mp_result_str AC_MP_NONCE_GAP = ''nonce gap''"
| "ac_mp_result_str AC_MP_INSUFFICIENT_FUNDS = ''insufficient funds''"

definition ac_mempool_new :: "u64 \<Rightarrow> ac_mempool" where
  "ac_mempool_new chain_id = \<lparr>mp_chain_id = chain_id, mp_entries = [], mp_cap = 0\<rparr>"

section \<open>Operations\<close>

fun mp_find :: "mp_entry list \<Rightarrow> ac_hash \<Rightarrow> int" where
  "mp_find [] h = -1"
| "mp_find (e # es) h =
     (if ac_hash_eq (me_hash e) h then 0
      else let i = mp_find es h in if i < 0 then -1 else i + 1)"

text \<open>The position scan of \<^verbatim>\<open>mp_insert\<close>: the first entry with a smaller tip.\<close>

fun mp_pos :: "mp_entry list \<Rightarrow> u64 \<Rightarrow> nat" where
  "mp_pos [] tip = 0"
| "mp_pos (e # es) tip = (if me_tip e < tip then 0 else Suc (mp_pos es tip))"

definition mp_newcap :: "ac_mempool \<Rightarrow> nat" where
  "mp_newcap mp =
     (if length (mp_entries mp) + 1 > mp_cap mp then
        let newcap = (if mp_cap mp \<noteq> 0 then mp_cap mp * 2 else 128)
        in if newcap > AC_MEMPOOL_CAPACITY then AC_MEMPOOL_CAPACITY else newcap
      else mp_cap mp)"

definition mp_insert :: "ac_mempool \<Rightarrow> mp_entry \<Rightarrow> ac_mempool" where
  "mp_insert mp e =
     mp\<lparr>mp_cap := mp_newcap mp,
        mp_entries := insert_at (mp_pos (mp_entries mp) (me_tip e)) e (mp_entries mp)\<rparr>"

text \<open>
  The replacement scan: \<open>None\<close> if an entry of the same sender and nonce has at least the new tip,
  else the entries without it.
\<close>

fun mp_replace :: "ac_tx \<Rightarrow> mp_entry list \<Rightarrow> mp_entry list option" where
  "mp_replace tx [] = Some []"
| "mp_replace tx (e # es) =
     (if tx_nonce (me_tx e) = tx_nonce tx \<and> ac_addr_eq (tx_sender (me_tx e)) (tx_sender tx) then
        (if tx_tip tx \<le> tx_tip (me_tx e) then None else Some es)
      else map_option (Cons e) (mp_replace tx es))"

definition mp_precheck :: "sodium \<Rightarrow> ac_mempool \<Rightarrow> ac_state \<Rightarrow> ac_tx \<Rightarrow> u64 \<Rightarrow> ac_mp_result option" where
  "mp_precheck S mp state tx current_slot =
     (if tx_chain_id tx \<noteq> mp_chain_id mp then Some AC_MP_WRONG_CHAIN
      else if tx_version tx \<noteq> AC_TX_VERSION then Some AC_MP_BAD_KIND
      else if ac_tx_intrinsic_gas (tx_kind tx) < 0 then Some AC_MP_BAD_KIND
      else if current_slot \<ge> tx_valid_until tx then Some AC_MP_EXPIRED
      else if ucast (tx_gas_limit tx) < ac_tx_total_gas tx then Some AC_MP_GAS_BELOW_MIN
      else if \<not> ac_tx_verify S tx then Some AC_MP_INVALID_SIG
      else let sender = snd (ac_state_get state (tx_sender tx)) in
        if tx_nonce tx \<noteq> acc_nonce sender then Some AC_MP_NONCE_GAP
        else let max_fee = ucast (tx_gas_limit tx) * (AC_MIN_BASE_FEE + tx_tip tx);
                 value = (if tx_kind tx = AC_TX_TRANSFER \<and> unat (tx_body_len tx) \<ge> AC_PUBKEY_SIZE + 8
                          then ac_rd64 (drop AC_PUBKEY_SIZE (tx_body tx)) else 0)
          in if acc_balance sender < max_fee + value then Some AC_MP_INSUFFICIENT_FUNDS else None)"

definition ac_mempool_add ::
  "sodium \<Rightarrow> ac_mempool \<Rightarrow> ac_state \<Rightarrow> ac_tx \<Rightarrow> u64 \<Rightarrow> ac_mp_result \<times> ac_mempool" where
  "ac_mempool_add S mp state tx current_slot =
     (case mp_precheck S mp state tx current_slot of
        Some r \<Rightarrow> (r, mp)
      | None \<Rightarrow>
        let h = ac_tx_hash S tx in
        if mp_find (mp_entries mp) h \<ge> 0 then (AC_MP_DUPLICATE, mp)
        else case mp_replace tx (mp_entries mp) of
            None \<Rightarrow> (AC_MP_DUPLICATE, mp)
          | Some es \<Rightarrow>
            let mp = mp\<lparr>mp_entries := es\<rparr>;
                e = \<lparr>me_tx = tx, me_hash = h, me_tip = tx_tip tx, me_added_slot = current_slot\<rparr>
            in if length es \<ge> AC_MEMPOOL_CAPACITY then
                 (if me_tip (last es) \<ge> tx_tip tx then (AC_MP_FULL_DROP_LOW_TIP, mp)
                  else (AC_MP_ACCEPTED, mp_insert (mp\<lparr>mp_entries := butlast es\<rparr>) e))
               else (AC_MP_ACCEPTED, mp_insert mp e))"

definition ac_mempool_has :: "ac_mempool \<Rightarrow> ac_hash \<Rightarrow> bool" where
  "ac_mempool_has mp h \<longleftrightarrow> mp_find (mp_entries mp) h \<ge> 0"

definition ac_mempool_remove :: "ac_mempool \<Rightarrow> ac_hash \<Rightarrow> ac_mempool" where
  "ac_mempool_remove mp h =
     (let i = mp_find (mp_entries mp) h
      in if i \<ge> 0 then mp\<lparr>mp_entries := remove_at (nat i) (mp_entries mp)\<rparr> else mp)"

definition ac_mempool_size :: "ac_mempool \<Rightarrow> nat" where
  "ac_mempool_size mp = length (mp_entries mp)"

text \<open>The read index visits every entry; the write index copies the ones kept to the front.\<close>

fun prune_loop :: "u64 \<Rightarrow> mp_entry list \<Rightarrow> mp_entry list \<Rightarrow> nat \<Rightarrow> mp_entry list \<times> nat" where
  "prune_loop slot [] kept dropped = (kept, dropped)"
| "prune_loop slot (e # es) kept dropped =
     (if tx_valid_until (me_tx e) \<le> slot then prune_loop slot es kept (dropped + 1)
      else prune_loop slot es (kept @ [e]) dropped)"

definition ac_mempool_prune_expired :: "ac_mempool \<Rightarrow> u64 \<Rightarrow> nat \<times> ac_mempool" where
  "ac_mempool_prune_expired mp slot =
     (case prune_loop slot (mp_entries mp) [] 0 of
        (kept, dropped) \<Rightarrow> (dropped, mp\<lparr>mp_entries := kept\<rparr>))"

definition ac_mempool_snapshot :: "ac_mempool \<Rightarrow> nat \<Rightarrow> ac_tx list" where
  "ac_mempool_snapshot mp limit = map me_tx (take limit (mp_entries mp))"

text \<open>The hashes a visitor is called with: it stops after the first call that returns non-zero.\<close>

fun each_hash_loop :: "(ac_hash \<Rightarrow> bool) \<Rightarrow> mp_entry list \<Rightarrow> ac_hash list" where
  "each_hash_loop stop [] = []"
| "each_hash_loop stop (e # es) = me_hash e # (if stop (me_hash e) then [] else each_hash_loop stop es)"

definition ac_mempool_each_hash :: "ac_mempool \<Rightarrow> (ac_hash \<Rightarrow> bool) \<Rightarrow> ac_hash list" where
  "ac_mempool_each_hash mp stop = each_hash_loop stop (mp_entries mp)"

section \<open>The invariant\<close>

definition entry_ok :: "sodium \<Rightarrow> u64 \<Rightarrow> mp_entry \<Rightarrow> bool" where
  "entry_ok S chain_id e \<longleftrightarrow> wf_tx (me_tx e) \<and> me_hash e = ac_tx_hash S (me_tx e) \<and>
     me_tip e = tx_tip (me_tx e) \<and> tx_chain_id (me_tx e) = chain_id \<and> ac_tx_verify S (me_tx e)"

definition entry_key :: "mp_entry \<Rightarrow> ac_addr \<times> u64" where
  "entry_key e = (tx_sender (me_tx e), tx_nonce (me_tx e))"

definition by_tip :: "mp_entry list \<Rightarrow> bool" where
  "by_tip es \<longleftrightarrow> sorted_wrt (\<lambda>a b. me_tip b \<le> me_tip a) es"

definition entries_ok :: "sodium \<Rightarrow> u64 \<Rightarrow> mp_entry list \<Rightarrow> bool" where
  "entries_ok S chain_id es \<longleftrightarrow> list_all (entry_ok S chain_id) es \<and> by_tip es \<and>
     distinct (map entry_key es) \<and> distinct (map me_hash es)"

definition mempool_ok :: "sodium \<Rightarrow> ac_mempool \<Rightarrow> bool" where
  "mempool_ok S mp \<longleftrightarrow> entries_ok S (mp_chain_id mp) (mp_entries mp) \<and>
     length (mp_entries mp) \<le> mp_cap mp \<and> mp_cap mp \<le> AC_MEMPOOL_CAPACITY"

section \<open>Lemmas on the scans\<close>

lemma mp_find_ge: "mp_find es h \<ge> -1"
  by (induction es) (auto simp: Let_def)

lemma mp_find_none: "mp_find es h < 0 \<longleftrightarrow> (\<forall>e\<in>set es. \<not> ac_hash_eq (me_hash e) h)"
  by (induction es) (auto simp: Let_def)

lemma mp_find_index:
  "mp_find es h \<ge> 0 \<Longrightarrow> nat (mp_find es h) < length es \<and> ac_hash_eq (me_hash (es ! nat (mp_find es h))) h"
  by (induction es) (auto simp: Let_def nat_add_distrib split: if_splits)

lemma mp_pos_split:
  assumes "by_tip es"
  shows "mp_pos es tip \<le> length es" "\<forall>e\<in>set (take (mp_pos es tip) es). tip \<le> me_tip e"
    "\<forall>e\<in>set (drop (mp_pos es tip) es). me_tip e < tip"
  using assms by (induction es) (auto simp: by_tip_def)

lemma by_tip_insert:
  assumes "by_tip es"
  shows "by_tip (insert_at (mp_pos es (me_tip e)) e es)"
proof -
  have "by_tip (take (mp_pos es (me_tip e)) es @ drop (mp_pos es (me_tip e)) es)" using assms by simp
  then show ?thesis
    using mp_pos_split [OF assms, of "me_tip e"] unfolding insert_at_def
    by (auto simp: by_tip_def sorted_wrt_append) (meson less_imp_le order_trans)
qed

lemma mp_replace_subseq: "mp_replace tx es = Some es' \<Longrightarrow> subseq es' es"
  by (induction es arbitrary: es') (auto split: if_splits)

lemma mp_replace_key:
  assumes "mp_replace tx es = Some es'" "distinct (map entry_key es)" "\<forall>e\<in>set es. wf_addr (tx_sender (me_tx e))"
    and "wf_addr (tx_sender tx)"
  shows "(tx_sender tx, tx_nonce tx) \<notin> entry_key ` set es'"
  using assms
proof (induction es arbitrary: es')
  case (Cons e es)
  let ?k = "(tx_sender tx, tx_nonce tx)"
  have eq: "tx_nonce (me_tx e) = tx_nonce tx \<and> ac_addr_eq (tx_sender (me_tx e)) (tx_sender tx) \<longleftrightarrow> entry_key e = ?k"
    using Cons.prems(3,4) ac_addr_eq_iff by (auto simp: entry_key_def)
  show ?case
  proof (cases "entry_key e = ?k")
    case True
    then have "es' = es" using Cons.prems(1) eq by (simp split: if_splits)
    then show ?thesis using Cons.prems(2) True by auto
  next
    case False
    then obtain r where "mp_replace tx es = Some r" "es' = e # r" using Cons.prems(1) eq by auto
    then show ?thesis using Cons.IH [of r] Cons.prems False by auto
  qed
qed simp

lemma mp_replace_shorter:
  "mp_replace tx es = Some es' \<Longrightarrow> es' = es \<or> Suc (length es') = length es"
  by (induction es arbitrary: es') (auto split: if_splits)

lemma subseq_sorted_wrt: "subseq xs ys \<Longrightarrow> sorted_wrt P ys \<Longrightarrow> sorted_wrt P xs"
  by (induction rule: list_emb.induct) (auto dest: list_emb_set)

lemma subseq_map_distinct: "subseq xs ys \<Longrightarrow> distinct (map f ys) \<Longrightarrow> distinct (map f xs)"
  by (induction rule: list_emb.induct) (auto dest: list_emb_set)

lemma entries_ok_subseq: "subseq es' es \<Longrightarrow> entries_ok S c es \<Longrightarrow> entries_ok S c es'"
  by (auto simp: entries_ok_def by_tip_def list_all_iff
      intro: subseq_sorted_wrt subseq_map_distinct dest: list_emb_set)

lemma distinct_insert_at:
  assumes "distinct (map f es)" "f e \<notin> f ` set es"
  shows "distinct (map f (insert_at p e es))"
proof -
  have "distinct (map f (take p es) @ map f (drop p es))"
    using assms(1) by (simp flip: map_append)
  moreover have "f e \<notin> f ` (set (take p es) \<union> set (drop p es))"
    using assms(2) by (auto dest: in_set_takeD in_set_dropD)
  ultimately show ?thesis by (auto simp: insert_at_def)
qed

lemma entries_ok_insert:
  assumes "entries_ok S c es" "entry_ok S c e" "entry_key e \<notin> entry_key ` set es" "me_hash e \<notin> me_hash ` set es"
  shows "entries_ok S c (insert_at (mp_pos es (me_tip e)) e es)"
  using assms by (simp add: entries_ok_def list_all_iff by_tip_insert distinct_insert_at)

lemma mp_newcap_room:
  assumes "length (mp_entries mp) \<le> mp_cap mp" "mp_cap mp \<le> AC_MEMPOOL_CAPACITY"
    and "length (mp_entries mp) < AC_MEMPOOL_CAPACITY"
  shows "length (mp_entries mp) < mp_newcap mp" "mp_newcap mp \<le> AC_MEMPOOL_CAPACITY"
  using assms by (auto simp: mp_newcap_def Let_def AC_MEMPOOL_CAPACITY_def)

lemma mp_insert_ok:
  assumes "entries_ok S c (mp_entries mp)" "c = mp_chain_id mp" "entry_ok S c e"
    and "entry_key e \<notin> entry_key ` set (mp_entries mp)" "me_hash e \<notin> me_hash ` set (mp_entries mp)"
    and "length (mp_entries mp) \<le> mp_cap mp" "mp_cap mp \<le> AC_MEMPOOL_CAPACITY"
    and "length (mp_entries mp) < AC_MEMPOOL_CAPACITY"
  shows "mempool_ok S (mp_insert mp e)"
  using entries_ok_insert [OF assms(1,3,4,5)] mp_newcap_room [OF assms(6-8)] assms(2)
  by (auto simp: mempool_ok_def mp_insert_def)

lemma mp_find_fresh:
  assumes "mp_find es (ac_tx_hash S tx) < 0" "\<forall>e\<in>set es. wf_hash (me_hash e)" "sodium_ok S"
  shows "ac_tx_hash S tx \<notin> me_hash ` set es"
  using assms length_ac_tx_hash [OF assms(3), of tx] unfolding mp_find_none
  by (auto simp: ac_hash_eq_iff wf_hash_def)

lemma remove_at_subseq: "subseq (remove_at i es) es"
proof (cases "i < length es")
  case True
  have "subseq (take i es @ drop (Suc i) es) (take i es @ es ! i # drop (Suc i) es)"
    by (intro list_emb_append_mono list_emb_Cons) simp_all
  then show ?thesis using nth_split [OF True] by (simp add: remove_at_def)
qed (simp add: remove_at_def)

lemma prune_loop_filter:
  "prune_loop slot es kept d =
     (kept @ filter (\<lambda>e. \<not> tx_valid_until (me_tx e) \<le> slot) es,
      d + length (filter (\<lambda>e. tx_valid_until (me_tx e) \<le> slot) es))"
  by (induction slot es kept d rule: prune_loop.induct) auto

lemma mempool_ok_shrink:
  assumes "mempool_ok S mp" "subseq es (mp_entries mp)"
  shows "mempool_ok S (mp\<lparr>mp_entries := es\<rparr>)"
  using assms entries_ok_subseq [OF assms(2)] list_emb_length [OF assms(2)] by (auto simp: mempool_ok_def)

section \<open>Adding\<close>

lemma ac_mempool_add_cases:
  assumes "ac_mempool_add S mp state tx slot = (r, mp')" "mempool_ok S mp"
  obtains (kept) "mp' = mp" "r \<noteq> AC_MP_ACCEPTED"
    | (added) es es' where "r = AC_MP_ACCEPTED" "mp_precheck S mp state tx slot = None"
      "mp_find (mp_entries mp) (ac_tx_hash S tx) < 0" "mp_replace tx (mp_entries mp) = Some es'"
      "es = es' \<or> es = butlast es' \<and> es' = mp_entries mp \<and> es' \<noteq> [] \<and> length es' = AC_MEMPOOL_CAPACITY \<and> me_tip (last es') < tx_tip tx"
      "length es < AC_MEMPOOL_CAPACITY"
      "mp' = mp_insert (mp\<lparr>mp_entries := es\<rparr>)
         \<lparr>me_tx = tx, me_hash = ac_tx_hash S tx, me_tip = tx_tip tx, me_added_slot = slot\<rparr>"
proof (cases "mp_precheck S mp state tx slot = None \<and> mp_find (mp_entries mp) (ac_tx_hash S tx) < 0 \<and>
    mp_replace tx (mp_entries mp) \<noteq> None")
  case False
  have "mp' = mp \<and> r \<noteq> AC_MP_ACCEPTED"
  proof (cases "mp_precheck S mp state tx slot")
    case None
    then show ?thesis using assms(1) False by (auto simp: ac_mempool_add_def Let_def split: if_splits)
  next
    case (Some x)
    then have "x \<noteq> AC_MP_ACCEPTED" by (auto simp: mp_precheck_def Let_def split: if_splits)
    then show ?thesis using assms(1) Some by (simp add: ac_mempool_add_def)
  qed
  then show ?thesis using kept by blast
next
  case True
  then obtain es' where t: "mp_precheck S mp state tx slot = None"
      "mp_find (mp_entries mp) (ac_tx_hash S tx) < 0" "mp_replace tx (mp_entries mp) = Some es'" by auto
  let ?e = "\<lparr>me_tx = tx, me_hash = ac_tx_hash S tx, me_tip = tx_tip tx, me_added_slot = slot\<rparr>"
  have len: "length (mp_entries mp) \<le> AC_MEMPOOL_CAPACITY" using assms(2) by (simp add: mempool_ok_def)
  have add: "ac_mempool_add S mp state tx slot =
      (if length es' \<ge> AC_MEMPOOL_CAPACITY then
         (if me_tip (last es') \<ge> tx_tip tx then (AC_MP_FULL_DROP_LOW_TIP, mp\<lparr>mp_entries := es'\<rparr>)
          else (AC_MP_ACCEPTED, mp_insert (mp\<lparr>mp_entries := butlast es'\<rparr>) ?e))
       else (AC_MP_ACCEPTED, mp_insert (mp\<lparr>mp_entries := es'\<rparr>) ?e))"
    using t by (simp add: ac_mempool_add_def Let_def)
  show ?thesis
  proof (cases "length es' \<ge> AC_MEMPOOL_CAPACITY")
    case False
    then show ?thesis using added [OF _ t, of es'] add assms(1) by simp
  next
    case full: True
    then have same: "es' = mp_entries mp" using mp_replace_shorter [OF t(3)] len by auto
    have ne: "es' \<noteq> []" "length (butlast es') < AC_MEMPOOL_CAPACITY" "length es' = AC_MEMPOOL_CAPACITY"
      using full same len by (auto simp: AC_MEMPOOL_CAPACITY_def)
    show ?thesis
    proof (cases "me_tip (last es') \<ge> tx_tip tx")
      case True
      then show ?thesis using kept add full same assms(1) by simp
    next
      case False
      then have "r = AC_MP_ACCEPTED" "mp' = mp_insert (mp\<lparr>mp_entries := butlast es'\<rparr>) ?e"
        using add full assms(1) by simp_all
      then show ?thesis using added [OF _ t, of "butlast es'"] same ne False by (simp add: not_le)
    qed
  qed
qed

lemma subseq_butlast: "subseq (butlast es) es"
  using remove_at_subseq [of "length es - 1" es] by (cases es rule: rev_cases) (simp_all add: remove_at_def)

lemma added_subseq:
  assumes "mp_replace tx (mp_entries mp) = Some es'"
    and "es = es' \<or> es = butlast es' \<and> es' = mp_entries mp \<and> es' \<noteq> [] \<and> length es' = AC_MEMPOOL_CAPACITY \<and> me_tip (last es') < tx_tip tx"
  shows "subseq es (mp_entries mp)" "set es \<subseteq> set es'"
  using assms mp_replace_subseq [OF assms(1)] subseq_butlast [of es'] by (auto dest: in_set_butlastD)

lemma ac_mempool_add_ok:
  assumes "sodium_ok S" "mempool_ok S mp" "wf_tx tx" "ac_mempool_add S mp state tx slot = (r, mp')"
  shows "mempool_ok S mp'"
  using assms(4,2)
proof (cases rule: ac_mempool_add_cases)
  case kept
  then show ?thesis using assms(2) by simp
next
  case (added es es')
  let ?e = "\<lparr>me_tx = tx, me_hash = ac_tx_hash S tx, me_tip = tx_tip tx, me_added_slot = slot\<rparr>"
  have ok: "entries_ok S (mp_chain_id mp) (mp_entries mp)" "length (mp_entries mp) \<le> mp_cap mp" "mp_cap mp \<le> AC_MEMPOOL_CAPACITY"
    using assms(2) by (simp_all add: mempool_ok_def)
  note sub = added_subseq [OF added(4,5)]
  have old: "distinct (map entry_key (mp_entries mp))" "\<forall>e\<in>set (mp_entries mp). wf_addr (tx_sender (me_tx e))"
      "\<forall>e\<in>set (mp_entries mp). wf_hash (me_hash e)"
    using ok(1) length_ac_tx_hash [OF assms(1)]
    by (auto simp: entries_ok_def list_all_iff entry_ok_def wf_tx_def wf_hash_def)
  have "wf_addr (tx_sender tx)" using assms(3) by (simp add: wf_tx_def)
  then have key: "entry_key ?e \<notin> entry_key ` set es"
    using mp_replace_key [OF added(4) old(1,2)] sub(2) by (auto simp: entry_key_def)
  have hash: "me_hash ?e \<notin> me_hash ` set es"
    using mp_find_fresh [OF added(3) old(3) assms(1)] sub(1) by (auto dest: list_emb_set)
  have e: "entry_ok S (mp_chain_id mp) ?e"
    using added(2) assms(3) by (auto simp: entry_ok_def mp_precheck_def Let_def split: if_splits)
  have len: "length es \<le> mp_cap mp" using list_emb_length [OF sub(1)] ok(2) by simp
  show ?thesis
    unfolding added(7)
  proof (rule mp_insert_ok [of S "mp_chain_id mp"])
    show "entries_ok S (mp_chain_id mp) (mp_entries (mp\<lparr>mp_entries := es\<rparr>))"
      using entries_ok_subseq [OF sub(1) ok(1)] by simp
    show "entry_ok S (mp_chain_id mp) ?e" by (rule e)
  qed (use key hash len ok(3) added(6) in simp_all)
qed

section \<open>What block production relies on\<close>

text \<open>
  A source of transactions for a block: it hands out at most as many as asked for, best tip first,
  each from a well-formed entry, and never two with the same sender and nonce.
\<close>

locale tx_source =
  fixes snapshot :: "'p \<Rightarrow> nat \<Rightarrow> ac_tx list"
    and ok :: "'p \<Rightarrow> bool"
  assumes snapshot_length: "length (snapshot p n) \<le> n"
    and snapshot_sorted: "ok p \<Longrightarrow> sorted_wrt (\<lambda>a b. tx_tip b \<le> tx_tip a) (snapshot p n)"
    and snapshot_distinct: "ok p \<Longrightarrow> distinct (map (\<lambda>t. (tx_sender t, tx_nonce t)) (snapshot p n))"
    and snapshot_wf: "ok p \<Longrightarrow> list_all wf_tx (snapshot p n)"
    and snapshot_take: "m \<le> n \<Longrightarrow> snapshot p m = take m (snapshot p n)"
begin

lemma best_first: "ok p \<Longrightarrow> snapshot p n = t # ts \<Longrightarrow> u \<in> set ts \<Longrightarrow> tx_tip u \<le> tx_tip t"
  using snapshot_sorted [of p n] by auto

lemma left_out_worse:
  assumes "ok p" "t \<in> set (snapshot p m)" "m \<le> n" "u \<in> set (drop m (snapshot p n))"
  shows "tx_tip u \<le> tx_tip t"
proof -
  have "sorted_wrt (\<lambda>a b. tx_tip b \<le> tx_tip a) (take m (snapshot p n) @ drop m (snapshot p n))"
    using snapshot_sorted [OF assms(1)] by simp
  then show ?thesis
    unfolding sorted_wrt_append using assms(2,4) snapshot_take [OF assms(3)] by auto
qed

end

interpretation pool: tx_source ac_mempool_snapshot "mempool_ok S" for S
proof
  fix p m n
  show "length (ac_mempool_snapshot p n) \<le> n" by (simp add: ac_mempool_snapshot_def)
  show "m \<le> n \<Longrightarrow> ac_mempool_snapshot p m = take m (ac_mempool_snapshot p n)"
    by (simp add: ac_mempool_snapshot_def take_map min_absorb1)
  assume "mempool_ok S p"
  then have ok: "list_all (entry_ok S (mp_chain_id p)) (mp_entries p)" "by_tip (mp_entries p)"
    "distinct (map entry_key (mp_entries p))"
    by (simp_all add: mempool_ok_def entries_ok_def)
  have tip: "\<forall>e\<in>set (take n (mp_entries p)). me_tip e = tx_tip (me_tx e) \<and> wf_tx (me_tx e)"
    using ok(1) by (auto simp: list_all_iff entry_ok_def dest: in_set_takeD)
  have "sorted_wrt (\<lambda>a b. me_tip b \<le> me_tip a) (take n (mp_entries p))"
    using ok(2) unfolding by_tip_def by (metis append_take_drop_id sorted_wrt_append)
  then show "sorted_wrt (\<lambda>a b. tx_tip b \<le> tx_tip a) (ac_mempool_snapshot p n)"
    unfolding ac_mempool_snapshot_def sorted_wrt_map
    by (rule sorted_wrt_mono_rel [rotated]) (use tip in auto)
  have "distinct (map entry_key (take n (mp_entries p)))"
    using ok(3) by (simp flip: take_map add: distinct_take)
  then show "distinct (map (\<lambda>t. (tx_sender t, tx_nonce t)) (ac_mempool_snapshot p n))"
    by (simp add: ac_mempool_snapshot_def entry_key_def [abs_def] comp_def)
  show "list_all wf_tx (ac_mempool_snapshot p n)"
    using tip by (simp add: ac_mempool_snapshot_def list_all_iff)
qed

section \<open>Properties of the pool\<close>

text \<open>The pools a node can reach: the empty one, and what the three mutating operations make of one.\<close>

inductive mempool_reach :: "sodium \<Rightarrow> u64 \<Rightarrow> ac_mempool \<Rightarrow> bool" for S chain_id where
  reach_new: "mempool_reach S chain_id (ac_mempool_new chain_id)"
| reach_add: "mempool_reach S chain_id mp \<Longrightarrow> wf_tx tx \<Longrightarrow>
    mempool_reach S chain_id (snd (ac_mempool_add S mp state tx slot))"
| reach_remove: "mempool_reach S chain_id mp \<Longrightarrow> mempool_reach S chain_id (ac_mempool_remove mp h)"
| reach_prune: "mempool_reach S chain_id mp \<Longrightarrow>
    mempool_reach S chain_id (snd (ac_mempool_prune_expired mp slot))"

text \<open>
  Claim C29. Every reachable pool is sorted by tip, holds only transactions of its chain with valid
  signatures and their own hashes, has at most one transaction per hash and per sender and nonce,
  and its array stays within the allocated capacity, itself at most 8192 entries.
\<close>

theorem mempool_reach_ok:
  assumes "sodium_ok S" "mempool_reach S chain_id mp"
  shows "mempool_ok S mp \<and> mp_chain_id mp = chain_id"
  using assms(2)
proof (induction rule: mempool_reach.induct)
  case reach_new
  then show ?case by (simp add: ac_mempool_new_def mempool_ok_def entries_ok_def by_tip_def)
next
  case (reach_add mp tx state slot)
  obtain r mp' where add: "ac_mempool_add S mp state tx slot = (r, mp')" by fastforce
  have "mp_chain_id mp' = mp_chain_id mp"
    using add by (auto simp: ac_mempool_add_def mp_insert_def Let_def split: option.splits if_splits)
  then show ?case using ac_mempool_add_ok [OF assms(1) _ reach_add.hyps(2) add] reach_add.IH add by simp
next
  case (reach_remove mp h)
  then show ?case
    using mempool_ok_shrink [OF _ remove_at_subseq] by (auto simp: ac_mempool_remove_def Let_def)
next
  case (reach_prune mp slot)
  then show ?case
    using mempool_ok_shrink [OF _ subseq_filter_left] by (auto simp: ac_mempool_prune_expired_def prune_loop_filter)
qed

text \<open>A signed transfer for concrete runs: the demonstration signature of its hash.\<close>

definition demo_signed :: ac_tx where
  "demo_signed = the (ac_tx_sign demo_sodium demo_transfer (ac_keypair_from_seed demo_sodium (1 # zeros 31)))"

lemma demo_sender_key: "tx_sender demo_transfer = kp_pk (ac_keypair_from_seed demo_sodium (1 # zeros 31))"
  by (simp add: ac_keypair_from_seed_def demo_sodium_def)

lemma wf_demo_signed: "wf_tx demo_signed"
  using length_ac_sign [OF sodium_ok_demo] wf_demo_transfer
  by (simp add: demo_signed_def ac_tx_sign_def ac_tx_signable_bytes_eq) (simp add: wf_tx_def wf)

theorem mempool_reach_ok_witness:
  "fst (ac_mempool_add demo_sodium (ac_mempool_new 7) demo_state demo_signed 0) = AC_MP_ACCEPTED \<and>
   mempool_ok demo_sodium (snd (ac_mempool_add demo_sodium (ac_mempool_new 7) demo_state demo_signed 0))"
proof -
  have "fst (ac_mempool_add demo_sodium (ac_mempool_new 7) demo_state demo_signed 0) = AC_MP_ACCEPTED"
    by code_simp
  then show ?thesis
    using mempool_reach_ok [OF sodium_ok_demo reach_add [OF reach_new wf_demo_signed]] by blast
qed

lemma mp_replace_lost:
  assumes "mp_replace tx es = Some es'" "e \<in> set es" "e \<notin> set es'"
    and "\<forall>e\<in>set es. wf_addr (tx_sender (me_tx e))" "wf_addr (tx_sender tx)"
  shows "tx_tip (me_tx e) < tx_tip tx \<and> entry_key e = (tx_sender tx, tx_nonce tx)"
  using assms
proof (induction es arbitrary: es')
  case (Cons x xs)
  have eq: "ac_addr_eq (tx_sender (me_tx x)) (tx_sender tx) \<longleftrightarrow> tx_sender (me_tx x) = tx_sender tx"
    using Cons.prems(4,5) by (intro ac_addr_eq_iff) auto
  show ?case
    using Cons eq by (auto simp: entry_key_def not_le split: if_splits)
qed simp

text \<open>
  Adding is all or nothing. If the result is not \<^verbatim>\<open>ACCEPTED\<close> the pool is unchanged. If it
  is, the new transaction is in the pool, every other entry was there before, and the pool has not
  shrunk; an entry that left had a strictly smaller tip and was either the one of the same sender
  and nonce or the last one of a full pool.
\<close>

theorem ac_mempool_add_spec:
  assumes "sodium_ok S" "mempool_ok S mp" "wf_tx tx" "ac_mempool_add S mp state tx slot = (r, mp')"
  defines "new \<equiv> \<lparr>me_tx = tx, me_hash = ac_tx_hash S tx, me_tip = tx_tip tx, me_added_slot = slot\<rparr>"
  shows "(r \<noteq> AC_MP_ACCEPTED \<longrightarrow> mp' = mp) \<and>
    (r = AC_MP_ACCEPTED \<longrightarrow>
       new \<in> set (mp_entries mp') \<and> set (mp_entries mp') \<subseteq> insert new (set (mp_entries mp)) \<and>
       length (mp_entries mp) \<le> length (mp_entries mp') \<and>
       (\<forall>e\<in>set (mp_entries mp) - set (mp_entries mp'). tx_tip (me_tx e) < tx_tip tx \<and>
          (entry_key e = (tx_sender tx, tx_nonce tx) \<or>
           e = last (mp_entries mp) \<and> length (mp_entries mp) = AC_MEMPOOL_CAPACITY)))"
  using assms(4,2)
proof (cases rule: ac_mempool_add_cases)
  case (added es es')
  have set: "set (mp_entries mp') = insert new (set es)" "length (mp_entries mp') = Suc (length es)"
    by (simp_all add: added(7) mp_insert_def new_def)
  note sub = added_subseq [OF added(4,5)]
  have tip: "\<forall>e\<in>set (mp_entries mp). me_tip e = tx_tip (me_tx e) \<and> wf_addr (tx_sender (me_tx e))"
    and len: "length (mp_entries mp) \<le> AC_MEMPOOL_CAPACITY"
    using assms(2) by (auto simp: mempool_ok_def entries_ok_def entry_ok_def list_all_iff wf_tx_def)
  have w: "wf_addr (tx_sender tx)" using assms(3) by (simp add: wf_tx_def)
  have lost: "tx_tip (me_tx e) < tx_tip tx \<and> (entry_key e = (tx_sender tx, tx_nonce tx) \<or> e = last (mp_entries mp) \<and> es \<noteq> es')"
    if "e \<in> set (mp_entries mp)" "e \<notin> set es" for e
  proof (cases "e \<in> set es'")
    case True
    then have b: "es = butlast es'" "es' = mp_entries mp" "es' \<noteq> []" "me_tip (last es') < tx_tip tx" "es \<noteq> es'"
      using added(5) that(2) by auto
    have "set es' = insert (last es') (set (butlast es'))"
      using arg_cong [OF append_butlast_last_id [OF b(3)], of set] by simp
    then have "e = last es'" using True that(2) b(1) by blast
    then show ?thesis using b tip that(1) by auto
  next
    case False
    then show ?thesis using mp_replace_lost [OF added(4) that(1)] tip w by auto
  qed
  have full: "length (mp_entries mp) = AC_MEMPOOL_CAPACITY" if "es \<noteq> es'"
    using that added(5) by auto
  have "length (mp_entries mp) \<le> Suc (length es)"
    using added(5) mp_replace_shorter [OF added(4)] by auto
  then show ?thesis
    using set sub lost full added(1) by (auto dest: list_emb_set)
qed simp

theorem ac_mempool_add_spec_witness:
  "set (mp_entries (snd (ac_mempool_add demo_sodium (ac_mempool_new 7) demo_state demo_signed 0))) =
     {\<lparr>me_tx = demo_signed, me_hash = ac_tx_hash demo_sodium demo_signed, me_tip = tx_tip demo_signed, me_added_slot = 0\<rparr>}"
proof -
  have ok: "mempool_ok demo_sodium (ac_mempool_new 7)"
    by (simp add: ac_mempool_new_def mempool_ok_def entries_ok_def by_tip_def)
  have "fst (ac_mempool_add demo_sodium (ac_mempool_new 7) demo_state demo_signed 0) = AC_MP_ACCEPTED"
    by code_simp
  then obtain mp' where run: "ac_mempool_add demo_sodium (ac_mempool_new 7) demo_state demo_signed 0 = (AC_MP_ACCEPTED, mp')"
    by (metis prod.collapse)
  show ?thesis
    using ac_mempool_add_spec [OF sodium_ok_demo ok wf_demo_signed run] run by (auto simp: ac_mempool_new_def)
qed

text \<open>
  Removing a hash removes that transaction and nothing else; pruning keeps, in order,
  exactly the transactions still valid after the slot and counts the others.
\<close>

theorem ac_mempool_remove_prune:
  assumes "sodium_ok S" "mempool_ok S mp" "wf_hash h"
  shows "mp_entries (ac_mempool_remove mp h) = filter (\<lambda>e. me_hash e \<noteq> h) (mp_entries mp) \<and>
    \<not> ac_mempool_has (ac_mempool_remove mp h) h \<and>
    mp_entries (snd (ac_mempool_prune_expired mp slot)) = filter (\<lambda>e. slot < tx_valid_until (me_tx e)) (mp_entries mp) \<and>
    fst (ac_mempool_prune_expired mp slot) + ac_mempool_size (snd (ac_mempool_prune_expired mp slot)) = ac_mempool_size mp"
proof -
  have w: "\<forall>e\<in>set (mp_entries mp). wf_hash (me_hash e)" and d: "distinct (map me_hash (mp_entries mp))"
    using assms(2) length_ac_tx_hash [OF assms(1)]
    by (auto simp: mempool_ok_def entries_ok_def entry_ok_def list_all_iff wf_hash_def)
  have find: "(if mp_find es h \<ge> 0 then remove_at (nat (mp_find es h)) es else es) = filter (\<lambda>e. me_hash e \<noteq> h) es"
    if "\<forall>e\<in>set es. wf_hash (me_hash e)" "distinct (map me_hash es)" for es
    using that
  proof (induction es)
    case (Cons e es)
    have eq: "ac_hash_eq (me_hash e) h \<longleftrightarrow> me_hash e = h" using Cons.prems(1) assms(3) by (intro ac_hash_eq_iff) auto
    have "filter (\<lambda>e. me_hash e \<noteq> h) es = es" if "me_hash e = h"
    proof (rule filter_True)
      have "h \<notin> me_hash ` set es" using that Cons.prems(2) by simp
      then show "\<forall>x\<in>set es. me_hash x \<noteq> h" by blast
    qed
    then show ?case
      using Cons eq by (auto simp: Let_def remove_at_def nat_add_distrib)
  qed simp
  have rem: "mp_entries (ac_mempool_remove mp h) = filter (\<lambda>e. me_hash e \<noteq> h) (mp_entries mp)"
    using find [OF w d] by (auto simp: ac_mempool_remove_def Let_def)
  moreover have "\<not> ac_mempool_has (ac_mempool_remove mp h) h"
    using w assms(3) ac_hash_eq_iff unfolding ac_mempool_has_def rem not_le mp_find_none by auto
  moreover have "length (filter (\<lambda>e. tx_valid_until (me_tx e) \<le> slot) (mp_entries mp)) +
      length (filter (\<lambda>e. \<not> tx_valid_until (me_tx e) \<le> slot) (mp_entries mp)) = length (mp_entries mp)"
    by (rule sum_length_filter_compl)
  ultimately show ?thesis
    by (simp add: ac_mempool_prune_expired_def prune_loop_filter ac_mempool_size_def not_le)
qed

theorem ac_mempool_remove_prune_witness:
  "\<not> ac_mempool_has (ac_mempool_remove (ac_mempool_new 7) (zeros 32)) (zeros 32)"
proof -
  have ok: "mempool_ok demo_sodium (ac_mempool_new 7)"
    by (simp add: ac_mempool_new_def mempool_ok_def entries_ok_def by_tip_def)
  show ?thesis using ac_mempool_remove_prune [OF sodium_ok_demo ok, of "zeros 32"] by (simp add: wf)
qed



end
