(* ===== verification/Chain.thy ===== *)
theory Chain
  imports Complex_Main Mempool
begin

text \<open>
  The parts of \<^verbatim>\<open>chain.c\<close> that block acceptance is built from: the chain record with its files, the
  meta file, block files, the two transaction indexes, the liveness map, the active validators, block
  reward and base fee, genesis, epoch seeds with their cache, and sortition. The struct \<^verbatim>\<open>ac_chain_s\<close>
  is the record \<open>ac_chain\<close>; the data directory is three more fields: the block files by height, the
  state file and the meta file. Whether a file write succeeds and what the clock shows are arguments
  (\<open>ac_io\<close>). The in-place \<^verbatim>\<open>qsort\<close> of the C library is insertion sort by the same comparison, and
  its \<^verbatim>\<open>bsearch\<close> the search loop of the account array.
\<close>

section \<open>Constants\<close>

definition AC_SLOT_DURATION_MS :: u64 where "AC_SLOT_DURATION_MS = 2000"
definition AC_MIN_STAKE_UCRD :: u64 where "AC_MIN_STAKE_UCRD = 100 * 1000000"
definition AC_COMMITTEE_TARGET :: u64 where "AC_COMMITTEE_TARGET = 64"
definition AC_LIVENESS_WINDOW :: u64 where "AC_LIVENESS_WINDOW = 16"
definition AC_MAX_LIVE :: nat where "AC_MAX_LIVE = 256"

section \<open>Structs\<close>

record tx_index_entry =
  ti_hash :: ac_hash
  ti_height :: u64
  ti_tx_idx :: u32

record addr_index_entry =
  ai_addr :: ac_addr
  ai_height :: u64
  ai_tx_idx :: u32
  ai_role :: u8

record ac_addr_tx_entry =
  ae_height :: u64
  ae_tx_idx :: u32
  ae_role :: u8

record live_entry =
  le_addr :: ac_addr
  le_last_sign_height :: u64

record ac_chain =
  ch_state :: ac_state
  ch_chain_id :: u64
  ch_height :: u64
  ch_tip_hash :: ac_hash
  ch_last_slot :: u64
  ch_last_timestamp_ms :: u64
  ch_base_fee :: u64
  ch_genesis_timestamp_ms :: u64
  ch_cached_epoch :: u64
  ch_cached_seed :: ac_hash
  ch_cached_valid :: bool
  ch_tx_index :: "tx_index_entry list"
  ch_tx_index_sorted :: bool
  ch_addr_index :: "addr_index_entry list"
  ch_addr_index_sorted :: bool
  ch_live_map :: "live_entry list"
  ch_disk_blocks :: "u64 \<rightharpoonup> bytes"
  ch_disk_state :: "bytes option"
  ch_disk_meta :: "bytes option"

record ac_io =
  io_now_ms :: u64
  io_block_ok :: bool
  io_state_ok :: bool
  io_meta_ok :: bool

record ac_genesis_account =
  ga_addr :: ac_addr
  ga_balance :: u64
  ga_stake :: u64

record ac_genesis =
  g_chain_id :: u64
  g_timestamp_ms :: u64
  g_accounts :: "ac_genesis_account list"

section \<open>Meta file\<close>

definition META_MAGIC :: bytes where "META_MAGIC = cstr ''AGCH:META:v1''"
definition META_VERSION :: u8 where "META_VERSION = 1"

definition meta_bytes :: "ac_chain \<Rightarrow> bytes" where
  "meta_bytes c = META_MAGIC @ META_VERSION # ac_be64 (ch_chain_id c) @ ac_be64 (ch_height c) @
     take AC_HASH_SIZE (ch_tip_hash c) @ ac_be64 (ch_last_slot c) @ ac_be64 (ch_last_timestamp_ms c) @
     ac_be64 (ch_base_fee c) @ ac_be64 (ch_genesis_timestamp_ms c)"

definition meta_save :: "ac_io \<Rightarrow> ac_chain \<Rightarrow> bool \<times> ac_chain" where
  "meta_save io c = (if io_meta_ok io then (True, c\<lparr>ch_disk_meta := Some (meta_bytes c)\<rparr>) else (False, c))"

definition meta_load :: "ac_chain \<Rightarrow> ac_chain option" where
  "meta_load c =
     (case ch_disk_meta c of
        None \<Rightarrow> None
      | Some buf \<Rightarrow>
        if length buf < length META_MAGIC + 1 + 8 * 6 + AC_HASH_SIZE then None
        else if memcmp (take (length META_MAGIC) buf) META_MAGIC \<noteq> 0 then None
        else let pos = length META_MAGIC in
          if buf ! pos \<noteq> META_VERSION then None
          else let p = drop (pos + 1) buf in
            Some (c\<lparr>ch_chain_id := ac_rd64 p, ch_height := ac_rd64 (drop 8 p),
                   ch_tip_hash := take AC_HASH_SIZE (drop 16 p), ch_last_slot := ac_rd64 (drop 48 p),
                   ch_last_timestamp_ms := ac_rd64 (drop 56 p), ch_base_fee := ac_rd64 (drop 64 p),
                   ch_genesis_timestamp_ms := ac_rd64 (drop 72 p)\<rparr>))"

section \<open>Block files\<close>

definition block_write :: "ac_io \<Rightarrow> ac_chain \<Rightarrow> ac_block \<Rightarrow> bool \<times> ac_chain" where
  "block_write io c b =
     (case ac_block_encode b of
        None \<Rightarrow> (False, c)
      | Some buf \<Rightarrow>
        if io_block_ok io then (True, c\<lparr>ch_disk_blocks := (ch_disk_blocks c)(h_height (b_header b) \<mapsto> buf)\<rparr>)
        else (False, c))"

definition block_read :: "ac_chain \<Rightarrow> u64 \<Rightarrow> ac_block option" where
  "block_read c h =
     (case ch_disk_blocks c h of
        None \<Rightarrow> None
      | Some buf \<Rightarrow> map_option fst (ac_block_decode buf))"

definition ac_chain_get_block_by_height :: "ac_chain \<Rightarrow> u64 \<Rightarrow> ac_block option" where
  "ac_chain_get_block_by_height c h = (if h > ch_height c then None else block_read c h)"

definition ac_chain_get_header_by_height :: "ac_chain \<Rightarrow> u64 \<Rightarrow> ac_block_header option" where
  "ac_chain_get_header_by_height c h = map_option b_header (block_read c h)"

definition ac_chain_get_block_hash :: "sodium \<Rightarrow> ac_chain \<Rightarrow> u64 \<Rightarrow> ac_hash option" where
  "ac_chain_get_block_hash S c h =
     (if h = ch_height c then Some (ch_tip_hash c)
      else map_option (ac_block_hash S) (ac_chain_get_header_by_height c h))"

section \<open>Transaction indexes\<close>

fun insort_by :: "('a \<Rightarrow> 'a \<Rightarrow> int) \<Rightarrow> 'a \<Rightarrow> 'a list \<Rightarrow> 'a list" where
  "insort_by cmp x [] = [x]"
| "insort_by cmp x (y # ys) = (if cmp x y \<le> 0 then x # y # ys else y # insort_by cmp x ys)"

definition qsort :: "('a \<Rightarrow> 'a \<Rightarrow> int) \<Rightarrow> 'a list \<Rightarrow> 'a list" where
  "qsort cmp xs = foldr (insort_by cmp) xs []"

definition tx_index_cmp :: "tx_index_entry \<Rightarrow> tx_index_entry \<Rightarrow> int" where
  "tx_index_cmp a b = memcmp (ti_hash a) (ti_hash b)"

definition tx_index_add :: "ac_chain \<Rightarrow> ac_hash \<Rightarrow> u64 \<Rightarrow> u32 \<Rightarrow> ac_chain" where
  "tx_index_add c h height idx =
     c\<lparr>ch_tx_index := ch_tx_index c @ [\<lparr>ti_hash = h, ti_height = height, ti_tx_idx = idx\<rparr>],
       ch_tx_index_sorted := False\<rparr>"

definition tx_index_sort :: "ac_chain \<Rightarrow> ac_chain" where
  "tx_index_sort c =
     (if ch_tx_index_sorted c then c
      else c\<lparr>ch_tx_index := qsort tx_index_cmp (ch_tx_index c), ch_tx_index_sorted := True\<rparr>)"

definition ac_chain_tx_find :: "ac_chain \<Rightarrow> ac_hash \<Rightarrow> (u64 \<times> u32) option \<times> ac_chain" where
  "ac_chain_tx_find c tx_hash =
     (if ch_tx_index c = [] then (None, c)
      else let c = tx_index_sort c;
               i = bsearch (\<lambda>e. memcmp (ti_hash e) tx_hash) (ch_tx_index c) 0 (int (length (ch_tx_index c)) - 1)
        in if i < 0 then (None, c)
           else let r = ch_tx_index c ! nat i in (Some (ti_height r, ti_tx_idx r), c))"

definition addr_index_cmp :: "addr_index_entry \<Rightarrow> addr_index_entry \<Rightarrow> int" where
  "addr_index_cmp a b =
     (let c = memcmp (ai_addr a) (ai_addr b)
      in if c \<noteq> 0 then c
         else if ai_height a < ai_height b then -1
         else if ai_height a > ai_height b then 1
         else if ai_tx_idx a < ai_tx_idx b then -1
         else if ai_tx_idx a > ai_tx_idx b then 1 else 0)"

definition addr_index_push :: "ac_chain \<Rightarrow> ac_addr \<Rightarrow> u64 \<Rightarrow> u32 \<Rightarrow> u8 \<Rightarrow> ac_chain" where
  "addr_index_push c addr height idx role =
     c\<lparr>ch_addr_index := ch_addr_index c @
         [\<lparr>ai_addr = addr, ai_height = height, ai_tx_idx = idx, ai_role = role\<rparr>],
       ch_addr_index_sorted := False\<rparr>"

definition addr_index_record_tx :: "ac_chain \<Rightarrow> ac_tx \<Rightarrow> u64 \<Rightarrow> u32 \<Rightarrow> ac_chain" where
  "addr_index_record_tx c tx height idx =
     (let c = addr_index_push c (tx_sender tx) height idx 0
      in if tx_kind tx = AC_TX_TRANSFER \<and> unat (tx_body_len tx) \<ge> AC_PUBKEY_SIZE then
           let recipient = take AC_PUBKEY_SIZE (tx_body tx)
           in if memcmp recipient (tx_sender tx) \<noteq> 0 then addr_index_push c recipient height idx 1 else c
         else c)"

definition addr_index_sort :: "ac_chain \<Rightarrow> ac_chain" where
  "addr_index_sort c =
     (if ch_addr_index_sorted c then c
      else c\<lparr>ch_addr_index := qsort addr_index_cmp (ch_addr_index c), ch_addr_index_sorted := True\<rparr>)"

function lower_bound :: "addr_index_entry list \<Rightarrow> ac_addr \<Rightarrow> nat \<Rightarrow> nat \<Rightarrow> nat" where
  "lower_bound xs addr lo hi =
     (if lo < hi then
        let mid = lo + (hi - lo) div 2
        in if memcmp (ai_addr (xs ! mid)) addr < 0 then lower_bound xs addr (mid + 1) hi
           else lower_bound xs addr lo mid
      else lo)"
  by pat_completeness auto
termination
  by (relation "measure (\<lambda>(xs, addr, lo, hi). hi - lo)") (auto simp: Let_def)

declare lower_bound.simps [simp del]

text \<open>The walk over the entries of one address, at most 256 of them.\<close>

fun addr_walk :: "ac_addr \<Rightarrow> nat \<Rightarrow> addr_index_entry list \<Rightarrow> ac_addr_tx_entry list" where
  "addr_walk addr 0 es = []"
| "addr_walk addr (Suc n) [] = []"
| "addr_walk addr (Suc n) (e # es) =
     (if memcmp (ai_addr e) addr = 0
      then \<lparr>ae_height = ai_height e, ae_tx_idx = ai_tx_idx e, ae_role = ai_role e\<rparr> # addr_walk addr n es
      else [])"

definition ac_chain_addr_txs :: "ac_chain \<Rightarrow> ac_addr \<Rightarrow> nat \<Rightarrow> ac_addr_tx_entry list \<times> ac_chain" where
  "ac_chain_addr_txs c addr cap =
     (if ch_addr_index c = [] \<or> cap = 0 then ([], c)
      else let c = addr_index_sort c;
               lo = lower_bound (ch_addr_index c) addr 0 (length (ch_addr_index c));
               scratch = addr_walk addr 256 (drop lo (ch_addr_index c))
        in (take cap (rev scratch), c))"

section \<open>Active validators\<close>

definition active_validators :: "ac_state \<Rightarrow> ac_account list" where
  "active_validators s = filter (\<lambda>a. \<not> acc_stake a < AC_MIN_STAKE_UCRD) (st_accounts s)"

definition ac_chain_total_sqrt_stake :: "ac_chain \<Rightarrow> u64" where
  "ac_chain_total_sqrt_stake c =
     foldl (\<lambda>sum a. sum + ac_isqrt_u64 (acc_stake a)) 0 (active_validators (ch_state c))"

definition ac_chain_active_count :: "ac_chain \<Rightarrow> nat" where
  "ac_chain_active_count c = length (active_validators (ch_state c))"

section \<open>Liveness map\<close>

fun live_record :: "live_entry list \<Rightarrow> ac_addr \<Rightarrow> u64 \<Rightarrow> live_entry list option" where
  "live_record [] a h = None"
| "live_record (e # es) a h =
     (if memcmp (le_addr e) a = 0
      then Some ((if h > le_last_sign_height e then e\<lparr>le_last_sign_height := h\<rparr> else e) # es)
      else map_option (Cons e) (live_record es a h))"

definition live_record_signer :: "live_entry list \<Rightarrow> ac_addr \<Rightarrow> u64 \<Rightarrow> live_entry list" where
  "live_record_signer m a h =
     (case live_record m a h of
        Some m' \<Rightarrow> m'
      | None \<Rightarrow> if length m < AC_MAX_LIVE then m @ [\<lparr>le_addr = a, le_last_sign_height = h\<rparr>] else m)"

definition live_is_within_window :: "u64 \<Rightarrow> u64 \<Rightarrow> bool" where
  "live_is_within_window height last_sign_height =
     (if last_sign_height = 0 \<and> height < AC_LIVENESS_WINDOW then True
      else if last_sign_height = 0 then False
      else if height \<le> last_sign_height then True
      else height - last_sign_height < AC_LIVENESS_WINDOW)"

text \<open>The entries both loops count: inside the window, with an account and enough stake.\<close>

definition live_validators :: "ac_chain \<Rightarrow> ac_account list" where
  "live_validators c =
     map (\<lambda>e. snd (ac_state_get (ch_state c) (le_addr e)))
       (filter (\<lambda>e. live_is_within_window (ch_height c) (le_last_sign_height e) \<and>
          fst (ac_state_get (ch_state c) (le_addr e)) \<and>
          \<not> acc_stake (snd (ac_state_get (ch_state c) (le_addr e))) < AC_MIN_STAKE_UCRD) (ch_live_map c))"

definition ac_chain_live_sqrt_stake :: "ac_chain \<Rightarrow> u64" where
  "ac_chain_live_sqrt_stake c =
     (if live_validators c = [] then ac_chain_total_sqrt_stake c
      else foldl (\<lambda>sum a. sum + ac_isqrt_u64 (acc_stake a)) 0 (live_validators c))"

definition ac_chain_live_count :: "ac_chain \<Rightarrow> nat" where
  "ac_chain_live_count c = length (live_validators c)"

section \<open>Rebuilding the indexes\<close>

fun rebuild_txs :: "sodium \<Rightarrow> u64 \<Rightarrow> nat \<Rightarrow> ac_tx list \<Rightarrow> ac_chain \<Rightarrow> ac_chain" where
  "rebuild_txs S h i [] c = c"
| "rebuild_txs S h i (tx # txs) c =
     rebuild_txs S h (Suc i) txs
       (addr_index_record_tx (tx_index_add c (ac_tx_hash S tx) h (of_nat i)) tx h (of_nat i))"

definition live_record_all :: "live_entry list \<Rightarrow> ac_commit_signer list \<Rightarrow> u64 \<Rightarrow> live_entry list" where
  "live_record_all m ss h = foldl (\<lambda>m s. live_record_signer m (cs_signer s) h) m ss"

text \<open>The loop over the heights \<open>h, ..., h + n - 1\<close>.\<close>

fun rebuild_heights :: "sodium \<Rightarrow> u64 \<Rightarrow> nat \<Rightarrow> ac_chain \<Rightarrow> ac_chain" where
  "rebuild_heights S h 0 c = c"
| "rebuild_heights S h (Suc n) c =
     rebuild_heights S (h + 1) n
       (case block_read c h of
          None \<Rightarrow> c
        | Some b \<Rightarrow>
          let c = rebuild_txs S h 0 (b_txs b) c
          in if h_height (b_header b) + AC_LIVENESS_WINDOW > ch_height c
             then c\<lparr>ch_live_map := live_record_all (ch_live_map c) (b_signers b) (h_height (b_header b))\<rparr>
             else c)"

definition tx_index_rebuild :: "sodium \<Rightarrow> ac_chain \<Rightarrow> ac_chain" where
  "tx_index_rebuild S c =
     (if ch_height c = 0 then c
      else addr_index_sort (tx_index_sort (rebuild_heights S 1 (unat (ch_height c)) c)))"

section \<open>Genesis\<close>

definition GENESIS_DOMAIN :: bytes where "GENESIS_DOMAIN = cstr ''AGCH:GENESIS:v1''"

definition compute_genesis_seed :: "sodium \<Rightarrow> u64 \<Rightarrow> u64 \<Rightarrow> ac_hash" where
  "compute_genesis_seed S chain_id ts = ac_hash_multi S [GENESIS_DOMAIN, ac_be64 chain_id @ ac_be64 ts]"

definition SYS_REWARD_POOL :: ac_addr where
  "SYS_REWARD_POOL = [0x52, 0x57, 0x44, 0x50] @ zeros 28"

definition genesis_account :: "ac_genesis_account \<Rightarrow> ac_account" where
  "genesis_account ga = (zero_account (ga_addr ga))\<lparr>acc_balance := ga_balance ga, acc_stake := ga_stake ga\<rparr>"

fun genesis_accounts :: "ac_genesis_account list \<Rightarrow> ac_chain \<Rightarrow> ac_chain" where
  "genesis_accounts [] c = c"
| "genesis_accounts (ga # gs) c =
     genesis_accounts gs
       (let a = genesis_account ga; c = c\<lparr>ch_state := ac_state_set (ch_state c) a\<rparr>
        in if acc_stake a \<ge> AC_MIN_STAKE_UCRD \<and> length (ch_live_map c) < AC_MAX_LIVE
           then c\<lparr>ch_live_map := ch_live_map c @ [\<lparr>le_addr = acc_addr a, le_last_sign_height = 0\<rparr>]\<rparr>
           else c)"

definition genesis_header :: "sodium \<Rightarrow> ac_state \<Rightarrow> ac_genesis \<Rightarrow> ac_block_header" where
  "genesis_header S s g =
     \<lparr>h_version = AC_BLOCK_VERSION, h_height = 0, h_slot = 0, h_parent_hash = zeros 32,
      h_timestamp_ms = g_timestamp_ms g, h_proposer = zeros 32, h_proposer_vrf_proof = zeros 64,
      h_state_root = ac_state_root S s, h_tx_root = zeros 32, h_base_fee = AC_MIN_BASE_FEE,
      h_gas_used = 0, h_gas_limit = AC_BLOCK_GAS_LIMIT, h_tx_count = 0\<rparr>"

definition ac_state_save :: "ac_io \<Rightarrow> ac_chain \<Rightarrow> bool \<times> ac_chain" where
  "ac_state_save io c =
     (if io_state_ok io then (True, c\<lparr>ch_disk_state := Some (ac_state_serialize (ch_state c))\<rparr>) else (False, c))"

definition chain_apply_genesis :: "sodium \<Rightarrow> ac_io \<Rightarrow> ac_chain \<Rightarrow> ac_genesis \<Rightarrow> bool \<times> ac_chain" where
  "chain_apply_genesis S io c g =
     (let rp = (zero_account SYS_REWARD_POOL)\<lparr>acc_balance := 60000000 * 1000000\<rparr>;
          c = genesis_accounts (g_accounts g) (c\<lparr>ch_state := ac_state_set (ch_state c) rp\<rparr>);
          hdr = genesis_header S (ch_state c) g
      in case block_write io c \<lparr>b_header = hdr, b_txs = [], b_signers = []\<rparr> of
           (False, c) \<Rightarrow> (False, c)
         | (True, c) \<Rightarrow>
           let c = c\<lparr>ch_chain_id := g_chain_id g, ch_height := 0, ch_tip_hash := ac_block_hash S hdr,
                     ch_last_slot := 0, ch_last_timestamp_ms := g_timestamp_ms g,
                     ch_base_fee := AC_MIN_BASE_FEE, ch_genesis_timestamp_ms := g_timestamp_ms g\<rparr>
           in case meta_save io c of
                (False, c) \<Rightarrow> (False, c)
              | (True, c) \<Rightarrow> ac_state_save io c)"

text \<open>The zeroed struct over a data directory.\<close>

definition chain_zero :: "(u64 \<rightharpoonup> bytes) \<Rightarrow> bytes option \<Rightarrow> bytes option \<Rightarrow> ac_chain" where
  "chain_zero blocks st mt =
     \<lparr>ch_state = ac_state_new 0, ch_chain_id = 0, ch_height = 0, ch_tip_hash = zeros 32, ch_last_slot = 0,
      ch_last_timestamp_ms = 0, ch_base_fee = 0, ch_genesis_timestamp_ms = 0, ch_cached_epoch = 0,
      ch_cached_seed = zeros 32, ch_cached_valid = False, ch_tx_index = [], ch_tx_index_sorted = False,
      ch_addr_index = [], ch_addr_index_sorted = False, ch_live_map = [], ch_disk_blocks = blocks,
      ch_disk_state = st, ch_disk_meta = mt\<rparr>"

definition ac_state_load :: "ac_state \<Rightarrow> bytes option \<Rightarrow> ac_state option" where
  "ac_state_load s file =
     (case file of
        None \<Rightarrow> None
      | Some buf \<Rightarrow> (case ac_state_deserialize s buf of (ok, s') \<Rightarrow> if ok then Some s' else None))"

definition ac_chain_open ::
  "sodium \<Rightarrow> ac_io \<Rightarrow> (u64 \<rightharpoonup> bytes) \<Rightarrow> bytes option \<Rightarrow> bytes option \<Rightarrow> ac_genesis option \<Rightarrow> ac_chain option" where
  "ac_chain_open S io blocks st mt g =
     (let c = chain_zero blocks st mt
      in map_option (tx_index_rebuild S)
        (if mt \<noteq> None then
           (case meta_load c of
              None \<Rightarrow> None
            | Some c \<Rightarrow>
              map_option (\<lambda>s. c\<lparr>ch_state := s\<rparr>) (ac_state_load (ac_state_new (ch_chain_id c)) st))
         else case g of
             None \<Rightarrow> None
           | Some g \<Rightarrow>
             (case chain_apply_genesis S io (c\<lparr>ch_state := ac_state_new (g_chain_id g)\<rparr>) g of
                (ok, c) \<Rightarrow> if ok then Some c else None)))"

section \<open>Top accounts\<close>

definition top_cmp_balance :: "ac_account \<Rightarrow> ac_account \<Rightarrow> int" where
  "top_cmp_balance a b =
     (if acc_balance a > acc_balance b then -1
      else if acc_balance a < acc_balance b then 1 else memcmp (acc_addr a) (acc_addr b))"

definition top_cmp_stake :: "ac_account \<Rightarrow> ac_account \<Rightarrow> int" where
  "top_cmp_stake a b =
     (if acc_stake a > acc_stake b then -1
      else if acc_stake a < acc_stake b then 1 else memcmp (acc_addr a) (acc_addr b))"

definition chain_top_accounts :: "ac_chain \<Rightarrow> (ac_account \<Rightarrow> ac_account \<Rightarrow> int) \<Rightarrow> nat \<Rightarrow> bool \<Rightarrow> ac_account list" where
  "chain_top_accounts c cmp cap active_only =
     take cap (qsort cmp (filter (\<lambda>a. \<not> (active_only \<and> acc_stake a < AC_MIN_STAKE_UCRD)) (st_accounts (ch_state c))))"

definition ac_chain_top_accounts_by_balance :: "ac_chain \<Rightarrow> nat \<Rightarrow> ac_account list" where
  "ac_chain_top_accounts_by_balance c cap = chain_top_accounts c top_cmp_balance cap False"

definition ac_chain_top_validators :: "ac_chain \<Rightarrow> nat \<Rightarrow> ac_account list" where
  "ac_chain_top_validators c cap = chain_top_accounts c top_cmp_stake cap True"

section \<open>Slots and epochs\<close>

definition ac_chain_current_slot :: "ac_chain \<Rightarrow> u64 \<Rightarrow> u64" where
  "ac_chain_current_slot c now =
     (if now < ch_genesis_timestamp_ms c then 0 else (now - ch_genesis_timestamp_ms c) div AC_SLOT_DURATION_MS)"

definition ac_chain_slot_time_ms :: "ac_chain \<Rightarrow> u64 \<Rightarrow> u64" where
  "ac_chain_slot_time_ms c slot = ch_genesis_timestamp_ms c + slot * AC_SLOT_DURATION_MS"

definition ac_epoch_of :: "u64 \<Rightarrow> u64" where
  "ac_epoch_of slot = slot div AC_EPOCH_SLOTS"

text \<open>
  The backward scan for the last block before an epoch: \<open>None\<close> when a header cannot be read, height 0
  when the loop runs out.
\<close>

fun epoch_scan :: "ac_chain \<Rightarrow> u64 \<Rightarrow> nat \<Rightarrow> u64 option" where
  "epoch_scan c start 0 = Some 0"
| "epoch_scan c start (Suc n) =
     (case ac_chain_get_header_by_height c (of_nat (Suc n)) of
        None \<Rightarrow> None
      | Some hdr \<Rightarrow> if h_slot hdr < start then Some (of_nat (Suc n)) else epoch_scan c start n)"

definition SEED_DOMAIN :: bytes where "SEED_DOMAIN = cstr ''AGCH:SEED''"

definition compute_epoch_seed :: "sodium \<Rightarrow> ac_chain \<Rightarrow> u64 \<Rightarrow> ac_hash" where
  "compute_epoch_seed S c epoch =
     (let genesis = compute_genesis_seed S (ch_chain_id c) (ch_genesis_timestamp_ms c) in
      if epoch = 0 then genesis
      else let start = epoch * AC_EPOCH_SLOTS in
        case epoch_scan c start (unat (ch_height c)) of
          None \<Rightarrow> genesis
        | Some p \<Rightarrow>
          if p = 0 \<and> ch_height c > 0 \<and>
             \<not> (case ac_chain_get_header_by_height c 0 of None \<Rightarrow> False | Some hdr \<Rightarrow> h_slot hdr < start)
          then genesis
          else case ac_chain_get_header_by_height c p of
              None \<Rightarrow> genesis
            | Some hdr \<Rightarrow> ac_hash_multi S [SEED_DOMAIN, h_proposer_vrf_proof hdr])"

definition ac_chain_epoch_seed :: "sodium \<Rightarrow> ac_chain \<Rightarrow> u64 \<Rightarrow> ac_hash \<times> ac_chain" where
  "ac_chain_epoch_seed S c epoch =
     (if ch_cached_valid c \<and> ch_cached_epoch c = epoch then (ch_cached_seed c, c)
      else let seed = compute_epoch_seed S c epoch
        in (seed, c\<lparr>ch_cached_epoch := epoch, ch_cached_seed := seed, ch_cached_valid := True\<rparr>))"

section \<open>Block reward and fee market\<close>

definition ac_chain_block_reward :: "u64 \<Rightarrow> u64" where
  "ac_chain_block_reward height =
     (let slots_per_year = 15778800;
          year = height div slots_per_year;
          annual_emission_ucrd = (if year < 10 then 2000000 * 1000000 else 500000 * 1000000)
      in annual_emission_ucrd div slots_per_year)"

text \<open>Casts to \<^verbatim>\<open>int64_t\<close> are \<open>sint\<close>; the signed sums are integers and cast back at the end.\<close>

definition ac_chain_next_base_fee :: "u64 \<Rightarrow> u64 \<Rightarrow> u64 \<Rightarrow> u64" where
  "ac_chain_next_base_fee prev_base_fee gas_used gas_limit =
     (let target = gas_limit div 2 in
      if gas_used = target then prev_base_fee
      else let diff = sint gas_used - sint target;
               delta = (if diff \<ge> 0 then
                          let inc = prev_base_fee * word_of_int diff div target div 8
                          in sint (if inc = 0 then 1 else inc)
                        else
                          let dec = prev_base_fee * word_of_int (- diff) div target div 8
                          in - sint (if dec = 0 then 1 else dec));
               nxt = sint prev_base_fee + delta
        in word_of_int (if nxt < sint AC_MIN_BASE_FEE then sint AC_MIN_BASE_FEE else nxt))"

section \<open>Sortition\<close>

definition LEADER_DOMAIN :: bytes where "LEADER_DOMAIN = cstr ''AGCH:LEADER''"
definition COMMITTEE_DOMAIN :: bytes where "COMMITTEE_DOMAIN = cstr ''AGCH:COMMITTEE''"

definition leader_alpha :: "ac_hash \<Rightarrow> u64 \<Rightarrow> bytes" where
  "leader_alpha seed slot = LEADER_DOMAIN @ take AC_HASH_SIZE seed @ ac_be64 slot"

definition committee_alpha :: "ac_hash \<Rightarrow> u64 \<Rightarrow> bytes" where
  "committee_alpha seed slot = COMMITTEE_DOMAIN @ take AC_HASH_SIZE seed @ ac_be64 slot"

definition priority_of :: "bytes \<Rightarrow> u64 \<Rightarrow> bytes" where
  "priority_of beta sqrt_stake =
     (if sqrt_stake = 0 then replicate 16 0xff
      else let hi = ac_rd64 beta;
               lo = ac_rd64 (drop 8 beta);
               q_hi = hi div sqrt_stake;
               r_hi = hi mod sqrt_stake;
               q_lo = lo div sqrt_stake + (if sqrt_stake \<noteq> 0 then (UINT64_MAX div sqrt_stake) * r_hi else 0)
        in ac_be64 q_hi @ ac_be64 q_lo)"

text \<open>
  \<^verbatim>\<open>long double\<close> is platform dependent; \<open>ld\<close> is the rounding of an exact result to its format, applied
  after every conversion and operation.
\<close>

type_synonym rounding = "rat \<Rightarrow> rat"

definition committee_eligible :: "rounding \<Rightarrow> u64 \<Rightarrow> u64 \<Rightarrow> u64 \<Rightarrow> bool" where
  "committee_eligible ld draw_u64 sqrt_stake total_sqrt =
     (if total_sqrt = 0 \<or> sqrt_stake = 0 then False
      else let p = ld (ld (ld (of_nat (unat sqrt_stake)) * ld (of_nat (unat AC_COMMITTEE_TARGET)))
                       / ld (of_nat (unat total_sqrt)))
        in if p \<ge> 1 then True
           else let thr = ld (p * ld (of_nat (unat UINT64_MAX)))
             in draw_u64 < word_of_int \<lfloor>thr\<rfloor>)"

end
