(* ===== verification/Chain_Rules.thy ===== *)
theory Chain_Rules
  imports Chain
begin

text \<open>
  The numeric rules of the chain: the base fee follows the gas used within one eighth per block, and
  the square-root weights of the active validators, of the live ones and of a list of signers are
  sums that do not overflow.
\<close>

section \<open>Base fee\<close>











text \<open>
  Beyond that range the product of fee and load wraps although the source means to avoid overflow: at
  a fee of $2^{61}$ a full block raises the fee by one unit instead of an eighth.
\<close>

theorem next_base_fee_wraps:
  "ac_chain_next_base_fee (2 ^ 61) 30000000 AC_BLOCK_GAS_LIMIT = 2 ^ 61 + 1"
  by code_simp

text \<open>
  The emission per block is 126752 units in the first ten years and 31688 after, so the reward pool
  of 60 million coins outlasts the ten years.
\<close>

lemma block_reward_eq:
  "ac_chain_block_reward h = (if unat h < 157788000 then 126752 else 31688)"
proof -
  have "h div 15778800 < 10 \<longleftrightarrow> unat h < 157788000"
    by (simp add: word_less_nat_alt unat_div div_less_iff_less_mult)
  then show ?thesis by (simp add: ac_chain_block_reward_def Let_def)
qed

section \<open>Validator weights\<close>

text \<open>
  The weight of an account is the integer square root of its stake, if it has the minimum stake. A
  quorum is a set of validators with more than half of the total weight.
\<close>

definition acc_weight :: "ac_account \<Rightarrow> nat" where
  "acc_weight a = (if acc_stake a < AC_MIN_STAKE_UCRD then 0 else unat (ac_isqrt_u64 (acc_stake a)))"

definition vweight :: "ac_state \<Rightarrow> ac_addr \<Rightarrow> nat" where
  "vweight s k = acc_weight (snd (ac_state_get s k))"

abbreviation total_weight :: "ac_state \<Rightarrow> nat" where
  "total_weight s \<equiv> total acc_weight s"

lemma acc_weight_zero [simp]: "acc_weight (zero_account k) = 0"
  by (simp add: acc_weight_def zero_account_def AC_MIN_STAKE_UCRD_def)

text \<open>A validator's weight is at most a ten-thousandth of its stake: $10^4 = \sqrt{10^8}$.\<close>

lemma acc_weight_le: "10000 * acc_weight a \<le> acc_value a"
proof (cases "acc_stake a < AC_MIN_STAKE_UCRD")
  case False
  let ?x = "unat (acc_stake a)" and ?r = "unat (ac_isqrt_u64 (acc_stake a))"
  have sq: "?r * ?r \<le> ?x" "?x < Suc ?r * Suc ?r" using isqrt_floor [of "acc_stake a"] by simp_all
  have "100000000 \<le> ?x" using False by (simp add: AC_MIN_STAKE_UCRD_def word_less_nat_alt not_less)
  have "10000 \<le> ?r"
  proof (rule ccontr)
    assume "\<not> 10000 \<le> ?r"
    then have "Suc ?r * Suc ?r \<le> 10000 * 10000" by (intro mult_le_mono) simp_all
    then show False using sq(2) \<open>100000000 \<le> ?x\<close> by linarith
  qed
  then have "10000 * ?r \<le> ?r * ?r" by simp
  then have "10000 * ?r \<le> ?x" using sq(1) by linarith
  then show ?thesis using False by (simp add: acc_weight_def acc_value_def)
qed (simp add: acc_weight_def)

lemma total_weight_le: "10000 * total_weight s \<le> money s"
proof -
  have "10000 * sum_list (map acc_weight xs) \<le> sum_list (map acc_value xs)" for xs
  proof (induction xs)
    case (Cons a xs)
    then show ?case using acc_weight_le [of a] by simp
  qed simp
  then show ?thesis by (simp add: total_def money_def)
qed

lemma foldl_sum_nowrap:
  fixes f :: "'a \<Rightarrow> u64"
  assumes "unat acc + sum_list (map (\<lambda>x. unat (f x)) xs) < 2 ^ 64"
  shows "unat (foldl (\<lambda>sum x. sum + f x) acc xs) = unat acc + sum_list (map (\<lambda>x. unat (f x)) xs)"
  using assms
proof (induction xs arbitrary: acc)
  case (Cons x xs)
  have "unat (acc + f x) = unat acc + unat (f x)" using Cons.prems by (intro unat_add_nowrap) simp
  then show ?case using Cons.IH [of "acc + f x"] Cons.prems by simp
qed simp

lemma sum_active: "sum_list (map acc_weight xs) =
    sum_list (map (\<lambda>a. unat (ac_isqrt_u64 (acc_stake a))) (filter (\<lambda>a. \<not> acc_stake a < AC_MIN_STAKE_UCRD) xs))"
  by (induction xs) (simp_all add: acc_weight_def)

lemma total_sqrt_eq:
  assumes "money (ch_state c) < 2 ^ 63"
  shows "unat (ac_chain_total_sqrt_stake c) = total_weight (ch_state c)"
  using assms total_weight_le [of "ch_state c"] foldl_sum_nowrap [of 0 "\<lambda>a. ac_isqrt_u64 (acc_stake a)"
      "filter (\<lambda>a. \<not> acc_stake a < AC_MIN_STAKE_UCRD) (st_accounts (ch_state c))"]
  by (simp add: ac_chain_total_sqrt_stake_def active_validators_def total_def sum_active)

section \<open>Sums over addresses\<close>

lemma keyed_distinct: "keyed key xs \<Longrightarrow> distinct (map key xs)"
  by (induction xs) auto

lemma total_by_address:
  assumes "wf_state s" "\<And>k. f (zero_account k) = 0"
  shows "total f s = (\<Sum>k\<in>acc_addr ` set (st_accounts s). f (snd (ac_state_get s k)))"
proof -
  have k: "keyed acc_addr (st_accounts s)" using assms(1) by (simp add: wf_state_def)
  then have d: "distinct (st_accounts s)" "inj_on acc_addr (set (st_accounts s))"
    using keyed_distinct [OF k] by (simp_all add: distinct_map)
  have get: "snd (ac_state_get s (acc_addr a)) = a" if "a \<in> set (st_accounts s)" for a
    using that amap_mem [OF k that] assms(1) by (simp add: ac_state_get_map acct_map_def wf_state_def list_all_iff wf_account_def)
  have "total f s = (\<Sum>a\<in>set (st_accounts s). f a)"
    using d(1) by (simp add: total_def sum_list_distinct_conv_sum_set)
  also have "\<dots> = (\<Sum>k\<in>acc_addr ` set (st_accounts s). f (snd (ac_state_get s k)))"
    by (simp add: sum.reindex [OF d(2)] get)
  finally show ?thesis .
qed

lemma addresses_le_total:
  assumes "wf_state s" "\<And>k. f (zero_account k) = 0" "finite A" "\<And>k. k \<in> A \<Longrightarrow> wf_addr k"
  shows "(\<Sum>k\<in>A. f (snd (ac_state_get s k))) \<le> total f s"
proof -
  let ?K = "acc_addr ` set (st_accounts s)" and ?f = "\<lambda>k. f (snd (ac_state_get s k))"
  have z: "?f k = 0" if "k \<in> A" "k \<notin> ?K" for k
  proof -
    have "acct_map s k = None" using that(2) by (auto simp: acct_map_def amap_None_iff)
    then show ?thesis using assms(1,2) assms(4) [OF that(1)] by (simp add: ac_state_get_map)
  qed
  have "(\<Sum>k\<in>A. ?f k) = (\<Sum>k\<in>A \<inter> ?K. ?f k)"
    using z by (intro sum.mono_neutral_right assms(3)) auto
  also have "\<dots> \<le> (\<Sum>k\<in>?K. ?f k)" by (intro sum_mono2) auto
  finally show ?thesis using total_by_address [of s f] assms(1,2) by simp
qed

section \<open>Weighted quorums\<close>

locale weighted_quorum =
  fixes inv :: "'s \<Rightarrow> bool" and member :: "'a \<Rightarrow> bool" and weight :: "'s \<Rightarrow> 'a \<Rightarrow> nat" and whole :: "'s \<Rightarrow> nat"
  assumes sum_le_whole: "inv s \<Longrightarrow> finite A \<Longrightarrow> (\<And>a. a \<in> A \<Longrightarrow> member a) \<Longrightarrow> sum (weight s) A \<le> whole s"
begin

lemma overlap_weight:
  assumes "inv s" "finite A" "finite B" "\<And>a. a \<in> A \<union> B \<Longrightarrow> member a"
  shows "sum (weight s) A + sum (weight s) B \<le> whole s + sum (weight s) (A \<inter> B)"
proof -
  have "sum (weight s) (A \<union> B) \<le> whole s" by (rule sum_le_whole) (use assms in auto)
  then show ?thesis using sum.union_inter [OF assms(2,3), of "weight s"] by simp
qed

lemma quorums_intersect:
  assumes "inv s" "finite A" "finite B" "\<And>a. a \<in> A \<union> B \<Longrightarrow> member a"
    and "whole s < 2 * sum (weight s) A" "whole s < 2 * sum (weight s) B"
  shows "\<exists>a\<in>A \<inter> B. 0 < weight s a"
proof (rule ccontr)
  assume "\<not> (\<exists>a\<in>A \<inter> B. 0 < weight s a)"
  then have "sum (weight s) (A \<inter> B) = 0" by simp
  then show False using overlap_weight [OF assms(1-4)] assms(5,6) by linarith
qed

end

interpretation validators: weighted_quorum wf_state wf_addr vweight "total acc_weight"
  by unfold_locales (auto simp: vweight_def intro!: addresses_le_total)

section \<open>Liveness map\<close>

text \<open>The map holds each address once, in at most 256 entries.\<close>

definition live_ok :: "live_entry list \<Rightarrow> bool" where
  "live_ok m \<longleftrightarrow> distinct (map le_addr m) \<and> (\<forall>e\<in>set m. wf_addr (le_addr e)) \<and> length m \<le> AC_MAX_LIVE"

lemma live_record_addrs:
  assumes "\<forall>e\<in>set m. wf_addr (le_addr e)" "wf_addr a"
  shows "live_record m a h = None \<longleftrightarrow> a \<notin> le_addr ` set m"
    and "live_record m a h = Some m' \<Longrightarrow> map le_addr m' = map le_addr m"
  using assms
  by (induction m arbitrary: m') (auto simp: memcmp_iffs wf split: if_splits)

lemma live_record_signer_ok:
  assumes "live_ok m" "wf_addr a"
  shows "live_ok (live_record_signer m a h)"
proof (cases "live_record m a h")
  case None
  then show ?thesis
    using assms live_record_addrs(1) [of m a h] by (auto simp: live_record_signer_def live_ok_def)
next
  case (Some m')
  then have eq: "map le_addr m' = map le_addr m"
    using assms live_record_addrs(2) [of m a h] by (simp add: live_ok_def)
  then have n: "length m' = length m" "le_addr ` set m' = le_addr ` set m"
    by (metis length_map, metis list.set_map)
  have "wf_addr (le_addr e)" if "e \<in> set m'" for e
    using that n(2) assms(1) unfolding live_ok_def by (metis imageE image_eqI)
  then show ?thesis
    using assms(1) eq Some n(1) by (simp add: live_record_signer_def live_ok_def)
qed

lemma live_record_all_ok:
  assumes "live_ok m" "list_all wf_signer ss"
  shows "live_ok (live_record_all m ss h)"
  using assms unfolding live_record_all_def
  by (induction ss arbitrary: m) (simp_all add: live_record_signer_ok wf_signer_def)

lemma live_sum_le:
  assumes "wf_state (ch_state c)" "live_ok (ch_live_map c)"
  shows "sum_list (map (\<lambda>a. unat (ac_isqrt_u64 (acc_stake a))) (live_validators c)) \<le> total_weight (ch_state c)"
proof -
  let ?s = "ch_state c"
  let ?P = "\<lambda>e. live_is_within_window (ch_height c) (le_last_sign_height e) \<and>
      fst (ac_state_get ?s (le_addr e)) \<and> \<not> acc_stake (snd (ac_state_get ?s (le_addr e))) < AC_MIN_STAKE_UCRD"
  let ?ks = "map le_addr (filter ?P (ch_live_map c))"
  have d: "distinct ?ks" using assms(2) by (auto simp: live_ok_def distinct_map intro: inj_on_subset)
  have "sum_list (map (\<lambda>a. unat (ac_isqrt_u64 (acc_stake a))) (live_validators c)) = sum_list (map (vweight ?s) ?ks)"
    unfolding live_validators_def map_map by (rule arg_cong [of _ _ sum_list], rule map_cong)
      (auto simp: vweight_def acc_weight_def)
  also have "\<dots> = sum (vweight ?s) (set ?ks)" by (rule sum_list_distinct_conv_sum_set [OF d])
  also have "\<dots> \<le> total_weight ?s"
    using assms(2) by (intro validators.sum_le_whole assms(1)) (auto simp: live_ok_def)
  finally show ?thesis .
qed

text \<open>The live weight never exceeds the total weight.\<close>

lemma live_sqrt_le:
  assumes "wf_state (ch_state c)" "live_ok (ch_live_map c)" "money (ch_state c) < 2 ^ 63"
  shows "unat (ac_chain_live_sqrt_stake c) \<le> total_weight (ch_state c)"
proof (cases "live_validators c = []")
  case True
  then show ?thesis using total_sqrt_eq [OF assms(3)] by (simp add: ac_chain_live_sqrt_stake_def)
next
  case False
  have "total_weight (ch_state c) < 2 ^ 64" using total_weight_le [of "ch_state c"] assms(3) by simp
  then show ?thesis
    using False live_sum_le [OF assms(1,2)] foldl_sum_nowrap [of 0 "\<lambda>a. ac_isqrt_u64 (acc_stake a)" "live_validators c"]
    by (simp add: ac_chain_live_sqrt_stake_def)
qed

text \<open>
  The liveness map forgets nobody, so it fills up for good: once 256 addresses are in it, a
  validator that is not among them never enters, however often it signs.
\<close>

theorem live_map_full:
  assumes "live_ok m" "length m = AC_MAX_LIVE" "wf_addr a" "a \<notin> le_addr ` set m"
  shows "live_record_signer m a h = m"
  using assms live_record_addrs(1) [of m a h] by (simp add: live_record_signer_def live_ok_def)

definition demo_live :: "nat \<Rightarrow> live_entry list" where
  "demo_live n = map (\<lambda>i. \<lparr>le_addr = of_nat i # zeros 31, le_last_sign_height = 1\<rparr>) [0..<n]"

lemma demo_live_ok:
  assumes "n \<le> 256"
  shows "live_ok (demo_live n)" "length (demo_live n) = n" "0 # 1 # zeros 30 \<notin> le_addr ` set (demo_live n)"
proof -
  have "i = j" if "(of_nat i :: byte) = of_nat j" "i < n" "j < n" for i j
    using that assms by (simp add: word_unat_eq_iff unat_of_nat)
  then show "live_ok (demo_live n)"
    using assms by (auto simp: live_ok_def demo_live_def wf distinct_map o_def inj_on_def AC_MAX_LIVE_def)
  show "0 # 1 # zeros 30 \<notin> le_addr ` set (demo_live n)"
    by (auto simp: demo_live_def zeros_def numeral_eq_Suc)
qed (simp add: demo_live_def)

theorem live_map_full_witness:
  "live_record_signer (demo_live 256) (0 # 1 # zeros 30) 9 = demo_live 256"
  by (rule live_map_full) (use demo_live_ok [of 256] in \<open>simp_all add: wf AC_MAX_LIVE_def\<close>)

end
