(* ===== verification/Accept.thy ===== *)
theory Accept
  imports Chain_Rules
begin

text \<open>
  Block acceptance and block construction of \<^verbatim>\<open>chain.c\<close>: the proposer's VRF, the commit certificate,
  the execution of the transactions with its rollback, the order of the writes to disk, and the block
  a leader builds. Handlers take the chain and return it updated; which file writes succeed and what
  the clock shows come from \<open>ac_io\<close>, the rounding of \<^verbatim>\<open>long double\<close> from \<open>ld\<close>.
\<close>

section \<open>Outcomes\<close>

datatype ac_accept = AC_ACCEPT_OK | AC_ACCEPT_DUP | AC_ACCEPT_REJECT_BAD_HEADER | AC_ACCEPT_REJECT_BAD_PARENT
  | AC_ACCEPT_REJECT_BAD_TIME | AC_ACCEPT_REJECT_BAD_PROPOSER | AC_ACCEPT_REJECT_BAD_TX
  | AC_ACCEPT_REJECT_BAD_STATE_ROOT | AC_ACCEPT_REJECT_BAD_COMMIT | AC_ACCEPT_REJECT_BAD_GAS
  | AC_ACCEPT_REJECT_FUTURE | AC_ACCEPT_INTERNAL

fun ac_accept_str :: "ac_accept \<Rightarrow> string" where
  "ac_accept_str AC_ACCEPT_OK = ''ok''"
| "ac_accept_str AC_ACCEPT_DUP = ''duplicate''"
| "ac_accept_str AC_ACCEPT_REJECT_BAD_HEADER = ''bad header''"
| "ac_accept_str AC_ACCEPT_REJECT_BAD_PARENT = ''bad parent''"
| "ac_accept_str AC_ACCEPT_REJECT_BAD_TIME = ''bad timestamp''"
| "ac_accept_str AC_ACCEPT_REJECT_BAD_PROPOSER = ''bad proposer''"
| "ac_accept_str AC_ACCEPT_REJECT_BAD_TX = ''bad tx''"
| "ac_accept_str AC_ACCEPT_REJECT_BAD_STATE_ROOT = ''bad state_root''"
| "ac_accept_str AC_ACCEPT_REJECT_BAD_COMMIT = ''insufficient commit''"
| "ac_accept_str AC_ACCEPT_REJECT_BAD_GAS = ''bad gas accounting''"
| "ac_accept_str AC_ACCEPT_REJECT_FUTURE = ''from the future''"
| "ac_accept_str AC_ACCEPT_INTERNAL = ''internal error''"

section \<open>Proposer\<close>

definition validate_proposer_vrf :: "sodium \<Rightarrow> ac_chain \<Rightarrow> ac_block_header \<Rightarrow> bool \<times> ac_chain" where
  "validate_proposer_vrf S c h =
     (let (found, acc) = ac_state_get (ch_state c) (h_proposer h)
      in if \<not> found then (False, c)
         else if acc_stake acc < AC_MIN_STAKE_UCRD then (False, c)
         else let (seed, c) = ac_chain_epoch_seed S c (ac_epoch_of (h_slot h));
                  alpha = leader_alpha seed (h_slot h)
           in (ac_vrf_verify S (h_proposer_vrf_proof h) alpha (h_proposer h) \<noteq> None, c))"

section \<open>Commit certificate\<close>

text \<open>The parallel arrays of signer addresses and pre-block stakes, at most \<^verbatim>\<open>AC_COMMITTEE_MAX\<close> long.\<close>

definition pre_signers :: "ac_state \<Rightarrow> ac_commit_signer list \<Rightarrow> (ac_addr \<times> u64) list" where
  "pre_signers s ss =
     map (\<lambda>x. (cs_signer x, acc_stake (snd (ac_state_get s (cs_signer x))))) (take AC_COMMITTEE_MAX ss)"

fun ac_chain__pre_stake_lookup :: "(ac_addr \<times> u64) list \<Rightarrow> ac_addr \<Rightarrow> u64" where
  "ac_chain__pre_stake_lookup [] signer = 0"
| "ac_chain__pre_stake_lookup ((a, st) # ps) signer =
     (if ac_addr_eq a signer then st else ac_chain__pre_stake_lookup ps signer)"

text \<open>The loop over the signers: the signed weight, or \<open>None\<close> for a signer that fails a test.\<close>

fun commit_signers ::
  "sodium \<Rightarrow> rounding \<Rightarrow> (ac_addr \<Rightarrow> u64) \<Rightarrow> bytes \<Rightarrow> bytes \<Rightarrow> u64 \<Rightarrow> ac_commit_signer list \<Rightarrow> u64 \<Rightarrow> u64 option" where
  "commit_signers S ld pre_stake_of calpha vmsg total_sqrt [] signed_sqrt = Some signed_sqrt"
| "commit_signers S ld pre_stake_of calpha vmsg total_sqrt (x # xs) signed_sqrt =
     (if pre_stake_of (cs_signer x) < AC_MIN_STAKE_UCRD then None
      else case ac_vrf_verify S (cs_vrf_proof x) calpha (cs_signer x) of
          None \<Rightarrow> None
        | Some beta \<Rightarrow>
          if \<not> committee_eligible ld (ac_rd64 beta) (ac_isqrt_u64 (pre_stake_of (cs_signer x))) total_sqrt then None
          else if \<not> ac_verify S (cs_sig x) vmsg (cs_signer x) then None
          else commit_signers S ld pre_stake_of calpha vmsg total_sqrt xs
                 (signed_sqrt + ac_isqrt_u64 (pre_stake_of (cs_signer x))))"

definition commit_threshold :: "u64 \<Rightarrow> u64 \<Rightarrow> u64 \<Rightarrow> bool" where
  "commit_threshold signed_sqrt live total_sqrt =
     (let live = (if live = 0 then total_sqrt else live)
      in \<not> signed_sqrt * 3 < live * 2 \<and> \<not> signed_sqrt * 2 \<le> total_sqrt)"

definition validate_commit ::
  "sodium \<Rightarrow> rounding \<Rightarrow> ac_chain \<Rightarrow> ac_block \<Rightarrow> ac_hash \<Rightarrow> u64 \<Rightarrow> (ac_addr \<Rightarrow> u64) \<Rightarrow> bool \<times> ac_chain" where
  "validate_commit S ld c b block_hash pre_total_sqrt pre_stake_of =
     (if b_signers b = [] then (False, c)
      else if pre_total_sqrt = 0 then (False, c)
      else let (seed, c) = ac_chain_epoch_seed S c (ac_epoch_of (h_slot (b_header b)));
               calpha = committee_alpha seed (h_slot (b_header b));
               vmsg = ac_vote_message (h_height (b_header b)) block_hash
        in case commit_signers S ld pre_stake_of calpha vmsg pre_total_sqrt (b_signers b) 0 of
             None \<Rightarrow> (False, c)
           | Some signed_sqrt \<Rightarrow> (commit_threshold signed_sqrt (ac_chain_live_sqrt_stake c) pre_total_sqrt, c))"

section \<open>Acceptance\<close>

text \<open>The tests before the proposer's: \<open>Some\<close> outcome of an early return.\<close>

definition accept_precheck :: "sodium \<Rightarrow> ac_io \<Rightarrow> ac_chain \<Rightarrow> ac_block_header \<Rightarrow> ac_accept option" where
  "accept_precheck S io c h =
     (if h_version h \<noteq> AC_BLOCK_VERSION then Some AC_ACCEPT_REJECT_BAD_HEADER
      else if h_height h = 0 then Some AC_ACCEPT_DUP
      else if h_height h \<le> ch_height c then
        (case ac_chain_get_block_hash S c (h_height h) of
           None \<Rightarrow> Some AC_ACCEPT_REJECT_BAD_PARENT
         | Some x \<Rightarrow> if ac_hash_eq x (ac_block_hash S h) then Some AC_ACCEPT_DUP
                     else Some AC_ACCEPT_REJECT_BAD_PARENT)
      else if h_height h \<noteq> ch_height c + 1 then Some AC_ACCEPT_REJECT_BAD_PARENT
      else if \<not> ac_hash_eq (h_parent_hash h) (ch_tip_hash c) then Some AC_ACCEPT_REJECT_BAD_PARENT
      else if h_slot h \<le> ch_last_slot c then Some AC_ACCEPT_REJECT_BAD_TIME
      else let slot_start = ac_chain_slot_time_ms c (h_slot h) in
        if sint (h_timestamp_ms h) < sint slot_start - 3000 \<or> sint (h_timestamp_ms h) > sint slot_start + 3000
        then Some AC_ACCEPT_REJECT_BAD_TIME
        else if h_timestamp_ms h > io_now_ms io + 1500 then Some AC_ACCEPT_REJECT_FUTURE
        else if h_gas_limit h \<noteq> AC_BLOCK_GAS_LIMIT then Some AC_ACCEPT_REJECT_BAD_HEADER
        else None)"

definition accept_expected_base_fee :: "ac_chain \<Rightarrow> u64" where
  "accept_expected_base_fee c =
     (let expected = ac_chain_next_base_fee (ch_base_fee c) 0 AC_BLOCK_GAS_LIMIT
      in if ch_height c \<ge> 1 then
           (case ac_chain_get_header_by_height c (ch_height c) of
              Some prev \<Rightarrow> ac_chain_next_base_fee (h_base_fee prev) (h_gas_used prev) (h_gas_limit prev)
            | None \<Rightarrow> expected)
         else AC_MIN_BASE_FEE)"

definition accept_base_fee_ok :: "ac_chain \<Rightarrow> u64 \<Rightarrow> bool" where
  "accept_base_fee_ok c base_fee \<longleftrightarrow>
     \<not> base_fee < AC_MIN_BASE_FEE \<and>
     \<not> (base_fee + 1 < accept_expected_base_fee c \<or> base_fee > accept_expected_base_fee c + 1)"

text \<open>The transaction loop: success flag, state, gas and tips.\<close>

fun accept_txs ::
  "sodium \<Rightarrow> u64 \<Rightarrow> u64 \<Rightarrow> ac_tx list \<Rightarrow> ac_state \<Rightarrow> u64 \<Rightarrow> u64 \<Rightarrow> bool \<times> ac_state \<times> u64 \<times> u64" where
  "accept_txs S slot base_fee [] s gas tips = (True, s, gas, tips)"
| "accept_txs S slot base_fee (tx # txs) s gas tips =
     (if \<not> ac_tx_verify S tx then (False, s, gas, tips)
      else case ac_state_apply_tx S s tx slot base_fee of
          (rc, r, s) \<Rightarrow>
            if rc < 0 then (False, s, gas, tips)
            else if gas + ar_gas_used r > AC_BLOCK_GAS_LIMIT
            then (False, s, gas + ar_gas_used r, tips + ar_fee_tip r)
            else accept_txs S slot base_fee txs s (gas + ar_gas_used r) (tips + ar_fee_tip r))"

definition accept_reward :: "ac_state \<Rightarrow> ac_addr \<Rightarrow> u64 \<Rightarrow> u64 \<Rightarrow> ac_state" where
  "accept_reward s proposer reward tips =
     ac_state_debit (ac_state_credit s proposer (reward + tips)) SYS_REWARD_POOL reward"

definition state_restore :: "ac_chain \<Rightarrow> bytes \<Rightarrow> ac_chain" where
  "state_restore c snap = c\<lparr>ch_state := snd (ac_state_deserialize (ch_state c) snap)\<rparr>"

text \<open>From the snapshot to the end of the validation: \<open>None\<close> if the block is good.\<close>

definition accept_execute :: "sodium \<Rightarrow> rounding \<Rightarrow> ac_chain \<Rightarrow> ac_block \<Rightarrow> ac_accept option \<times> ac_chain" where
  "accept_execute S ld c b =
     (let h = b_header b;
          pre_total_sqrt = ac_chain_total_sqrt_stake c;
          pre = pre_signers (ch_state c) (b_signers b);
          snap = ac_state_serialize (ch_state c);
          (tx_ok, s, total_gas, total_tips) = accept_txs S (h_slot h) (h_base_fee h) (b_txs b) (ch_state c) 0 0;
          c = c\<lparr>ch_state := s\<rparr>
      in if \<not> tx_ok \<or> total_gas \<noteq> h_gas_used h
         then (Some (if tx_ok then AC_ACCEPT_REJECT_BAD_GAS else AC_ACCEPT_REJECT_BAD_TX), state_restore c snap)
         else if \<not> ac_hash_eq (ac_block_tx_root S (b_txs b)) (h_tx_root h)
         then (Some AC_ACCEPT_REJECT_BAD_TX, state_restore c snap)
         else let c = c\<lparr>ch_state := accept_reward s (h_proposer h) (ac_chain_block_reward (h_height h)) total_tips\<rparr>
           in if \<not> ac_hash_eq (ac_state_root S (ch_state c)) (h_state_root h)
              then (Some AC_ACCEPT_REJECT_BAD_STATE_ROOT, state_restore c snap)
              else case validate_commit S ld c b (ac_block_hash S h) pre_total_sqrt (ac_chain__pre_stake_lookup pre) of
                  (False, c) \<Rightarrow> (Some AC_ACCEPT_REJECT_BAD_COMMIT, state_restore c snap)
                | (True, c) \<Rightarrow> (None, c))"

fun accept_addr_index :: "u64 \<Rightarrow> nat \<Rightarrow> ac_tx list \<Rightarrow> ac_chain \<Rightarrow> ac_chain" where
  "accept_addr_index h i [] c = c"
| "accept_addr_index h i (tx # txs) c = accept_addr_index h (Suc i) txs (addr_index_record_tx c tx h (of_nat i))"

fun accept_tx_index :: "sodium \<Rightarrow> u64 \<Rightarrow> nat \<Rightarrow> ac_tx list \<Rightarrow> ac_chain \<Rightarrow> ac_chain" where
  "accept_tx_index S h i [] c = c"
| "accept_tx_index S h i (tx # txs) c = accept_tx_index S h (Suc i) txs (tx_index_add c (ac_tx_hash S tx) h (of_nat i))"

definition accept_advance :: "sodium \<Rightarrow> ac_chain \<Rightarrow> ac_block_header \<Rightarrow> ac_chain" where
  "accept_advance S c h =
     c\<lparr>ch_height := h_height h, ch_tip_hash := ac_block_hash S h, ch_last_slot := h_slot h,
       ch_last_timestamp_ms := h_timestamp_ms h, ch_base_fee := h_base_fee h\<rparr>"

definition accept_index :: "sodium \<Rightarrow> ac_chain \<Rightarrow> ac_block \<Rightarrow> ac_chain" where
  "accept_index S c b =
     (let h = h_height (b_header b);
          c = c\<lparr>ch_live_map := live_record_all (ch_live_map c) (b_signers b) h\<rparr>;
          c = accept_addr_index h 0 (b_txs b) c;
          c = accept_tx_index S h 0 (b_txs b) c
      in c\<lparr>ch_cached_valid := False\<rparr>)"

definition accept_persist :: "sodium \<Rightarrow> ac_io \<Rightarrow> ac_chain \<Rightarrow> ac_block \<Rightarrow> ac_accept \<times> ac_chain" where
  "accept_persist S io c b =
     (case block_write io c b of
        (False, c) \<Rightarrow> (AC_ACCEPT_INTERNAL, c)
      | (True, c) \<Rightarrow>
        (case ac_state_save io c of
           (False, c) \<Rightarrow> (AC_ACCEPT_INTERNAL, c)
         | (True, c) \<Rightarrow>
           (case meta_save io (accept_advance S c (b_header b)) of
              (False, c) \<Rightarrow> (AC_ACCEPT_INTERNAL, c)
            | (True, c) \<Rightarrow> (AC_ACCEPT_OK, accept_index S c b))))"

definition ac_chain_accept_block :: "sodium \<Rightarrow> rounding \<Rightarrow> ac_io \<Rightarrow> ac_chain \<Rightarrow> ac_block \<Rightarrow> ac_accept \<times> ac_chain" where
  "ac_chain_accept_block S ld io c b =
     (case accept_precheck S io c (b_header b) of
        Some r \<Rightarrow> (r, c)
      | None \<Rightarrow>
        (case validate_proposer_vrf S c (b_header b) of
           (False, c) \<Rightarrow> (AC_ACCEPT_REJECT_BAD_PROPOSER, c)
         | (True, c) \<Rightarrow>
           if \<not> accept_base_fee_ok c (h_base_fee (b_header b)) then (AC_ACCEPT_REJECT_BAD_HEADER, c)
           else case accept_execute S ld c b of
               (Some r, c) \<Rightarrow> (r, c)
             | (None, c) \<Rightarrow> accept_persist S io c b))"

section \<open>Construction\<close>

text \<open>The candidate loop: the transactions kept, the state, gas and tips.\<close>

fun build_txs ::
  "sodium \<Rightarrow> u64 \<Rightarrow> u64 \<Rightarrow> ac_tx list \<Rightarrow> ac_state \<Rightarrow> u64 \<Rightarrow> u64 \<Rightarrow> ac_tx list \<times> ac_state \<times> u64 \<times> u64" where
  "build_txs S slot base_fee [] s gas tips = ([], s, gas, tips)"
| "build_txs S slot base_fee (tx # txs) s gas tips =
     (if \<not> ac_tx_verify S tx then build_txs S slot base_fee txs s gas tips
      else if gas + ac_tx_total_gas tx > AC_BLOCK_GAS_LIMIT then build_txs S slot base_fee txs s gas tips
      else case ac_state_apply_tx S s tx slot base_fee of
          (rc, r, s) \<Rightarrow>
            if rc < 0 then build_txs S slot base_fee txs s gas tips
            else case build_txs S slot base_fee txs s (gas + ar_gas_used r) (tips + ar_fee_tip r) of
                (kept, rest) \<Rightarrow> (tx # kept, rest))"

definition build_base_fee :: "ac_chain \<Rightarrow> u64" where
  "build_base_fee c =
     (if ch_height c = 0 then AC_MIN_BASE_FEE
      else case ac_chain_get_header_by_height c (ch_height c) of
          None \<Rightarrow> AC_MIN_BASE_FEE
        | Some prev \<Rightarrow> ac_chain_next_base_fee (h_base_fee prev) (h_gas_used prev) (h_gas_limit prev))"

definition ac_chain_build_block ::
  "sodium \<Rightarrow> ac_chain \<Rightarrow> u64 \<Rightarrow> ac_keypair \<Rightarrow> ac_tx list \<Rightarrow> ac_block option \<times> ac_chain" where
  "ac_chain_build_block S c slot kp candidates =
     (let proposer = kp_pk kp; (found, acc) = ac_state_get (ch_state c) proposer
      in if \<not> found then (None, c)
         else if acc_stake acc < AC_MIN_STAKE_UCRD then (None, c)
         else let (seed, c) = ac_chain_epoch_seed S c (ac_epoch_of slot);
                  prf = fst (ac_vrf_prove S (leader_alpha seed slot) kp);
                  base_fee = build_base_fee c;
                  snap = ac_state_serialize (ch_state c);
                  (kept, s, total_gas, total_tips) = build_txs S slot base_fee candidates (ch_state c) 0 0;
                  s = accept_reward s proposer (ac_chain_block_reward (ch_height c + 1)) total_tips;
                  c = state_restore (c\<lparr>ch_state := s\<rparr>) snap;
                  hdr = \<lparr>h_version = AC_BLOCK_VERSION, h_height = ch_height c + 1, h_slot = slot,
                         h_parent_hash = ch_tip_hash c, h_timestamp_ms = ac_chain_slot_time_ms c slot,
                         h_proposer = proposer, h_proposer_vrf_proof = prf, h_state_root = ac_state_root S s,
                         h_tx_root = ac_block_tx_root S kept, h_base_fee = base_fee, h_gas_used = total_gas,
                         h_gas_limit = AC_BLOCK_GAS_LIMIT, h_tx_count = of_nat (length kept)\<rparr>
           in (Some \<lparr>b_header = hdr, b_txs = kept, b_signers = []\<rparr>, c))"

section \<open>The seed cache\<close>

text \<open>Two chains that differ at most in the cached epoch seed.\<close>

definition same_but_cache :: "ac_chain \<Rightarrow> ac_chain \<Rightarrow> bool" where
  "same_but_cache c c' \<longleftrightarrow>
     c' = c\<lparr>ch_cached_epoch := ch_cached_epoch c', ch_cached_seed := ch_cached_seed c', ch_cached_valid := ch_cached_valid c'\<rparr>"

definition cache_ok :: "sodium \<Rightarrow> ac_chain \<Rightarrow> bool" where
  "cache_ok S c \<longleftrightarrow> (ch_cached_valid c \<longrightarrow> ch_cached_seed c = compute_epoch_seed S c (ch_cached_epoch c))"

lemma same_but_cache_refl [simp]: "same_but_cache c c"
  by (simp add: same_but_cache_def)

lemma same_but_cache_trans: "same_but_cache a b \<Longrightarrow> same_but_cache b c \<Longrightarrow> same_but_cache a c"
  unfolding same_but_cache_def by (cases a; cases b; cases c) simp

lemma same_but_cache_undo: "same_but_cache (c\<lparr>ch_state := s\<rparr>) c' \<Longrightarrow> same_but_cache c (c'\<lparr>ch_state := ch_state c\<rparr>)"
  unfolding same_but_cache_def by (cases c; cases c') simp

lemma same_but_cache_fields:
  assumes "same_but_cache c c'"
  shows "ch_state c' = ch_state c" "ch_chain_id c' = ch_chain_id c" "ch_height c' = ch_height c"
    "ch_tip_hash c' = ch_tip_hash c" "ch_last_slot c' = ch_last_slot c" "ch_base_fee c' = ch_base_fee c"
    "ch_last_timestamp_ms c' = ch_last_timestamp_ms c" "ch_genesis_timestamp_ms c' = ch_genesis_timestamp_ms c"
    "ch_tx_index c' = ch_tx_index c" "ch_tx_index_sorted c' = ch_tx_index_sorted c"
    "ch_addr_index c' = ch_addr_index c" "ch_addr_index_sorted c' = ch_addr_index_sorted c"
    "ch_live_map c' = ch_live_map c" "ch_disk_blocks c' = ch_disk_blocks c"
    "ch_disk_state c' = ch_disk_state c" "ch_disk_meta c' = ch_disk_meta c"
  using assms unfolding same_but_cache_def by (cases c; cases c'; simp)+

text \<open>The seed depends only on the chain's identity, its height and the block files.\<close>

lemma get_header_cong:
  "ch_disk_blocks c = ch_disk_blocks c' \<Longrightarrow> ac_chain_get_header_by_height c h = ac_chain_get_header_by_height c' h"
  by (simp add: ac_chain_get_header_by_height_def block_read_def)

lemma epoch_scan_cong:
  "ch_disk_blocks c = ch_disk_blocks c' \<Longrightarrow> epoch_scan c start n = epoch_scan c' start n"
  by (induction n) (simp_all add: get_header_cong [of c c'] split: option.split)

lemma compute_epoch_seed_cong:
  assumes "ch_disk_blocks c = ch_disk_blocks c'" "ch_height c = ch_height c'" "ch_chain_id c = ch_chain_id c'"
    and "ch_genesis_timestamp_ms c = ch_genesis_timestamp_ms c'"
  shows "compute_epoch_seed S c e = compute_epoch_seed S c' e"
  unfolding compute_epoch_seed_def assms(2-4) epoch_scan_cong [OF assms(1)] get_header_cong [OF assms(1)] ..

lemma epoch_seed_spec:
  assumes "cache_ok S c" "ac_chain_epoch_seed S c e = (seed, c')"
  shows "seed = compute_epoch_seed S c e" "same_but_cache c c'" "cache_ok S c'"
proof -
  have "compute_epoch_seed S (c\<lparr>ch_cached_epoch := e', ch_cached_seed := x, ch_cached_valid := v\<rparr>) k =
      compute_epoch_seed S c k" for e' x v k
    by (rule compute_epoch_seed_cong) simp_all
  then show "seed = compute_epoch_seed S c e" "same_but_cache c c'" "cache_ok S c'"
    using assms by (auto simp: ac_chain_epoch_seed_def Let_def cache_ok_def same_but_cache_def split: if_splits)
qed

lemma cache_ok_state [simp]: "cache_ok S (c\<lparr>ch_state := s\<rparr>) \<longleftrightarrow> cache_ok S c"
  unfolding cache_ok_def by (simp add: compute_epoch_seed_cong [of "c\<lparr>ch_state := s\<rparr>" c])

lemma validate_proposer_spec:
  assumes "cache_ok S c" "validate_proposer_vrf S c h = (ok, c')"
  shows "same_but_cache c c'" "cache_ok S c'"
    "ok \<longleftrightarrow> fst (ac_state_get (ch_state c) (h_proposer h)) \<and>
       AC_MIN_STAKE_UCRD \<le> acc_stake (snd (ac_state_get (ch_state c) (h_proposer h))) \<and>
       ac_vrf_verify S (h_proposer_vrf_proof h)
         (leader_alpha (compute_epoch_seed S c (ac_epoch_of (h_slot h))) (h_slot h)) (h_proposer h) \<noteq> None"
proof -
  obtain seed c1 where e: "ac_chain_epoch_seed S c (ac_epoch_of (h_slot h)) = (seed, c1)" by fastforce
  note sp = epoch_seed_spec [OF assms(1) e]
  have r: "(ok, c') = (if \<not> fst (ac_state_get (ch_state c) (h_proposer h)) then (False, c)
      else if acc_stake (snd (ac_state_get (ch_state c) (h_proposer h))) < AC_MIN_STAKE_UCRD then (False, c)
      else (ac_vrf_verify S (h_proposer_vrf_proof h) (leader_alpha seed (h_slot h)) (h_proposer h) \<noteq> None, c1))"
    using assms(2) [unfolded validate_proposer_vrf_def Let_def split_beta e fst_conv snd_conv] by simp
  then show "same_but_cache c c'" "cache_ok S c'"
    using sp assms(1) by (auto split: if_splits)
  show "ok \<longleftrightarrow> fst (ac_state_get (ch_state c) (h_proposer h)) \<and>
       AC_MIN_STAKE_UCRD \<le> acc_stake (snd (ac_state_get (ch_state c) (h_proposer h))) \<and>
       ac_vrf_verify S (h_proposer_vrf_proof h)
         (leader_alpha (compute_epoch_seed S c (ac_epoch_of (h_slot h))) (h_slot h)) (h_proposer h) \<noteq> None"
    using r sp(1) by (auto split: if_splits)
qed

lemma validate_commit_spec:
  assumes "cache_ok S c" "validate_commit S ld c b bh total_sqrt f = (ok, c')"
  shows "same_but_cache c c'" "cache_ok S c'"
    "ok \<longleftrightarrow> b_signers b \<noteq> [] \<and> total_sqrt \<noteq> 0 \<and>
       (\<exists>w. commit_signers S ld f
          (committee_alpha (compute_epoch_seed S c (ac_epoch_of (h_slot (b_header b)))) (h_slot (b_header b)))
          (ac_vote_message (h_height (b_header b)) bh) total_sqrt (b_signers b) 0 = Some w \<and>
        commit_threshold w (ac_chain_live_sqrt_stake c) total_sqrt)"
proof -
  obtain seed c1 where e: "ac_chain_epoch_seed S c (ac_epoch_of (h_slot (b_header b))) = (seed, c1)" by fastforce
  note sp = epoch_seed_spec [OF assms(1) e]
  have live: "ac_chain_live_sqrt_stake c1 = ac_chain_live_sqrt_stake c"
    by (simp add: ac_chain_live_sqrt_stake_def live_validators_def ac_chain_total_sqrt_stake_def
        same_but_cache_fields [OF sp(2)])
  note d = assms(2) [unfolded validate_commit_def Let_def e prod.case live]
  show "same_but_cache c c'" "cache_ok S c'"
    using d sp assms(1) by (auto split: if_splits option.splits)
  show "ok \<longleftrightarrow> b_signers b \<noteq> [] \<and> total_sqrt \<noteq> 0 \<and>
       (\<exists>w. commit_signers S ld f
          (committee_alpha (compute_epoch_seed S c (ac_epoch_of (h_slot (b_header b)))) (h_slot (b_header b)))
          (ac_vote_message (h_height (b_header b)) bh) total_sqrt (b_signers b) 0 = Some w \<and>
        commit_threshold w (ac_chain_live_sqrt_stake c) total_sqrt)"
    using d by (auto simp: sp(1) split: if_splits option.splits)
qed

section \<open>Execution keeps the state well formed\<close>

lemma apply_tx_state:
  assumes "wf_state s" "wf_tx tx" "ac_state_apply_tx S s tx slot base_fee = (rc, r, s')"
  shows "wf_state s'" "st_chain_id s' = st_chain_id s"
  using assms(3)
proof (atomize (full), cases rule: apply_tx_cases)
  case (included b)
  have "wf_addr (tx_sender tx)" using assms(2) by (simp add: wf_tx_def)
  then show "wf_state s' \<and> st_chain_id s' = st_chain_id s"
    using apply_included(5) [OF assms(1,2) included(1,2)] apply_body_state(2) [OF assms(1) _ included(1)] included(2,4)
    by (simp add: tx_body_out_def)
qed (use assms(1) in simp)



lemma accept_txs_state:
  assumes "wf_state s" "list_all wf_tx txs" "accept_txs S slot base_fee txs s gas tips = (ok, s', gas', tips')"
  shows "wf_state s' \<and> st_chain_id s' = st_chain_id s"
  using assms
proof (induction txs arbitrary: s gas tips)
  case (Cons tx txs)
  obtain rc r s1 where a: "ac_state_apply_tx S s tx slot base_fee = (rc, r, s1)" by (metis prod_cases3)
  have w: "wf_state s1" "st_chain_id s1 = st_chain_id s" using apply_tx_state [OF Cons.prems(1) _ a] Cons.prems(2) by simp_all
  show ?case
    using Cons.prems(2,3) Cons.IH [OF w(1)] w Cons.prems(1) by (auto simp: a split: if_splits)
qed simp

lemma credit_debit_state:
  assumes "wf_state s" "wf_addr k"
  shows "wf_state (ac_state_credit s k x)" "wf_state (ac_state_debit s k x)"
    "st_chain_id (ac_state_credit s k x) = st_chain_id s" "st_chain_id (ac_state_debit s k x) = st_chain_id s"
  using st.wf_get [OF assms] st.inv_put [OF assms(1)]
  by (simp_all add: ac_state_credit_def ac_state_debit_def Let_def wf_account_def)

lemma wf_reward_pool [simp]: "wf_addr SYS_REWARD_POOL"
  by (simp add: SYS_REWARD_POOL_def wf)

lemma accept_reward_state:
  assumes "wf_state s" "wf_addr k"
  shows "wf_state (accept_reward s k reward tips)" "st_chain_id (accept_reward s k reward tips) = st_chain_id s"
  using credit_debit_state [OF assms, of "reward + tips"] credit_debit_state(2,4) [of _ SYS_REWARD_POOL]
  by (simp_all add: accept_reward_def)

lemma state_restore_eq:
  assumes "wf_state s" "small_state s" "st_chain_id (ch_state c) = st_chain_id s"
  shows "state_restore c (ac_state_serialize s) = c\<lparr>ch_state := s\<rparr>"
  using deserialize_serialize [OF assms] by (simp add: state_restore_def)

lemma accept_execute_cases:
  assumes "wf_state (ch_state c)" "small_state (ch_state c)" "cache_ok S c" "wf_block b"
    and "accept_execute S ld c b = (r, c')"
  obtains (rejected) res where "r = Some res" "res \<notin> {AC_ACCEPT_OK, AC_ACCEPT_INTERNAL}" "same_but_cache c c'" "cache_ok S c'"
    | (good) s tips s' w where "r = None"
      "accept_txs S (h_slot (b_header b)) (h_base_fee (b_header b)) (b_txs b) (ch_state c) 0 0 =
         (True, s, h_gas_used (b_header b), tips)"
      "ac_hash_eq (ac_block_tx_root S (b_txs b)) (h_tx_root (b_header b))"
      "s' = accept_reward s (h_proposer (b_header b)) (ac_chain_block_reward (h_height (b_header b))) tips"
      "ac_hash_eq (ac_state_root S s') (h_state_root (b_header b))"
      "same_but_cache (c\<lparr>ch_state := s'\<rparr>) c'" "cache_ok S c'" "b_signers b \<noteq> []" "ac_chain_total_sqrt_stake c \<noteq> 0"
      "commit_signers S ld (ac_chain__pre_stake_lookup (pre_signers (ch_state c) (b_signers b)))
         (committee_alpha (compute_epoch_seed S c (ac_epoch_of (h_slot (b_header b)))) (h_slot (b_header b)))
         (ac_vote_message (h_height (b_header b)) (ac_block_hash S (b_header b)))
         (ac_chain_total_sqrt_stake c) (b_signers b) 0 = Some w"
      "commit_threshold w (ac_chain_live_sqrt_stake (c\<lparr>ch_state := s'\<rparr>)) (ac_chain_total_sqrt_stake c)"
proof -
  let ?h = "b_header b"
  obtain ok s gas tips where t: "accept_txs S (h_slot ?h) (h_base_fee ?h) (b_txs b) (ch_state c) 0 0 = (ok, s, gas, tips)"
    by (metis prod_cases4)
  have wb: "list_all wf_tx (b_txs b)" "wf_addr (h_proposer ?h)" using assms(4) by (simp_all add: wf_block_def wf_header_def)
  have s: "wf_state s" "st_chain_id s = st_chain_id (ch_state c)" using accept_txs_state [OF assms(1) wb(1) t] by simp_all
  define s' where "s' = accept_reward s (h_proposer ?h) (ac_chain_block_reward (h_height ?h)) tips"
  have s': "wf_state s'" "st_chain_id s' = st_chain_id (ch_state c)" using accept_reward_state [OF s(1) wb(2)] s(2) by (simp_all add: s'_def)
  obtain vok cv where v: "validate_commit S ld (c\<lparr>ch_state := s'\<rparr>) b (ac_block_hash S ?h) (ac_chain_total_sqrt_stake c)
      (ac_chain__pre_stake_lookup (pre_signers (ch_state c) (b_signers b))) = (vok, cv)" by fastforce
  have ck: "cache_ok S (c\<lparr>ch_state := s'\<rparr>)" using assms(3) by simp
  note vs = validate_commit_spec [OF ck v]
  have seed: "compute_epoch_seed S (c\<lparr>ch_state := s'\<rparr>) e = compute_epoch_seed S c e" for e
    by (rule compute_epoch_seed_cong) simp_all
  have undo: "state_restore (c\<lparr>ch_state := s\<rparr>) (ac_state_serialize (ch_state c)) = c"
      "state_restore (c\<lparr>ch_state := s'\<rparr>) (ac_state_serialize (ch_state c)) = c"
      "state_restore cv (ac_state_serialize (ch_state c)) = cv\<lparr>ch_state := ch_state c\<rparr>"
    using s(2) s'(2) same_but_cache_fields(1) [OF vs(1)] by (simp_all add: state_restore_eq [OF assms(1,2)])
  have cvc: "same_but_cache c (cv\<lparr>ch_state := ch_state c\<rparr>)" "cache_ok S (cv\<lparr>ch_state := ch_state c\<rparr>)"
    using same_but_cache_undo [OF vs(1)] vs(2) by simp_all
  have ex: "(r, c') = (if \<not> ok \<or> gas \<noteq> h_gas_used ?h
        then (Some (if ok then AC_ACCEPT_REJECT_BAD_GAS else AC_ACCEPT_REJECT_BAD_TX), c)
      else if \<not> ac_hash_eq (ac_block_tx_root S (b_txs b)) (h_tx_root ?h) then (Some AC_ACCEPT_REJECT_BAD_TX, c)
      else if \<not> ac_hash_eq (ac_state_root S s') (h_state_root ?h) then (Some AC_ACCEPT_REJECT_BAD_STATE_ROOT, c)
      else if \<not> vok then (Some AC_ACCEPT_REJECT_BAD_COMMIT, cv\<lparr>ch_state := ch_state c\<rparr>) else (None, cv))"
    unfolding assms(5) [symmetric] accept_execute_def Let_def t prod.case
    using v undo by (simp flip: s'_def split: bool.split)
  show thesis
  proof (cases r)
    case (Some res)
    then show ?thesis using ex assms(3) cvc by (intro rejected [of res]) (auto split: if_splits)
  next
    case None
    then have "ok" "gas = h_gas_used ?h" "ac_hash_eq (ac_block_tx_root S (b_txs b)) (h_tx_root ?h)"
      "ac_hash_eq (ac_state_root S s') (h_state_root ?h)" "vok" "c' = cv"
      using ex by (auto split: if_splits)
    then show ?thesis
      using None t vs [unfolded seed] by (auto simp: s'_def intro!: good)
  qed
qed

section \<open>Rejected blocks\<close>

lemma accept_precheck_results:
  assumes "accept_precheck S io c h = Some r"
  shows "r \<notin> {AC_ACCEPT_OK, AC_ACCEPT_INTERNAL}"
  using assms by (auto simp: accept_precheck_def Let_def split: if_splits option.splits)

lemma accept_block_cases:
  assumes "wf_state (ch_state c)" "small_state (ch_state c)" "cache_ok S c" "wf_block b"
    and "ac_chain_accept_block S ld io c b = (r, c')"
  obtains (rejected) "r \<notin> {AC_ACCEPT_OK, AC_ACCEPT_INTERNAL}" "same_but_cache c c'" "cache_ok S c'"
    | (valid) c1 c2 where "accept_precheck S io c (b_header b) = None" "validate_proposer_vrf S c (b_header b) = (True, c1)"
      "same_but_cache c c1" "cache_ok S c1" "accept_base_fee_ok c1 (h_base_fee (b_header b))"
      "accept_execute S ld c1 b = (None, c2)" "accept_persist S io c2 b = (r, c')"
proof (cases "accept_precheck S io c (b_header b)")
  case (Some x)
  then show ?thesis using accept_precheck_results [OF Some] assms by (intro rejected) (auto simp: ac_chain_accept_block_def)
next
  case None
  obtain ok c1 where p: "validate_proposer_vrf S c (b_header b) = (ok, c1)" by fastforce
  note ps = validate_proposer_spec [OF assms(3) p]
  obtain e c2 where x: "accept_execute S ld c1 b = (e, c2)" by fastforce
  have st: "wf_state (ch_state c1)" "small_state (ch_state c1)" using same_but_cache_fields(1) [OF ps(1)] assms(1,2) by simp_all
  have eq: "(r, c') = (if \<not> ok then (AC_ACCEPT_REJECT_BAD_PROPOSER, c1)
      else if \<not> accept_base_fee_ok c1 (h_base_fee (b_header b)) then (AC_ACCEPT_REJECT_BAD_HEADER, c1)
      else (case e of Some r \<Rightarrow> (r, c2) | None \<Rightarrow> accept_persist S io c2 b))"
    unfolding assms(5) [symmetric] ac_chain_accept_block_def None option.case p x prod.case
    by (simp split: bool.split option.split)
  from st ps(2) assms(4) x show ?thesis
  proof (cases rule: accept_execute_cases)
    case (rejected res)
    then show ?thesis
      using eq ps(1,2) same_but_cache_trans [OF ps(1)] by (intro that(1)) (auto split: if_splits)
  next
    case (good s tips s' w)
    show ?thesis
    proof (cases "ok \<and> accept_base_fee_ok c1 (h_base_fee (b_header b))")
      case True
      then show ?thesis using eq None p ps good(1) x by (intro that(2) [of c1 c2]) auto
    next
      case False
      then show ?thesis using eq ps by (intro that(1)) (auto split: if_splits)
    qed
  qed
qed

text \<open>
  Claim C3. A rejected block leaves no trace: whatever check fails, early or after the transactions
  have been executed, the chain is the one before, the rollback from the snapshot included; only the
  cached epoch seed may have been filled in, correctly. An internal error after validation is the
  only other outcome.
\<close>

theorem accept_rejected_unchanged:
  assumes "wf_state (ch_state c)" "small_state (ch_state c)" "cache_ok S c" "wf_block b"
    and "ac_chain_accept_block S ld io c b = (r, c')" "r \<notin> {AC_ACCEPT_OK, AC_ACCEPT_INTERNAL}"
  shows "c' = c\<lparr>ch_cached_epoch := ch_cached_epoch c', ch_cached_seed := ch_cached_seed c',
      ch_cached_valid := ch_cached_valid c'\<rparr> \<and>
    (ch_cached_valid c' \<longrightarrow> ch_cached_seed c' = compute_epoch_seed S c' (ch_cached_epoch c'))"
  using assms(1-5)
proof (cases rule: accept_block_cases)
  case rejected
  then show ?thesis unfolding same_but_cache_def cache_ok_def by blast
next
  case (valid c1 c2)
  then show ?thesis using assms(6) by (auto simp: accept_persist_def split: bool.splits prod.splits)
qed

section \<open>Commit certificates\<close>

lemma commit_signersD:
  assumes "commit_signers S ld f calpha vmsg T xs acc = Some w"
  shows "w = foldl (\<lambda>sum x. sum + ac_isqrt_u64 (f (cs_signer x))) acc xs"
    and "x \<in> set xs \<Longrightarrow> AC_MIN_STAKE_UCRD \<le> f (cs_signer x) \<and> ac_verify S (cs_sig x) vmsg (cs_signer x)"
  using assms by (induction xs arbitrary: acc) (auto split: if_splits option.splits)

lemma pre_stake_lookup_signer:
  assumes "list_all wf_signer ss" "length ss \<le> AC_COMMITTEE_MAX" "x \<in> set ss"
  shows "ac_chain__pre_stake_lookup (pre_signers s ss) (cs_signer x) = acc_stake (snd (ac_state_get s (cs_signer x)))"
proof -
  have "ac_chain__pre_stake_lookup (map (\<lambda>x. (cs_signer x, g (cs_signer x))) ss) k = g k"
    if "list_all wf_signer ss" "k \<in> cs_signer ` set ss" "wf_addr k" for ss k and g :: "ac_addr \<Rightarrow> u64"
    using that by (induction ss) (auto simp: wf_signer_def ac_addr_eq_iff)
  from this [OF assms(1), of "cs_signer x" "\<lambda>k. acc_stake (snd (ac_state_get s k))"] show ?thesis
    using assms by (simp add: pre_signers_def wf_signer_def list_all_iff)
qed

text \<open>The weight of a certificate with distinct signers, as a number.\<close>

lemma commit_weight:
  assumes "wf_state s" "money s < 2 ^ 63" "list_all wf_signer ss" "length ss \<le> AC_COMMITTEE_MAX"
    and "distinct (map cs_signer ss)"
    and "commit_signers S ld (ac_chain__pre_stake_lookup (pre_signers s ss)) calpha vmsg T ss 0 = Some w"
  shows "unat w = sum (vweight s) (cs_signer ` set ss)" "unat w \<le> total_weight s"
proof -
  let ?f = "ac_chain__pre_stake_lookup (pre_signers s ss)"
  have wt: "unat (ac_isqrt_u64 (?f (cs_signer x))) = vweight s (cs_signer x)" if "x \<in> set ss" for x
    using commit_signersD(2) [OF assms(6) that] pre_stake_lookup_signer [OF assms(3,4) that, of s]
    by (auto simp: vweight_def acc_weight_def not_less)
  have "sum_list (map (\<lambda>x. unat (ac_isqrt_u64 (?f (cs_signer x)))) ss) = sum_list (map (vweight s) (map cs_signer ss))"
    unfolding map_map by (rule arg_cong [of _ _ sum_list], rule map_cong) (simp_all add: wt)
  also have "\<dots> = sum (vweight s) (set (map cs_signer ss))"
    by (rule sum_list_distinct_conv_sum_set [OF assms(5)])
  finally have eq: "sum_list (map (\<lambda>x. unat (ac_isqrt_u64 (?f (cs_signer x)))) ss) = sum (vweight s) (cs_signer ` set ss)"
    by simp
  have le: "sum (vweight s) (cs_signer ` set ss) \<le> total_weight s"
    using assms(3) by (intro validators.sum_le_whole assms(1)) (auto simp: list_all_iff wf_signer_def)
  have "total_weight s < 2 ^ 64" using total_weight_le [of s] assms(2) by simp
  then show "unat w = sum (vweight s) (cs_signer ` set ss)"
    using commit_signersD(1) [OF assms(6)] foldl_sum_nowrap [of 0 "\<lambda>x. ac_isqrt_u64 (?f (cs_signer x))" ss] eq le by simp
  with le show "unat w \<le> total_weight s" by simp
qed

text \<open>The threshold demands more than half of the total weight.\<close>

lemma threshold_majority:
  assumes "commit_threshold w live T" "unat w * 2 < 2 ^ 64"
  shows "unat T < 2 * unat w"
proof -
  have "unat (w * 2) = unat w * 2" using unat_mult_nowrap [of w 2] assms(2) by simp
  then show ?thesis using assms(1) by (simp add: commit_threshold_def Let_def word_le_nat_alt)
qed

definition signed_by_quorum :: "sodium \<Rightarrow> ac_state \<Rightarrow> ac_block \<Rightarrow> bool" where
  "signed_by_quorum S s b \<longleftrightarrow>
     total_weight s < 2 * sum (vweight s) (cs_signer ` set (b_signers b)) \<and>
     (\<forall>x\<in>set (b_signers b). ac_verify S (cs_sig x)
        (ac_vote_message (h_height (b_header b)) (ac_block_hash S (b_header b))) (cs_signer x))"

lemma accepted_quorum:
  assumes "wf_state (ch_state c)" "small_state (ch_state c)" "cache_ok S c" "wf_block b"
    and "ac_chain_accept_block S ld io c b = (AC_ACCEPT_OK, c')" "money (ch_state c) < 2 ^ 63"
    and "distinct (map cs_signer (b_signers b))"
  shows "signed_by_quorum S (ch_state c) b" "h_height (b_header b) = ch_height c + 1"
proof -
  have wb: "list_all wf_signer (b_signers b)" "length (b_signers b) \<le> AC_COMMITTEE_MAX"
    using assms(4) by (simp_all add: wf_block_def)
  have "signed_by_quorum S (ch_state c) b \<and> h_height (b_header b) = ch_height c + 1"
    using assms(1-5)
  proof (cases rule: accept_block_cases)
    case (valid c1 c2)
    note f = same_but_cache_fields [OF valid(3)]
    have st: "wf_state (ch_state c1)" "small_state (ch_state c1)" using assms(1,2) f(1) by simp_all
    from st valid(4) assms(4) valid(6) have "signed_by_quorum S (ch_state c) b"
    proof (cases rule: accept_execute_cases)
      case (good s tips s' w)
      note cw = commit_weight [OF assms(1,6) wb assms(7) good(10) [unfolded f]]
      have "unat w * 2 < 2 ^ 64" using cw(2) total_weight_le [of "ch_state c"] assms(6) by simp
      then have "unat (ac_chain_total_sqrt_stake c1) < 2 * unat w" using good(11) threshold_majority by blast
      then have "total_weight (ch_state c) < 2 * sum (vweight (ch_state c)) (cs_signer ` set (b_signers b))"
        using total_sqrt_eq [of c1] assms(6) cw(1) by (simp add: f)
      then show ?thesis using commit_signersD(2) [OF good(10)] by (simp add: signed_by_quorum_def)
    qed simp
    moreover have "h_height (b_header b) = ch_height c + 1"
      using valid(1) by (auto simp: accept_precheck_def Let_def split: if_splits option.splits)
    ultimately show ?thesis by simp
  qed simp
  then show "signed_by_quorum S (ch_state c) b" "h_height (b_header b) = ch_height c + 1" by simp_all
qed

end
