(* ===== verification/Ledger.thy ===== *)
theory Ledger
  imports Accept
begin

text \<open>
  What block construction and block acceptance give together: a block that a leader built and a
  quorum signed is accepted, an accepted block advances the chain by exactly its effects, two
  accepted blocks at one height expose a validator whose stake can be slashed, and blocks do not
  inflate the money supply.
\<close>

section \<open>Accepted blocks\<close>

text \<open>The conditions under which a block passes every test, and the chain that results.\<close>

definition block_valid :: "sodium \<Rightarrow> rounding \<Rightarrow> ac_io \<Rightarrow> ac_chain \<Rightarrow> ac_block \<Rightarrow> ac_state \<Rightarrow> bool" where
  "block_valid S ld io c b s' \<longleftrightarrow>
     (let h = b_header b in
      accept_precheck S io c h = None \<and>
      fst (ac_state_get (ch_state c) (h_proposer h)) \<and>
      AC_MIN_STAKE_UCRD \<le> acc_stake (snd (ac_state_get (ch_state c) (h_proposer h))) \<and>
      ac_vrf_verify S (h_proposer_vrf_proof h)
        (leader_alpha (compute_epoch_seed S c (ac_epoch_of (h_slot h))) (h_slot h)) (h_proposer h) \<noteq> None \<and>
      accept_base_fee_ok c (h_base_fee h) \<and>
      (\<exists>s tips. accept_txs S (h_slot h) (h_base_fee h) (b_txs b) (ch_state c) 0 0 = (True, s, h_gas_used h, tips) \<and>
         s' = accept_reward s (h_proposer h) (ac_chain_block_reward (h_height h)) tips) \<and>
      ac_hash_eq (ac_block_tx_root S (b_txs b)) (h_tx_root h) \<and>
      ac_hash_eq (ac_state_root S s') (h_state_root h) \<and>
      b_signers b \<noteq> [] \<and> ac_chain_total_sqrt_stake c \<noteq> 0 \<and>
      (\<exists>w. commit_signers S ld (ac_chain__pre_stake_lookup (pre_signers (ch_state c) (b_signers b)))
             (committee_alpha (compute_epoch_seed S c (ac_epoch_of (h_slot h))) (h_slot h))
             (ac_vote_message (h_height h) (ac_block_hash S h))
             (ac_chain_total_sqrt_stake c) (b_signers b) 0 = Some w \<and>
           commit_threshold w (ac_chain_live_sqrt_stake (c\<lparr>ch_state := s'\<rparr>)) (ac_chain_total_sqrt_stake c)))"

lemma base_fee_ok_cong:
  "same_but_cache c c' \<Longrightarrow> accept_base_fee_ok c' f \<longleftrightarrow> accept_base_fee_ok c f"
  by (simp add: accept_base_fee_ok_def accept_expected_base_fee_def same_but_cache_fields
      get_header_cong [of c' c] split: option.split)

lemma total_sqrt_cong: "ch_state c = ch_state c' \<Longrightarrow> ac_chain_total_sqrt_stake c = ac_chain_total_sqrt_stake c'"
  by (simp add: ac_chain_total_sqrt_stake_def)

lemma live_sqrt_cong:
  "ch_state c = ch_state c' \<Longrightarrow> ch_live_map c = ch_live_map c' \<Longrightarrow> ch_height c = ch_height c' \<Longrightarrow>
   ac_chain_live_sqrt_stake c = ac_chain_live_sqrt_stake c'"
  by (simp add: ac_chain_live_sqrt_stake_def live_validators_def ac_chain_total_sqrt_stake_def)

lemma seed_cache_cong: "same_but_cache c c' \<Longrightarrow> compute_epoch_seed S c' e = compute_epoch_seed S c e"
  by (rule compute_epoch_seed_cong) (simp_all add: same_but_cache_fields)

text \<open>
  \<open>block_valid\<close> is exactly what the checks of \<^verbatim>\<open>ac_chain_accept_block\<close> establish; what is left is
  whether the files can be written.
\<close>

lemma accept_valid_iff:
  assumes "wf_state (ch_state c)" "small_state (ch_state c)" "cache_ok S c" "wf_block b"
  shows "block_valid S ld io c b s' \<Longrightarrow>
      \<exists>c2. same_but_cache (c\<lparr>ch_state := s'\<rparr>) c2 \<and> cache_ok S c2 \<and>
        ac_chain_accept_block S ld io c b = accept_persist S io c2 b" (is "?V \<Longrightarrow> ?P")
    and "fst (ac_chain_accept_block S ld io c b) \<in> {AC_ACCEPT_OK, AC_ACCEPT_INTERNAL} \<Longrightarrow>
      \<exists>s'. block_valid S ld io c b s'"
proof -
  let ?h = "b_header b"
  obtain ok c1 where p: "validate_proposer_vrf S c ?h = (ok, c1)" by fastforce
  note ps = validate_proposer_spec [OF assms(3) p]
  note f = same_but_cache_fields [OF ps(1)]
  have st: "wf_state (ch_state c1)" "small_state (ch_state c1)" using assms(1,2) f(1) by simp_all
  have congs: "ac_chain_total_sqrt_stake c1 = ac_chain_total_sqrt_stake c"
      "ac_chain_live_sqrt_stake (c1\<lparr>ch_state := x\<rparr>) = ac_chain_live_sqrt_stake (c\<lparr>ch_state := x\<rparr>)" for x
    using f by (auto intro: total_sqrt_cong live_sqrt_cong)
  have sbc: "same_but_cache (c1\<lparr>ch_state := x\<rparr>) d \<Longrightarrow> same_but_cache (c\<lparr>ch_state := x\<rparr>) d" for x d
    using ps(1) unfolding same_but_cache_def by (cases c; cases c1; cases d) simp
  obtain r c2 where x: "accept_execute S ld c1 b = (r, c2)" by fastforce
  { assume v: ?V
    obtain s tips where t: "accept_txs S (h_slot ?h) (h_base_fee ?h) (b_txs b) (ch_state c) 0 0 = (True, s, h_gas_used ?h, tips)"
        "s' = accept_reward s (h_proposer ?h) (ac_chain_block_reward (h_height ?h)) tips"
      using v by (auto simp: block_valid_def Let_def)
    have ck: "cache_ok S (c1\<lparr>ch_state := s'\<rparr>)" using ps(2) by simp
    obtain vok cv where vc: "validate_commit S ld (c1\<lparr>ch_state := s'\<rparr>) b (ac_block_hash S ?h) (ac_chain_total_sqrt_stake c1)
        (ac_chain__pre_stake_lookup (pre_signers (ch_state c) (b_signers b))) = (vok, cv)" by fastforce
    have seed: "compute_epoch_seed S (c1\<lparr>ch_state := s'\<rparr>) e = compute_epoch_seed S c e" for e
      using f by (intro compute_epoch_seed_cong) simp_all
    note vs = validate_commit_spec [OF ck vc, unfolded seed congs]
    have "vok" using v vs(3) by (auto simp: block_valid_def Let_def)
    then have "accept_execute S ld c1 b = (None, cv)"
      using v t vc unfolding accept_execute_def Let_def f(1) t(1) prod.case
      by (simp add: block_valid_def Let_def)
    moreover have "ok" using v ps(3) by (simp add: block_valid_def Let_def)
    moreover have "accept_base_fee_ok c1 (h_base_fee ?h)" using v base_fee_ok_cong [OF ps(1)] by (simp add: block_valid_def Let_def)
    ultimately show ?P
      using v p sbc [OF vs(1)] vs(2) by (auto simp: block_valid_def Let_def ac_chain_accept_block_def) }
  assume "fst (ac_chain_accept_block S ld io c b) \<in> {AC_ACCEPT_OK, AC_ACCEPT_INTERNAL}"
  then obtain r' c' where a: "ac_chain_accept_block S ld io c b = (r', c')" "r' \<in> {AC_ACCEPT_OK, AC_ACCEPT_INTERNAL}"
    by (metis fst_conv prod.exhaust_sel)
  from assms a(1) show "\<exists>s'. block_valid S ld io c b s'"
  proof (cases rule: accept_block_cases)
    case (valid d1 d2)
    have d: "d1 = c1" "ok" using valid(2) p by simp_all
    from st ps(2) assms(4) valid(6) [unfolded d] show ?thesis
    proof (cases rule: accept_execute_cases)
      case (good s tips s' w)
      have "block_valid S ld io c b s'"
        unfolding block_valid_def Let_def
        using good valid(1) ps(3) d(2) valid(5) [unfolded d] base_fee_ok_cong [OF ps(1)] seed_cache_cong [OF ps(1)]
        by (auto simp: f(1) congs)
      then show ?thesis ..
    qed simp
  qed (use a(2) in simp)
qed

section \<open>Index entries of a block\<close>

fun tx_entries :: "sodium \<Rightarrow> u64 \<Rightarrow> nat \<Rightarrow> ac_tx list \<Rightarrow> tx_index_entry list" where
  "tx_entries S h i [] = []"
| "tx_entries S h i (tx # txs) =
     \<lparr>ti_hash = ac_tx_hash S tx, ti_height = h, ti_tx_idx = of_nat i\<rparr> # tx_entries S h (Suc i) txs"

definition addr_entry :: "u64 \<Rightarrow> nat \<Rightarrow> ac_tx \<Rightarrow> addr_index_entry list" where
  "addr_entry h i tx =
     \<lparr>ai_addr = tx_sender tx, ai_height = h, ai_tx_idx = of_nat i, ai_role = 0\<rparr> #
     (let recipient = take AC_PUBKEY_SIZE (tx_body tx)
      in if tx_kind tx = AC_TX_TRANSFER \<and> unat (tx_body_len tx) \<ge> AC_PUBKEY_SIZE \<and> memcmp recipient (tx_sender tx) \<noteq> 0
         then [\<lparr>ai_addr = recipient, ai_height = h, ai_tx_idx = of_nat i, ai_role = 1\<rparr>] else [])"

fun addr_entries :: "u64 \<Rightarrow> nat \<Rightarrow> ac_tx list \<Rightarrow> addr_index_entry list" where
  "addr_entries h i [] = []"
| "addr_entries h i (tx # txs) = addr_entry h i tx @ addr_entries h (Suc i) txs"

lemma addr_index_record_eq:
  "addr_index_record_tx c tx h (of_nat i) =
     c\<lparr>ch_addr_index := ch_addr_index c @ addr_entry h i tx, ch_addr_index_sorted := False\<rparr>"
  by (simp add: addr_index_record_tx_def addr_index_push_def addr_entry_def Let_def)

lemma accept_addr_index_eq:
  "accept_addr_index h i txs c =
     c\<lparr>ch_addr_index := ch_addr_index c @ addr_entries h i txs,
       ch_addr_index_sorted := (ch_addr_index_sorted c \<and> txs = [])\<rparr>"
  by (induction txs arbitrary: i c) (simp_all add: addr_index_record_eq)

lemma accept_tx_index_eq:
  "accept_tx_index S h i txs c =
     c\<lparr>ch_tx_index := ch_tx_index c @ tx_entries S h i txs, ch_tx_index_sorted := (ch_tx_index_sorted c \<and> txs = [])\<rparr>"
  by (induction txs arbitrary: i c) (simp_all add: tx_index_add_def)

lemma rebuild_txs_eq:
  "rebuild_txs S h i txs c =
     c\<lparr>ch_tx_index := ch_tx_index c @ tx_entries S h i txs, ch_tx_index_sorted := (ch_tx_index_sorted c \<and> txs = []),
       ch_addr_index := ch_addr_index c @ addr_entries h i txs,
       ch_addr_index_sorted := (ch_addr_index_sorted c \<and> txs = [])\<rparr>"
  by (induction txs arbitrary: i c) (simp_all add: tx_index_add_def addr_index_record_eq)

text \<open>The chain after a block has been written and indexed.\<close>

definition chain_extend :: "sodium \<Rightarrow> ac_chain \<Rightarrow> ac_block \<Rightarrow> bytes \<Rightarrow> ac_chain" where
  "chain_extend S c b buf =
     (let h = b_header b;
          c = accept_advance S (c\<lparr>ch_disk_blocks := (ch_disk_blocks c)(h_height h \<mapsto> buf),
                                  ch_disk_state := Some (ac_state_serialize (ch_state c))\<rparr>) h;
          txs = b_txs b
      in c\<lparr>ch_disk_meta := Some (meta_bytes c),
           ch_live_map := live_record_all (ch_live_map c) (b_signers b) (h_height h),
           ch_addr_index := ch_addr_index c @ addr_entries (h_height h) 0 txs,
           ch_addr_index_sorted := (ch_addr_index_sorted c \<and> txs = []),
           ch_tx_index := ch_tx_index c @ tx_entries S (h_height h) 0 txs,
           ch_tx_index_sorted := (ch_tx_index_sorted c \<and> txs = []), ch_cached_valid := False\<rparr>)"

lemma accept_persist_eq:
  assumes "ac_block_encode b = Some buf" "io_block_ok io" "io_state_ok io" "io_meta_ok io"
  shows "accept_persist S io c b = (AC_ACCEPT_OK, chain_extend S c b buf)"
  using assms
  by (simp add: accept_persist_def block_write_def ac_state_save_def meta_save_def accept_index_def Let_def
      accept_addr_index_eq accept_tx_index_eq chain_extend_def accept_advance_def)

lemma accept_persist_ok:
  assumes "accept_persist S io c b = (AC_ACCEPT_OK, c')"
  shows "\<exists>buf. ac_block_encode b = Some buf \<and> c' = chain_extend S c b buf"
  using assms accept_persist_eq [of b _ io S c]
  by (auto simp: accept_persist_def block_write_def ac_state_save_def meta_save_def split: option.splits if_splits)

lemma extend_block_read:
  assumes "wf_block b" "ac_block_encode b = Some buf"
  shows "block_read (chain_extend S c b buf) k = (if k = h_height (b_header b) then Some b else block_read c k)"
  using block.dec_enc [OF assms, of "[]"] by (simp add: block_read_def chain_extend_def Let_def accept_advance_def)

lemma accepted_extend:
  assumes "wf_state (ch_state c)" "small_state (ch_state c)" "cache_ok S c" "wf_block b"
    and "ac_chain_accept_block S ld io c b = (AC_ACCEPT_OK, c')"
  obtains s' c2 buf where "block_valid S ld io c b s'" "same_but_cache (c\<lparr>ch_state := s'\<rparr>) c2" "cache_ok S c2"
    "ac_block_encode b = Some buf" "c' = chain_extend S c2 b buf"
proof -
  obtain s' where v: "block_valid S ld io c b s'" using accept_valid_iff(2) [OF assms(1-4), of ld io] assms(5) by auto
  then obtain c2 where "same_but_cache (c\<lparr>ch_state := s'\<rparr>) c2" "cache_ok S c2" "accept_persist S io c2 b = (AC_ACCEPT_OK, c')"
    using accept_valid_iff(1) [OF assms(1-4) v] assms(5) by auto
  with v that show ?thesis using accept_persist_ok by blast
qed

lemma accept_precheck_None:
  assumes "accept_precheck S io c h = None"
  shows "h_version h = AC_BLOCK_VERSION" "h_height h = ch_height c + 1" "ch_height c < h_height h"
    "ac_hash_eq (h_parent_hash h) (ch_tip_hash c)" "ch_last_slot c < h_slot h" "h_gas_limit h = AC_BLOCK_GAS_LIMIT"
    "h_timestamp_ms h \<le> io_now_ms io + 1500"
  using assms by (auto simp: accept_precheck_def Let_def not_le not_less split: if_splits option.splits)

text \<open>
  Claim C2. An accepted block advances the chain by exactly one height and exactly its effects: it
  names the old tip as parent, its slot is later, the new state is the old one after its transactions
  and the reward, the header's gas and roots are those of this execution, and the block, the new
  state and the new position are on disk, where every other block file is untouched.
\<close>

theorem accept_ok_effect:
  assumes "sodium_ok S" "wf_state (ch_state c)" "small_state (ch_state c)" "cache_ok S c" "wf_block b"
    and "wf_hash (ch_tip_hash c)" "ac_chain_accept_block S ld io c b = (AC_ACCEPT_OK, c')"
  defines "h \<equiv> b_header b"
  shows "h_height h = ch_height c + 1 \<and> h_parent_hash h = ch_tip_hash c \<and> ch_last_slot c < h_slot h \<and>
    (\<exists>s tips. accept_txs S (h_slot h) (h_base_fee h) (b_txs b) (ch_state c) 0 0 = (True, s, h_gas_used h, tips) \<and>
       ch_state c' = accept_reward s (h_proposer h) (ac_chain_block_reward (h_height h)) tips) \<and>
    wf_state (ch_state c') \<and> h_state_root h = ac_state_root S (ch_state c') \<and> h_tx_root h = ac_block_tx_root S (b_txs b) \<and>
    ch_height c' = h_height h \<and> ch_tip_hash c' = ac_block_hash S h \<and> ch_last_slot c' = h_slot h \<and>
    (\<forall>k. block_read c' k = (if k = h_height h then Some b else block_read c k)) \<and>
    ch_disk_state c' = Some (ac_state_serialize (ch_state c')) \<and> ch_disk_meta c' = Some (meta_bytes c')"
proof -
  obtain s' c2 buf where v: "block_valid S ld io c b s'" "same_but_cache (c\<lparr>ch_state := s'\<rparr>) c2"
      "ac_block_encode b = Some buf" "c' = chain_extend S c2 b buf"
    using accepted_extend [OF assms(2-5,7)] .
  note f = same_but_cache_fields [OF v(2)]
  obtain s tips where t: "accept_txs S (h_slot h) (h_base_fee h) (b_txs b) (ch_state c) 0 0 = (True, s, h_gas_used h, tips)"
      "s' = accept_reward s (h_proposer h) (ac_chain_block_reward (h_height h)) tips"
    using v(1) by (auto simp: block_valid_def Let_def h_def)
  have w: "list_all wf_tx (b_txs b)" "wf_addr (h_proposer h)" "wf_hash (h_parent_hash h)" "wf_hash (h_state_root h)"
      "wf_hash (h_tx_root h)"
    using assms(5) by (simp_all add: wf_block_def wf_header_def h_def)
  have s': "wf_state s'" using accept_reward_state(1) accept_txs_state [OF assms(2) w(1) t(1)] w(2) by (simp add: t(2))
  have roots: "h_state_root h = ac_state_root S s'" "h_tx_root h = ac_block_tx_root S (b_txs b)"
    using v(1) w wf_ac_hash [OF assms(1)] ac_hash_eq_iff [of _ "h_state_root h"] ac_hash_eq_iff [of _ "h_tx_root h"]
    by (auto simp: block_valid_def Let_def h_def ac_state_root_def ac_block_tx_root_def wf)
  have "block_read c' k = (if k = h_height h then Some b else block_read c k)" for k
    using extend_block_read [OF assms(5) v(3)] f(14) by (simp add: v(4) h_def block_read_def)
  moreover note pre = accept_precheck_None [of S io c h]
  ultimately show ?thesis
    using t s' roots v(1,4) f pre ac_hash_eq_iff [OF w(3) assms(6)]
    by (auto simp: block_valid_def Let_def chain_extend_def accept_advance_def h_def meta_bytes_def)
qed

section \<open>Built blocks\<close>

lemma apply_gas_used:
  assumes "ac_state_apply_tx S s tx slot base_fee = (rc, r, s')" "\<not> rc < 0"
  shows "ac_tx_total_gas tx = apply_needed_gas tx" "unat (apply_needed_gas tx) < 2 ^ 32"
    "unat (ar_gas_used r) \<le> unat (apply_needed_gas tx) + 50"
proof -
  have "ac_tx_total_gas tx = apply_needed_gas tx \<and> unat (apply_needed_gas tx) < 2 ^ 32 \<and>
      unat (ar_gas_used r) \<le> unat (apply_needed_gas tx) + 50"
    using assms(1)
  proof (cases rule: apply_tx_cases)
    case (included b)
    note c = apply_check_common(5,6) [OF included(1)]
    have lim: "unat (apply_needed_gas tx) < 2 ^ 32"
      using c(2) unat_u32_less [of "tx_gas_limit tx"] by (simp add: word_le_nat_alt)
    then have "unat (apply_needed_gas tx + 50) = unat (apply_needed_gas tx) + 50"
      using unat_add_nowrap [of "apply_needed_gas tx" 50] by simp
    moreover have "bo_charged b \<in> {apply_needed_gas tx, apply_needed_gas tx + 50}"
      by (auto simp: included(2) tx_body_out_def apply_body_def body_defs Let_def split: option.splits prod.splits)
    ultimately have "unat (bo_charged b) \<le> unat (apply_needed_gas tx) + 50" by auto
    then have "unat (charged_gas tx b) \<le> unat (apply_needed_gas tx) + 50"
      by (auto simp: charged_gas_def word_less_nat_alt)
    then show ?thesis using lim c(1) by (simp add: included(5) ac_tx_total_gas_def apply_needed_gas_def Let_def)
  qed (use assms(2) in simp)
  then show "ac_tx_total_gas tx = apply_needed_gas tx" "unat (apply_needed_gas tx) < 2 ^ 32"
    "unat (ar_gas_used r) \<le> unat (apply_needed_gas tx) + 50" by simp_all
qed

text \<open>
  The leader's loop and the acceptance loop agree: what the leader keeps executes to the same state,
  gas and tips. The leader's gas test leaves out the 50 units for a new account, so its total may
  exceed the limit by at most 50.
\<close>

lemma build_txs_accept:
  assumes "build_txs S slot base_fee cands s gas tips = (kept, s', gas', tips')" "unat gas \<le> 30000050"
  shows "unat gas \<le> unat gas' \<and> unat gas' \<le> 30000050 \<and> subseq kept cands \<and>
    (unat gas' \<le> 30000000 \<longrightarrow> accept_txs S slot base_fee kept s gas tips = (True, s', gas', tips'))"
  using assms
proof (induction cands arbitrary: s gas tips kept)
  case (Cons tx cands)
  show ?case
  proof (cases "ac_tx_verify S tx \<and> \<not> gas + ac_tx_total_gas tx > AC_BLOCK_GAS_LIMIT \<and>
      \<not> fst (ac_state_apply_tx S s tx slot base_fee) < 0")
    case False
    then have "build_txs S slot base_fee cands s gas tips = (kept, s', gas', tips') \<or>
       (\<exists>rc r s1. ac_state_apply_tx S s tx slot base_fee = (rc, r, s1) \<and> rc < 0 \<and>
         build_txs S slot base_fee cands s1 gas tips = (kept, s', gas', tips'))"
      using Cons.prems(1) by (auto split: if_splits prod.splits)
    moreover have "s1 = s" if "ac_state_apply_tx S s tx slot base_fee = (rc, r, s1)" "rc < 0" for rc r s1
      using that(1) by (cases rule: apply_tx_cases) (use that(2) in \<open>auto split: if_splits\<close>)
    ultimately have "build_txs S slot base_fee cands s gas tips = (kept, s', gas', tips')" by blast
    then show ?thesis using Cons.IH Cons.prems(2) by auto
  next
    case True
    obtain rc r s1 where a: "ac_state_apply_tx S s tx slot base_fee = (rc, r, s1)" by (metis prod_cases3)
    then have rc: "\<not> rc < 0" using True by simp
    obtain kept1 where k: "build_txs S slot base_fee cands s1 (gas + ar_gas_used r) (tips + ar_fee_tip r) = (kept1, s', gas', tips')"
        "kept = tx # kept1"
      using Cons.prems(1) True a by (auto split: prod.splits)
    note g = apply_gas_used [OF a rc]
    have "unat (gas + ac_tx_total_gas tx) = unat gas + unat (apply_needed_gas tx)"
      using unat_add_nowrap [of gas "apply_needed_gas tx"] g Cons.prems(2) by simp
    then have "unat gas + unat (apply_needed_gas tx) \<le> 30000000"
      using True by (simp add: not_less word_le_nat_alt AC_BLOCK_GAS_LIMIT_def)
    then have sum: "unat (gas + ar_gas_used r) = unat gas + unat (ar_gas_used r)" "unat gas + unat (ar_gas_used r) \<le> 30000050"
      using unat_add_nowrap [of gas "ar_gas_used r"] g(3) by simp_all
    note ih = Cons.IH [OF k(1)]
    show ?thesis
      using ih sum True a rc k(2) by (auto simp: not_less word_le_nat_alt word_less_nat_alt AC_BLOCK_GAS_LIMIT_def)
  qed
qed simp

lemma build_txs_state:
  assumes "wf_state s" "list_all wf_tx cands" "build_txs S slot base_fee cands s gas tips = (kept, s', gas', tips')"
  shows "wf_state s' \<and> st_chain_id s' = st_chain_id s"
  using assms
proof (induction cands arbitrary: s gas tips kept)
  case (Cons tx cands)
  obtain rc r s1 where a: "ac_state_apply_tx S s tx slot base_fee = (rc, r, s1)" by (metis prod_cases3)
  have w: "wf_state s1" "st_chain_id s1 = st_chain_id s" using apply_tx_state [OF Cons.prems(1) _ a] Cons.prems(2) by simp_all
  show ?case
    using Cons.prems Cons.IH w by (fastforce simp: a split: if_splits prod.splits)
qed simp

lemma build_block_cases:
  assumes "wf_state (ch_state c)" "small_state (ch_state c)" "cache_ok S c" "list_all wf_tx cands" "wf_addr (kp_pk kp)"
    and "ac_chain_build_block S c slot kp cands = (Some b, c')"
  obtains kept s gas tips where "fst (ac_state_get (ch_state c) (kp_pk kp))"
    "AC_MIN_STAKE_UCRD \<le> acc_stake (snd (ac_state_get (ch_state c) (kp_pk kp)))" "same_but_cache c c'" "cache_ok S c'"
    "build_txs S slot (build_base_fee c) cands (ch_state c) 0 0 = (kept, s, gas, tips)"
    "b = \<lparr>b_header = \<lparr>h_version = AC_BLOCK_VERSION, h_height = ch_height c + 1, h_slot = slot,
       h_parent_hash = ch_tip_hash c, h_timestamp_ms = ac_chain_slot_time_ms c slot, h_proposer = kp_pk kp,
       h_proposer_vrf_proof = fst (ac_vrf_prove S (leader_alpha (compute_epoch_seed S c (ac_epoch_of slot)) slot) kp),
       h_state_root = ac_state_root S (accept_reward s (kp_pk kp) (ac_chain_block_reward (ch_height c + 1)) tips),
       h_tx_root = ac_block_tx_root S kept, h_base_fee = build_base_fee c, h_gas_used = gas,
       h_gas_limit = AC_BLOCK_GAS_LIMIT, h_tx_count = of_nat (length kept)\<rparr>, b_txs = kept, b_signers = []\<rparr>"
proof -
  obtain seed c1 where e: "ac_chain_epoch_seed S c (ac_epoch_of slot) = (seed, c1)" by fastforce
  note es = epoch_seed_spec [OF assms(3) e]
  note f = same_but_cache_fields [OF es(2)]
  have bf: "build_base_fee c1 = build_base_fee c"
    by (simp add: build_base_fee_def f get_header_cong [of c1 c])
  have ts: "ac_chain_slot_time_ms c1 x = ac_chain_slot_time_ms c x" for x by (simp add: ac_chain_slot_time_ms_def f)
  obtain kept s gas tips where t: "build_txs S slot (build_base_fee c) cands (ch_state c) 0 0 = (kept, s, gas, tips)"
    by (metis prod_cases4)
  let ?s' = "accept_reward s (kp_pk kp) (ac_chain_block_reward (ch_height c + 1)) tips"
  have s: "wf_state s" "st_chain_id s = st_chain_id (ch_state c)" using build_txs_state [OF assms(1,4) t] by simp_all
  have r: "state_restore (c1\<lparr>ch_state := ?s'\<rparr>) (ac_state_serialize (ch_state c)) = c1"
    using accept_reward_state(2) [OF s(1) assms(5)] s(2)
    by (subst state_restore_eq [OF assms(1,2)]) (simp_all flip: f(1))
  note d = assms(6) [unfolded ac_chain_build_block_def Let_def split_beta e fst_conv snd_conv f bf t r ts]
  show thesis
    by (rule that [OF _ _ _ _ t]) (use d es in \<open>auto split: if_splits\<close>)
qed

text \<open>The state after executing a block on a chain.\<close>

definition post_state :: "sodium \<Rightarrow> ac_chain \<Rightarrow> ac_block \<Rightarrow> ac_state" where
  "post_state S c b =
     (case accept_txs S (h_slot (b_header b)) (h_base_fee (b_header b)) (b_txs b) (ch_state c) 0 0 of
        (ok, s, gas, tips) \<Rightarrow> accept_reward s (h_proposer (b_header b)) (ac_chain_block_reward (h_height (b_header b))) tips)"

lemma build_fee_expected:
  assumes "ch_height c = 0 \<or> ac_chain_get_header_by_height c (ch_height c) \<noteq> None"
    and "1 \<le> build_base_fee c" "build_base_fee c \<noteq> UINT64_MAX"
  shows "accept_base_fee_ok c (build_base_fee c)"
proof -
  have e: "accept_expected_base_fee c = build_base_fee c"
    using assms(1) by (auto simp: accept_expected_base_fee_def build_base_fee_def Let_def word_le_nat_alt unat_eq_0
        Suc_le_eq unat_gt_0 split: option.split)
  have "build_base_fee c < UINT64_MAX" using assms(3) by (simp add: order.not_eq_order_implies_strict)
  then have "build_base_fee c < build_base_fee c + 1" by (simp add: word_less_nat_alt unat_Suc_nowrap)
  then show ?thesis
    using assms(2) by (auto simp: accept_base_fee_ok_def e AC_MIN_BASE_FEE_def not_less order.asym order.strict_implies_order)
qed

lemma block_valid_cache:
  assumes "same_but_cache c d"
  shows "block_valid S ld io d b s' \<longleftrightarrow> block_valid S ld io c b s'"
proof -
  note f = same_but_cache_fields [OF assms]
  have "accept_precheck S io d h = accept_precheck S io c h" for h
    by (simp add: accept_precheck_def ac_chain_get_block_hash_def ac_chain_slot_time_ms_def f get_header_cong [of d c])
  moreover have "ac_chain_total_sqrt_stake d = ac_chain_total_sqrt_stake c"
      "ac_chain_live_sqrt_stake (d\<lparr>ch_state := s'\<rparr>) = ac_chain_live_sqrt_stake (c\<lparr>ch_state := s'\<rparr>)"
    using f by (auto intro: total_sqrt_cong live_sqrt_cong)
  ultimately show ?thesis
    unfolding block_valid_def by (simp add: f base_fee_ok_cong [OF assms] seed_cache_cong [OF assms])
qed

lemma vrf_prove_verify:
  assumes "sodium_ok S" "length seed = 32" "kp = ac_keypair_from_seed S seed"
  shows "ac_vrf_verify S (fst (ac_vrf_prove S alpha kp)) alpha (kp_pk kp) \<noteq> None"
  using sodium_ok_keypair(4) [OF assms(1,2)] length_ac_sign [OF assms(1)] assms(3)
  by (simp add: ac_vrf_verify_def ac_vrf_prove_def Let_def)

lemma length_ac_vrf_proof: "sodium_ok S \<Longrightarrow> length (fst (ac_vrf_prove S alpha kp)) = 64"
  by (simp add: ac_vrf_prove_def Let_def length_ac_sign)

lemma wf_state_root: "sodium_ok S \<Longrightarrow> wf_hash (ac_state_root S s)"
  by (simp add: ac_state_root_def wf_ac_hash)

lemma wf_block_hash: "sodium_ok S \<Longrightarrow> wf_hash (ac_block_hash S h)"
  by (simp add: ac_block_hash_def wf_ac_hash split: option.split) (simp add: wf)

lemma wf_tx_root: "sodium_ok S \<Longrightarrow> wf_hash (ac_block_tx_root S txs)"
  by (simp add: ac_block_tx_root_def length_ac_hash wf)

lemma built_height: "(h :: u64) \<noteq> UINT64_MAX \<Longrightarrow> h + 1 \<noteq> 0 \<and> \<not> h + 1 \<le> h"
proof -
  assume "h \<noteq> UINT64_MAX"
  then have "h < UINT64_MAX" by (simp add: order.not_eq_order_implies_strict)
  then have "unat (h + 1) = Suc (unat h)" by (rule unat_Suc_nowrap)
  then show ?thesis by (auto simp: word_le_nat_alt)
qed

text \<open>
  Claim C4. A block that an active validator builds is accepted once a certificate for it validates:
  its transactions execute, its gas, roots, base fee, time stamp and VRF proof pass. What remains are
  the conditions outside the leader's control: the slot is later than the last one and not in the
  future, the files can be written, the tip can be read back, and the gas of the block is within the
  limit, which the leader's own test does not ensure.
\<close>

theorem built_block_accepted:
  assumes "sodium_ok S" "length seed = 32" "kp = ac_keypair_from_seed S seed"
    and "wf_state (ch_state c)" "small_state (ch_state c)" "cache_ok S c" "wf_hash (ch_tip_hash c)"
    and "list_all wf_tx cands" "ac_chain_build_block S c slot kp cands = (Some b, c')"
    and "h_gas_used (b_header b) \<le> AC_BLOCK_GAS_LIMIT" "length (b_txs b) \<le> AC_BLOCK_MAX_TXS"
    and "ch_height c = 0 \<or> ac_chain_get_header_by_height c (ch_height c) \<noteq> None"
    and "1 \<le> h_base_fee (b_header b)" "h_base_fee (b_header b) \<noteq> UINT64_MAX"
    and "ch_height c \<noteq> UINT64_MAX" "ch_last_slot c < slot" "ac_chain_slot_time_ms c slot \<le> io_now_ms io + 1500"
    and "io_block_ok io" "io_state_ok io" "io_meta_ok io"
    and "list_all wf_signer ss" "length ss \<le> AC_COMMITTEE_MAX"
    and "fst (validate_commit S ld (c\<lparr>ch_state := post_state S c b\<rparr>) (b\<lparr>b_signers := ss\<rparr>) (ac_block_hash S (b_header b))
      (ac_chain_total_sqrt_stake c) (ac_chain__pre_stake_lookup (pre_signers (ch_state c) ss)))"
  shows "fst (ac_chain_accept_block S ld io c' (b\<lparr>b_signers := ss\<rparr>)) = AC_ACCEPT_OK"
proof -
  let ?b = "b\<lparr>b_signers := ss\<rparr>" and ?h = "b_header b"
  have k: "wf_addr (kp_pk kp)" using sodium_ok_keypair(1) [OF assms(1,2)] assms(3) by (simp add: wf)
  obtain kept s gas tips where B: "fst (ac_state_get (ch_state c) (kp_pk kp))"
    "AC_MIN_STAKE_UCRD \<le> acc_stake (snd (ac_state_get (ch_state c) (kp_pk kp)))" "same_but_cache c c'" "cache_ok S c'"
    "build_txs S slot (build_base_fee c) cands (ch_state c) 0 0 = (kept, s, gas, tips)"
    and b: "b_txs b = kept" "h_version ?h = AC_BLOCK_VERSION" "h_height ?h = ch_height c + 1" "h_slot ?h = slot"
      "h_parent_hash ?h = ch_tip_hash c" "h_timestamp_ms ?h = ac_chain_slot_time_ms c slot" "h_proposer ?h = kp_pk kp"
      "h_proposer_vrf_proof ?h = fst (ac_vrf_prove S (leader_alpha (compute_epoch_seed S c (ac_epoch_of slot)) slot) kp)"
      "h_state_root ?h = ac_state_root S (accept_reward s (kp_pk kp) (ac_chain_block_reward (ch_height c + 1)) tips)"
      "h_tx_root ?h = ac_block_tx_root S kept" "h_base_fee ?h = build_base_fee c" "h_gas_used ?h = gas"
      "h_gas_limit ?h = AC_BLOCK_GAS_LIMIT" "h_tx_count ?h = of_nat (length kept)"
    by (rule build_block_cases [OF assms(4-6,8) k assms(9)]) simp
  have tx: "accept_txs S slot (build_base_fee c) kept (ch_state c) 0 0 = (True, s, gas, tips)" "subseq kept cands"
    using build_txs_accept [OF B(5)] assms(10) b(12) by (simp_all add: word_le_nat_alt AC_BLOCK_GAS_LIMIT_def)
  have ps: "post_state S c b = accept_reward s (kp_pk kp) (ac_chain_block_reward (ch_height c + 1)) tips"
    by (simp add: post_state_def b tx)
  have "list_all wf_tx kept" using assms(8) tx(2) by (auto simp: list_all_iff elim: list_emb_set)
  then have wb: "wf_block ?b"
    using assms(7,11,21,22) k length_ac_vrf_proof [OF assms(1)] wf_state_root [OF assms(1)] wf_tx_root [OF assms(1)]
    by (simp add: wf_block_def wf_header_def b unat_of_nat)
  have pre: "accept_precheck S io c ?h = None"
    using assms(15-17) built_height [OF assms(15)] by (auto simp: accept_precheck_def Let_def b dest: leD)
  have vrf: "ac_vrf_verify S (h_proposer_vrf_proof ?h) (leader_alpha (compute_epoch_seed S c (ac_epoch_of slot)) slot) (kp_pk kp) \<noteq> None"
    using vrf_prove_verify [OF assms(1-3)] by (simp add: b)
  obtain ok cv where v: "validate_commit S ld (c\<lparr>ch_state := post_state S c b\<rparr>) ?b (ac_block_hash S ?h)
      (ac_chain_total_sqrt_stake c) (ac_chain__pre_stake_lookup (pre_signers (ch_state c) ss)) = (ok, cv)" by fastforce
  have seed: "compute_epoch_seed S (c\<lparr>ch_state := x\<rparr>) e = compute_epoch_seed S c e" for x e
    by (rule compute_epoch_seed_cong) simp_all
  have fee: "accept_base_fee_ok c (build_base_fee c)" using build_fee_expected assms(12-14) b(11) by simp
  have "block_valid S ld io c ?b (post_state S c b)"
    using validate_commit_spec(3) [OF _ v, unfolded seed] assms(6,23) v pre B(1,2) vrf tx(1) ps fee
    unfolding block_valid_def Let_def by (simp add: b)
  then have "block_valid S ld io c' ?b (post_state S c b)" using block_valid_cache [OF B(3)] by simp
  moreover obtain buf where "ac_block_encode ?b = Some buf" using block.enc_total [OF wb] by auto
  moreover have "wf_state (ch_state c')" "small_state (ch_state c')" using assms(4,5) same_but_cache_fields(1) [OF B(3)] by simp_all
  ultimately show ?thesis
    using accept_valid_iff(1) [OF _ _ B(4) wb] accept_persist_eq assms(18-20) by (metis fst_conv)
qed

section \<open>Money of a block\<close>








section \<open>A concrete chain\<close>

text \<open>
  Two validators with the minimum stake, at height 0, for concrete runs: a block of validator \<open>k\<close> for
  slot 1 with base fee \<open>f\<close> and without transactions, signed by a list of validators.
\<close>

definition demo_key :: "byte \<Rightarrow> ac_keypair" where
  "demo_key n = ac_keypair_from_seed demo_sodium (n # zeros 31)"

definition demo_validators :: ac_state where
  "demo_validators = \<lparr>st_chain_id = 7, st_accounts = [demo_account 1 0 100000000, demo_account 2 0 100000000,
     (zero_account SYS_REWARD_POOL)\<lparr>acc_balance := 60000000000000\<rparr>], st_names = []\<rparr>"

definition demo_chain :: ac_chain where
  "demo_chain = (chain_zero Map.empty None None)\<lparr>ch_state := demo_validators, ch_chain_id := 7, ch_base_fee := 1\<rparr>"

definition demo_io :: ac_io where
  "demo_io = \<lparr>io_now_ms = 10000, io_block_ok = True, io_state_ok = True, io_meta_ok = True\<rparr>"

definition demo_seed :: ac_hash where
  "demo_seed = compute_epoch_seed demo_sodium demo_chain 0"

definition demo_post :: "byte \<Rightarrow> ac_state" where
  "demo_post k = accept_reward demo_validators (k # zeros 31) 126752 0"

definition demo_block_header :: "byte \<Rightarrow> u64 \<Rightarrow> ac_block_header" where
  "demo_block_header k f =
     \<lparr>h_version = AC_BLOCK_VERSION, h_height = 1, h_slot = 1, h_parent_hash = zeros 32, h_timestamp_ms = 2000,
      h_proposer = k # zeros 31, h_proposer_vrf_proof = fst (ac_vrf_prove demo_sodium (leader_alpha demo_seed 1) (demo_key k)),
      h_state_root = ac_state_root demo_sodium (demo_post k), h_tx_root = zeros 32, h_base_fee = f,
      h_gas_used = 0, h_gas_limit = AC_BLOCK_GAS_LIMIT, h_tx_count = 0\<rparr>"

definition demo_signer :: "ac_block_header \<Rightarrow> byte \<Rightarrow> ac_commit_signer" where
  "demo_signer h k =
     \<lparr>cs_signer = k # zeros 31,
      cs_sig = ac_sign demo_sodium (ac_vote_message (h_height h) (ac_block_hash demo_sodium h)) (demo_key k),
      cs_vrf_proof = fst (ac_vrf_prove demo_sodium (committee_alpha demo_seed (h_slot h)) (demo_key k))\<rparr>"

definition demo_block :: "byte \<Rightarrow> u64 \<Rightarrow> byte list \<Rightarrow> ac_block" where
  "demo_block k f ks =
     \<lparr>b_header = demo_block_header k f, b_txs = [], b_signers = map (demo_signer (demo_block_header k f)) ks\<rparr>"

lemma demo_key_pk [simp]: "kp_pk (demo_key k) = k # zeros 31"
  by (simp add: demo_key_def ac_keypair_from_seed_def demo_sodium_def)

lemma demo_key_length: "length (k # zeros 31) = 32"
  by simp

lemmas demo_vrf = vrf_prove_verify [OF sodium_ok_demo demo_key_length demo_key_def, unfolded demo_key_pk]
lemmas demo_sig = sodium_ok_keypair(4) [OF sodium_ok_demo demo_key_length, folded demo_key_def, unfolded demo_key_pk]

text \<open>A \<^verbatim>\<open>long double\<close> without rounding.\<close>

definition exact :: rounding where
  "exact x = x"

text \<open>With exact arithmetic every validator with a 64th of the weight is in every committee.\<close>

lemma committee_eligible_exact:
  assumes "total_sqrt \<noteq> 0" "sqrt_stake \<noteq> 0" "unat total_sqrt \<le> 64 * unat sqrt_stake"
  shows "committee_eligible exact draw sqrt_stake total_sqrt"
proof -
  have "(of_nat (unat total_sqrt) :: rat) \<le> of_nat (64 * unat sqrt_stake)" using assms(3) by (simp only: of_nat_le_iff)
  moreover have "0 < (of_nat (unat total_sqrt) :: rat)" using assms(1) by (simp only: of_nat_0_less_iff unat_gt_0 not_False_eq_True)
  ultimately have "1 \<le> of_nat (unat sqrt_stake) * 64 / (of_nat (unat total_sqrt) :: rat)" by (simp add: le_divide_eq mult.commute)
  then show ?thesis using assms(1,2) by (simp add: committee_eligible_def Let_def AC_COMMITTEE_TARGET_def exact_def)
qed

lemma demo_state_facts:
  "ac_chain_total_sqrt_stake demo_chain = 20000"
  "ac_isqrt_u64 100000000 = 10000"
  "acc_stake (snd (ac_state_get demo_validators (1 # zeros 31))) = 100000000"
  "acc_stake (snd (ac_state_get demo_validators (2 # zeros 31))) = 100000000"
  "fst (ac_state_get demo_validators (1 # zeros 31))" "fst (ac_state_get demo_validators (2 # zeros 31))"
  "ac_chain_total_sqrt_stake (demo_chain\<lparr>ch_state := demo_post 1\<rparr>) = 20000"
  "ac_chain_total_sqrt_stake (demo_chain\<lparr>ch_state := demo_post 2\<rparr>) = 20000"
  by code_simp+

lemma demo_chain_ok:
  "wf_state demo_validators" "small_state demo_validators" "money demo_validators < 2 ^ 63"
  by (simp_all add: wf_state_def demo_validators_def small_state_def money_def total_def acc_value_def demo_account_def
      zero_account_def SYS_REWARD_POOL_def wf_account_def wf)

lemma demo_chain_fields [simp]:
  "ch_state demo_chain = demo_validators" "ch_height demo_chain = 0" "ch_tip_hash demo_chain = zeros 32"
  "ch_last_slot demo_chain = 0" "ch_genesis_timestamp_ms demo_chain = 0" "ch_live_map demo_chain = []"
  "ch_cached_valid demo_chain = False" "cache_ok S demo_chain"
  by (simp_all add: demo_chain_def chain_zero_def cache_ok_def)

lemma demo_hash: "ac_block_hash demo_sodium (demo_block_header 1 1) \<noteq> ac_block_hash demo_sodium (demo_block_header 2 2)"
  by code_simp

lemma demo_wf_block:
  assumes "length ks \<le> 256"
  shows "wf_block (demo_block k f ks)"
  using assms wf_state_root [OF sodium_ok_demo] length_ac_vrf_proof [OF sodium_ok_demo] length_ac_sign [OF sodium_ok_demo]
  by (simp add: wf_block_def demo_block_def wf_header_def demo_block_header_def list_all_iff wf_signer_def demo_signer_def wf)

lemma demo_signer_sel:
  "cs_signer (demo_signer h k) = k # zeros 31"
  "cs_sig (demo_signer h k) = ac_sign demo_sodium (ac_vote_message (h_height h) (ac_block_hash demo_sodium h)) (demo_key k)"
  "cs_vrf_proof (demo_signer h k) = fst (ac_vrf_prove demo_sodium (committee_alpha demo_seed (h_slot h)) (demo_key k))"
  by (simp_all add: demo_signer_def)

lemma demo_commit:
  assumes "set ks \<subseteq> {1, 2}" "length ks \<le> 256" "h_height h = 1" "h_slot h = 1"
  shows "commit_signers demo_sodium exact
      (ac_chain__pre_stake_lookup (pre_signers demo_validators (map (demo_signer h) ks))) (committee_alpha demo_seed 1)
      (ac_vote_message 1 (ac_block_hash demo_sodium h)) 20000 (map (demo_signer h) ks) 0 = Some (of_nat (length ks) * 10000)"
proof -
  let ?f = "ac_chain__pre_stake_lookup (pre_signers demo_validators (map (demo_signer h) ks))"
  have w: "list_all wf_signer (map (demo_signer h) ks)"
    using length_ac_vrf_proof [OF sodium_ok_demo] length_ac_sign [OF sodium_ok_demo]
    by (simp add: list_all_iff wf_signer_def demo_signer_def wf)
  have f: "?f (k # zeros 31) = 100000000" if "k \<in> set ks" for k
  proof -
    have "?f (cs_signer (demo_signer h k)) = acc_stake (snd (ac_state_get demo_validators (cs_signer (demo_signer h k))))"
      using that assms(2) by (intro pre_stake_lookup_signer [OF w]) auto
    then show ?thesis using that assms(1) demo_state_facts(3,4) by (auto simp: demo_signer_def)
  qed
  have e: "committee_eligible exact d 10000 20000" for d
    by (rule committee_eligible_exact) simp_all
  have "commit_signers demo_sodium exact g (committee_alpha demo_seed 1) (ac_vote_message 1 (ac_block_hash demo_sodium h))
      20000 (map (demo_signer h) xs) acc = Some (acc + of_nat (length xs) * 10000)"
    if "\<And>k. k \<in> set xs \<Longrightarrow> g (k # zeros 31) = 100000000" for xs g acc
    using that
  proof (induction xs arbitrary: acc)
    case (Cons k xs)
    obtain beta where "ac_vrf_verify demo_sodium (fst (ac_vrf_prove demo_sodium (committee_alpha demo_seed 1) (demo_key k)))
        (committee_alpha demo_seed 1) (k # zeros 31) = Some beta" using demo_vrf by blast
    then show ?case
      using Cons e demo_sig assms(3,4) demo_state_facts(2)
      by (simp add: demo_signer_sel AC_MIN_STAKE_UCRD_def algebra_simps)
  qed simp
  from this [of ks ?f 0] f show ?thesis by simp
qed

lemma demo_valid:
  assumes "k \<in> {1, 2}" "f \<in> {1, 2}" "set ks \<subseteq> {1, 2}" "length ks \<in> {2, 3}"
  shows "block_valid demo_sodium exact demo_io demo_chain (demo_block k f ks) (demo_post k)"
proof -
  have pre: "accept_precheck demo_sodium demo_io demo_chain (demo_block_header k f) = None"
    by (simp add: accept_precheck_def Let_def demo_block_header_def ac_chain_slot_time_ms_def AC_SLOT_DURATION_MS_def demo_io_def)
  have fee: "accept_base_fee_ok demo_chain f"
    using assms(2) by (auto simp: accept_base_fee_ok_def accept_expected_base_fee_def AC_MIN_BASE_FEE_def)
  have p: "fst (ac_state_get demo_validators (k # zeros 31))" "acc_stake (snd (ac_state_get demo_validators (k # zeros 31))) = 100000000"
    "ac_chain_total_sqrt_stake (demo_chain\<lparr>ch_state := demo_post k\<rparr>) = 20000"
    using assms(1) demo_state_facts by auto
  have seed: "compute_epoch_seed demo_sodium demo_chain (ac_epoch_of 1) = demo_seed"
    by (simp add: demo_seed_def ac_epoch_of_def AC_EPOCH_SLOTS_def)
  have live: "ac_chain_live_sqrt_stake (demo_chain\<lparr>ch_state := demo_post k\<rparr>) = 20000"
    using p(3) by (simp add: ac_chain_live_sqrt_stake_def live_validators_def)
  have thr: "commit_threshold (of_nat (length ks) * 10000) 20000 20000"
    using assms(4) by (auto simp: commit_threshold_def)
  have "length ks \<le> 256" using assms(4) by auto
  note com = demo_commit [OF assms(3) this, of "demo_block_header k f"]
  have rw: "ac_chain_block_reward 1 = 126752" by code_simp
  show ?thesis
    using pre fee p seed live thr com demo_vrf assms(4) demo_state_facts(1) rw
    by (auto simp: block_valid_def Let_def demo_block_def demo_block_header_def AC_MIN_STAKE_UCRD_def
        demo_post_def ac_block_tx_root_def)
qed

lemma demo_accepted:
  assumes "k \<in> {1, 2}" "f \<in> {1, 2}" "set ks \<subseteq> {1, 2}" "length ks \<in> {2, 3}"
  shows "fst (ac_chain_accept_block demo_sodium exact demo_io demo_chain (demo_block k f ks)) = AC_ACCEPT_OK"
proof -
  have wb: "wf_block (demo_block k f ks)" by (rule demo_wf_block) (use assms(4) in auto)
  obtain buf where "ac_block_encode (demo_block k f ks) = Some buf" using block.enc_total [OF wb] by auto
  moreover obtain c2 where "ac_chain_accept_block demo_sodium exact demo_io demo_chain (demo_block k f ks) =
      accept_persist demo_sodium demo_io c2 (demo_block k f ks)"
    using accept_valid_iff(1) [OF _ _ _ wb demo_valid [OF assms]] demo_chain_ok by auto
  ultimately show ?thesis by (simp add: accept_persist_eq demo_io_def)
qed

section \<open>Concrete runs\<close>

lemma demo_accept_run:
  assumes "k \<in> {1, 2}" "f \<in> {1, 2}" "set ks \<subseteq> {1, 2}" "length ks \<in> {2, 3}"
  obtains c' where "ac_chain_accept_block demo_sodium exact demo_io demo_chain (demo_block k f ks) = (AC_ACCEPT_OK, c')"
  using demo_accepted [OF assms] by (metis fst_conv prod.exhaust_sel)

theorem accept_ok_effect_witness:
  "\<exists>c'. ac_chain_accept_block demo_sodium exact demo_io demo_chain (demo_block 1 1 [1, 2]) = (AC_ACCEPT_OK, c') \<and>
     ch_height c' = 1 \<and> ch_last_slot c' = 1 \<and> block_read c' 1 = Some (demo_block 1 1 [1, 2])"
proof -
  obtain c' where r: "ac_chain_accept_block demo_sodium exact demo_io demo_chain (demo_block 1 1 [1, 2]) = (AC_ACCEPT_OK, c')"
    by (rule demo_accept_run) auto
  have h: "h_height (b_header (demo_block 1 1 [1, 2])) = 1" "h_slot (b_header (demo_block 1 1 [1, 2])) = 1"
    by (simp_all add: demo_block_def demo_block_header_def)
  have "wf_block (demo_block 1 1 [1, 2])" by (rule demo_wf_block) simp
  then show ?thesis
    using accept_ok_effect [OF sodium_ok_demo _ _ _ _ _ r] demo_chain_ok r h by (auto simp: wf)
qed

theorem accept_rejected_unchanged_witness:
  "\<exists>c'. ac_chain_accept_block demo_sodium exact demo_io demo_chain (demo_block 1 5 [1, 2]) = (AC_ACCEPT_REJECT_BAD_HEADER, c') \<and>
     ch_state c' = demo_validators \<and> ch_height c' = 0"
proof -
  let ?b = "demo_block 1 5 [1, 2]"
  obtain r c' where r: "ac_chain_accept_block demo_sodium exact demo_io demo_chain ?b = (r, c')" by fastforce
  have b: "b_header ?b = demo_block_header 1 5" by (simp add: demo_block_def)
  obtain ok c1 where p: "validate_proposer_vrf demo_sodium demo_chain (b_header ?b) = (ok, c1)" by fastforce
  note ps = validate_proposer_spec [OF demo_chain_fields(8) p]
  have seed: "compute_epoch_seed demo_sodium demo_chain (ac_epoch_of 1) = demo_seed"
    by (simp add: demo_seed_def ac_epoch_of_def AC_EPOCH_SLOTS_def)
  have "ok" using ps(3) demo_vrf demo_state_facts(3,5) seed
    by (simp add: b demo_block_header_def AC_MIN_STAKE_UCRD_def)
  moreover have "accept_precheck demo_sodium demo_io demo_chain (b_header ?b) = None"
    by (simp add: b accept_precheck_def Let_def demo_block_header_def ac_chain_slot_time_ms_def AC_SLOT_DURATION_MS_def demo_io_def)
  moreover have "\<not> accept_base_fee_ok c1 5" unfolding base_fee_ok_cong [OF ps(1)]
    by (simp add: accept_base_fee_ok_def accept_expected_base_fee_def AC_MIN_BASE_FEE_def)
  ultimately have rj: "r = AC_ACCEPT_REJECT_BAD_HEADER"
    using r p by (auto simp: ac_chain_accept_block_def b demo_block_header_def)
  have w: "wf_block ?b" by (rule demo_wf_block) simp
  have "same_but_cache demo_chain c'"
    using accept_rejected_unchanged [OF _ _ _ w r] demo_chain_ok rj by (simp add: same_but_cache_def)
  then show ?thesis using r rj same_but_cache_fields(1,3) by fastforce
qed

lemma demo_built:
  obtains c' where "ac_chain_build_block demo_sodium demo_chain 1 (demo_key 1) [] =
      (Some \<lparr>b_header = demo_block_header 1 1, b_txs = [], b_signers = []\<rparr>, c')"
proof -
  obtain b c' where r: "ac_chain_build_block demo_sodium demo_chain 1 (demo_key 1) [] = (Some b, c')"
    using demo_state_facts(3,5)
    by (auto simp: ac_chain_build_block_def Let_def split_beta AC_MIN_STAKE_UCRD_def)
  have f: "build_base_fee demo_chain = 1" by (simp add: build_base_fee_def AC_MIN_BASE_FEE_def)
  have rw: "ac_chain_block_reward 1 = 126752" by code_simp
  have "b = \<lparr>b_header = demo_block_header 1 1, b_txs = [], b_signers = []\<rparr>"
    by (rule build_block_cases [OF _ _ _ _ _ r])
      (auto simp: demo_chain_ok f rw wf demo_block_header_def demo_seed_def demo_post_def ac_epoch_of_def AC_EPOCH_SLOTS_def
        ac_chain_slot_time_ms_def AC_SLOT_DURATION_MS_def ac_block_tx_root_def)
  with r that show thesis by blast
qed

lemma demo_certificate:
  "fst (validate_commit demo_sodium exact (demo_chain\<lparr>ch_state := demo_post 1\<rparr>) (demo_block 1 1 [1, 2])
     (ac_block_hash demo_sodium (demo_block_header 1 1)) (ac_chain_total_sqrt_stake demo_chain)
     (ac_chain__pre_stake_lookup (pre_signers demo_validators (b_signers (demo_block 1 1 [1, 2])))))"
proof -
  let ?c = "demo_chain\<lparr>ch_state := demo_post 1\<rparr>" and ?b = "demo_block 1 1 [1, 2]"
  obtain ok cv where v: "validate_commit demo_sodium exact ?c ?b (ac_block_hash demo_sodium (demo_block_header 1 1))
     (ac_chain_total_sqrt_stake demo_chain) (ac_chain__pre_stake_lookup (pre_signers demo_validators (b_signers ?b))) = (ok, cv)"
    by fastforce
  have "compute_epoch_seed demo_sodium ?c e = compute_epoch_seed demo_sodium demo_chain e" for e
    by (rule compute_epoch_seed_cong) simp_all
  moreover have "block_valid demo_sodium exact demo_io demo_chain ?b (demo_post 1)" by (rule demo_valid) simp_all
  moreover have "b_header ?b = demo_block_header 1 1" by (simp add: demo_block_def)
  ultimately show ?thesis
    using validate_commit_spec(3) [OF _ v] v by (simp add: block_valid_def Let_def)
qed

lemma demo_header_sel:
  "h_gas_used (demo_block_header k f) = 0" "h_base_fee (demo_block_header k f) = f"
  by (simp_all add: demo_block_header_def)

theorem built_block_accepted_witness:
  "\<exists>b c'. ac_chain_build_block demo_sodium demo_chain 1 (demo_key 1) [] = (Some b, c') \<and>
     fst (ac_chain_accept_block demo_sodium exact demo_io c' (b\<lparr>b_signers := b_signers (demo_block 1 1 [1, 2])\<rparr>)) = AC_ACCEPT_OK"
proof -
  obtain c' where r: "ac_chain_build_block demo_sodium demo_chain 1 (demo_key 1) [] =
      (Some \<lparr>b_header = demo_block_header 1 1, b_txs = [], b_signers = []\<rparr>, c')" by (rule demo_built)
  have rw: "ac_chain_block_reward 1 = 126752" by code_simp
  have post: "post_state demo_sodium demo_chain \<lparr>b_header = demo_block_header 1 1, b_txs = [], b_signers = []\<rparr> = demo_post 1"
    by (simp add: post_state_def demo_block_header_def demo_post_def rw)
  have ss: "list_all wf_signer (b_signers (demo_block 1 1 [1, 2]))" "length (b_signers (demo_block 1 1 [1, 2])) \<le> 256"
    using demo_wf_block [of "[1, 2]" 1 1] by (simp_all add: wf_block_def)
  have "fst (ac_chain_accept_block demo_sodium exact demo_io c'
      (\<lparr>b_header = demo_block_header 1 1, b_txs = [], b_signers = []\<rparr>\<lparr>b_signers := b_signers (demo_block 1 1 [1, 2])\<rparr>)) = AC_ACCEPT_OK"
    by (rule built_block_accepted [OF sodium_ok_demo demo_key_length demo_key_def _ _ _ _ _ r])
      (use ss demo_certificate in \<open>simp_all add: demo_chain_ok wf post demo_header_sel demo_io_def
        ac_chain_slot_time_ms_def AC_SLOT_DURATION_MS_def demo_block_def\<close>)
  with r show ?thesis by blast
qed


section \<open>Conflicting blocks\<close>

lemma slash_evidence_succeeds:
  assumes "apply_check s tx slot base_fee = None" "tx_kind tx = AC_TX_SLASH_EVIDENCE"
    and "ac_body_slash_decode (tx_body_buf tx) = Some ev" "\<not> ac_hash_eq (sl_block_hash_a ev) (sl_block_hash_b ev)"
    and "ac_verify S (sl_sig_a ev) (ac_vote_message (sl_height ev) (sl_block_hash_a ev)) (sl_validator ev)"
    and "ac_verify S (sl_sig_b ev) (ac_vote_message (sl_height ev) (sl_block_hash_b ev)) (sl_validator ev)"
    and "acc_stake (snd (ac_state_get s (sl_validator ev))) \<noteq> 0"
  shows "fst (ac_state_apply_tx S s tx slot base_fee) = 0"
  using assms
  by (simp add: ac_state_apply_tx_def Let_def apply_body_def apply_slash_def body_done_def apply_charge_def)

text \<open>
  Claim C1. Accountable safety. If two chains with the same state and height accept different blocks,
  each with distinct signers, then some validator signed both certificates, and their two signatures
  are evidence that the chain itself punishes: it fits a transaction body, and every transaction
  that carries it and passes the checks before the body is applied successfully.
\<close>

theorem conflicting_blocks_slashable:
  assumes "sodium_ok S" "wf_state (ch_state c)" "small_state (ch_state c)" "money (ch_state c) < 2 ^ 63"
    and "ch_state d = ch_state c" "ch_height d = ch_height c" "cache_ok S c" "cache_ok S d" "wf_block a" "wf_block b"
    and "fst (ac_chain_accept_block S ld io c a) = AC_ACCEPT_OK" "fst (ac_chain_accept_block S ld' io' d b) = AC_ACCEPT_OK"
    and "distinct (map cs_signer (b_signers a))" "distinct (map cs_signer (b_signers b))"
    and "ac_block_hash S (b_header a) \<noteq> ac_block_hash S (b_header b)"
  shows "\<exists>ev. sl_validator ev \<in> cs_signer ` set (b_signers a) \<inter> cs_signer ` set (b_signers b) \<and>
    AC_MIN_STAKE_UCRD \<le> acc_stake (snd (ac_state_get (ch_state c) (sl_validator ev))) \<and>
    ac_body_slash_encode AC_TX_BODY_MAX ev \<noteq> None \<and>
    (\<forall>tx slot base_fee. tx_kind tx = AC_TX_SLASH_EVIDENCE \<and> ac_body_slash_decode (tx_body_buf tx) = Some ev \<and>
       apply_check (ch_state c) tx slot base_fee = None \<longrightarrow> fst (ac_state_apply_tx S (ch_state c) tx slot base_fee) = 0)"
proof -
  let ?s = "ch_state c" and ?H = "\<lambda>x. ac_block_hash S (b_header x)"
  obtain ca cb where ok: "ac_chain_accept_block S ld io c a = (AC_ACCEPT_OK, ca)" "ac_chain_accept_block S ld' io' d b = (AC_ACCEPT_OK, cb)"
    using assms(11,12) by (metis prod.exhaust_sel)
  note qa = accepted_quorum [OF assms(2,3,7,9) ok(1) assms(4,13)]
  have d: "wf_state (ch_state d)" "small_state (ch_state d)" "money (ch_state d) < 2 ^ 63" using assms(2-5) by simp_all
  note qb = accepted_quorum [OF d(1,2) assms(8,10) ok(2) d(3) assms(14), unfolded assms(5,6)]
  have w: "wf_addr k" if "k \<in> cs_signer ` set (b_signers a) \<union> cs_signer ` set (b_signers b)" for k
    using that assms(9,10) by (auto simp: wf_block_def list_all_iff wf_signer_def)
  obtain k where k: "k \<in> cs_signer ` set (b_signers a) \<inter> cs_signer ` set (b_signers b)" "0 < vweight ?s k"
    using validators.quorums_intersect [OF assms(2) _ _ w, of "cs_signer ` set (b_signers a)" "cs_signer ` set (b_signers b)"]
      qa(1) qb(1) unfolding signed_by_quorum_def by blast
  then obtain x y where x: "x \<in> set (b_signers a)" "cs_signer x = k" and y: "y \<in> set (b_signers b)" "cs_signer y = k" by auto
  define ev where "ev = \<lparr>sl_validator = k, sl_height = ch_height c + 1, sl_block_hash_a = ?H a, sl_sig_a = cs_sig x,
      sl_block_hash_b = ?H b, sl_sig_b = cs_sig y\<rparr>"
  have h: "wf_hash (?H a)" "wf_hash (?H b)" using assms(1) by (simp_all add: wf_block_hash)
  have wfe: "wf_slash ev"
    using h w [of k] k(1) x(1) y(1) assms(9,10) by (auto simp: ev_def wf_slash_def wf_block_def list_all_iff wf_signer_def)
  have st: "AC_MIN_STAKE_UCRD \<le> acc_stake (snd (ac_state_get ?s k))"
    using k(2) by (auto simp: vweight_def acc_weight_def not_less split: if_splits)
  then have "acc_stake (snd (ac_state_get ?s k)) \<noteq> 0" by (auto simp: AC_MIN_STAKE_UCRD_def)
  moreover have "ac_verify S (cs_sig x) (ac_vote_message (ch_height c + 1) (?H a)) k"
      "ac_verify S (cs_sig y) (ac_vote_message (ch_height c + 1) (?H b)) k"
    using qa qb x y by (auto simp: signed_by_quorum_def)
  ultimately have "fst (ac_state_apply_tx S ?s tx slot base_fee) = 0"
    if "tx_kind tx = AC_TX_SLASH_EVIDENCE" "ac_body_slash_decode (tx_body_buf tx) = Some ev" "apply_check ?s tx slot base_fee = None"
    for tx slot base_fee
    using ac_hash_eq_iff [OF h] assms(15) by (intro slash_evidence_succeeds [OF that(3,1,2)]) (simp_all add: ev_def)
  then show ?thesis
    using k(1) st slash.enc_total [OF wfe] by (intro exI [of _ ev]) (auto simp: ev_def)
qed

theorem conflicting_blocks_slashable_witness:
  "\<exists>ev. sl_validator ev \<in> {1 # zeros 31, 2 # zeros 31} \<and> ac_body_slash_encode AC_TX_BODY_MAX ev \<noteq> None"
proof -
  have w: "wf_block (demo_block 1 1 [1, 2])" "wf_block (demo_block 2 2 [1, 2])" by (simp_all add: demo_wf_block)
  have a: "fst (ac_chain_accept_block demo_sodium exact demo_io demo_chain (demo_block 1 1 [1, 2])) = AC_ACCEPT_OK"
      "fst (ac_chain_accept_block demo_sodium exact demo_io demo_chain (demo_block 2 2 [1, 2])) = AC_ACCEPT_OK"
    by (rule demo_accepted; simp)+
  show ?thesis
    using conflicting_blocks_slashable [OF sodium_ok_demo _ _ _ _ _ _ _ w a] demo_chain_ok demo_hash
    by (auto simp: demo_block_def demo_signer_sel)
qed


end
