(* ===== verification/Text.thy ===== *)
theory Text
  imports Crypto "HOL-Library.Sublist"
begin

text \<open>
  What the sources use of the C library on text: decimal numbers, searching, scanning, and printing into a
  buffer of a given size. A C string is the list of its bytes before the terminating zero.
\<close>

section \<open>Strings\<close>

definition c_string :: "bytes \<Rightarrow> bytes" where
  "c_string bs = takeWhile (\<lambda>b. b \<noteq> 0) bs"

definition chars :: "bytes \<Rightarrow> string" where
  "chars bs = map (\<lambda>b. char_of (unat b)) bs"

text \<open>\<^verbatim>\<open>strstr\<close>: the rest of the text from the first occurrence of the pattern on.\<close>

fun strstr :: "bytes \<Rightarrow> bytes \<Rightarrow> bytes option" where
  "strstr pat [] = (if pat = [] then Some [] else None)"
| "strstr pat (b # bs) = (if prefix pat (b # bs) then Some (b # bs) else strstr pat bs)"

text \<open>What \<^verbatim>\<open>snprintf\<close> leaves in a buffer of \<open>cap\<close> bytes.\<close>

definition snprintf :: "nat \<Rightarrow> bytes \<Rightarrow> bytes" where
  "snprintf cap s = take (cap - 1) s"

section \<open>Numbers\<close>

text \<open>Decimal printing, and the C functions that read decimal numbers.\<close>

function decimal :: "nat \<Rightarrow> bytes" where
  "decimal k = (if k < 10 then [0x30 + of_nat k] else decimal (k div 10) @ [0x30 + of_nat (k mod 10)])"
  by auto
termination by (relation "measure id") auto

declare decimal.simps [simp del]

definition is_digit :: "byte \<Rightarrow> bool" where
  "is_digit b \<longleftrightarrow> 0x30 \<le> b \<and> b \<le> 0x39"

definition digits_val :: "bytes \<Rightarrow> nat" where
  "digits_val bs = foldl (\<lambda>v b. 10 * v + (unat b - 48)) 0 (takeWhile is_digit bs)"

definition is_space :: "byte \<Rightarrow> bool" where
  "is_space b \<longleftrightarrow> b = 0x20 \<or> (0x09 \<le> b \<and> b \<le> 0x0d)"

text \<open>A value that does not fit an \<^verbatim>\<open>int\<close> is undefined in C; here it is the number that was written.\<close>

definition atoi :: "bytes \<Rightarrow> int" where
  "atoi bs =
     (let bs = dropWhile is_space bs
      in case bs of
           [] \<Rightarrow> 0
         | b # rest \<Rightarrow>
           if b = 0x2d then - int (digits_val rest)
           else if b = 0x2b then int (digits_val rest) else int (digits_val bs))"

text \<open>\<^verbatim>\<open>strtoull\<close>: a number that does not fit is the largest one, a minus sign negates modulo \<open>2 ^ 64\<close>.\<close>

definition signed_digits :: "bytes \<Rightarrow> bool \<times> bytes" where
  "signed_digits bs =
     (case bs of
        [] \<Rightarrow> (False, [])
      | b # rest \<Rightarrow> if b = 0x2d then (True, rest) else if b = 0x2b then (False, rest) else (False, bs))"

definition strtoull :: "bytes \<Rightarrow> u64" where
  "strtoull bs =
     (let (neg, ds) = signed_digits (dropWhile is_space bs); v = digits_val ds
      in if v \<ge> 2 ^ 64 then -1 else if neg then - of_nat v else of_nat v)"

text \<open>The conversions \<^verbatim>\<open>%Ns\<close> and \<^verbatim>\<open>%llu\<close> of \<^verbatim>\<open>sscanf\<close>, with the rest of the text.\<close>

definition scan_s :: "nat \<Rightarrow> bytes \<Rightarrow> (bytes \<times> bytes) option" where
  "scan_s w bs =
     (let bs = dropWhile is_space bs; t = take w (takeWhile (\<lambda>b. \<not> is_space b) bs)
      in if t = [] then None else Some (t, drop (length t) bs))"

definition scan_u64 :: "bytes \<Rightarrow> (u64 \<times> bytes) option" where
  "scan_u64 bs =
     (let (neg, ds) = signed_digits (dropWhile is_space bs)
      in if ds = [] \<or> \<not> is_digit (hd ds) then None else Some (strtoull bs, dropWhile is_digit ds))"

section \<open>Decimal text\<close>

lemma digit_val: "d < 10 \<Longrightarrow> unat (0x30 + of_nat d :: byte) = 48 + d"
  by (simp add: unat_word_ariths unat_of_nat)

lemma decimal_is_digits: "list_all is_digit (decimal k)"
proof (induction k rule: decimal.induct)
  case (1 k)
  have "is_digit (0x30 + of_nat d)" if "d < 10" for d
    using digit_val [OF that] that by (simp add: is_digit_def word_le_nat_alt)
  then show ?case using 1 by (subst decimal.simps) auto
qed

lemma decimal_val: "digits_val (decimal k) = k"
proof -
  have "foldl (\<lambda>v b. 10 * v + (unat b - 48)) 0 (decimal k) = k"
  proof (induction k rule: decimal.induct)
    case (1 k)
    then show ?case using digit_val [of k] digit_val [of "k mod 10"] by (subst decimal.simps) auto
  qed
  moreover have "takeWhile is_digit (decimal k) = decimal k"
    using decimal_is_digits [of k] by (simp add: takeWhile_eq_all_conv list_all_iff)
  ultimately show ?thesis unfolding digits_val_def by metis
qed

lemma decimal_not_Nil: "decimal k \<noteq> []"
  by (subst decimal.simps) auto

lemma digit_simps:
  assumes "is_digit b"
  shows "\<not> is_space b" "b \<noteq> 0x2d" "b \<noteq> 0x2b" "b \<noteq> 0x3a"
  using assms by (auto simp: is_digit_def is_space_def word_le_nat_alt)

lemma atoi_decimal: "atoi (decimal k) = int k"
proof -
  obtain b bs where b: "decimal k = b # bs" using decimal_not_Nil [of k] by (cases "decimal k") auto
  then have "is_digit b" using decimal_is_digits [of k] by simp
  then show ?thesis using digit_simps [of b] decimal_val [of k] b by (simp add: atoi_def)
qed

lemma decimal_length: "k < 10 ^ m \<Longrightarrow> 0 < m \<Longrightarrow> length (decimal k) \<le> m"
proof (induction k arbitrary: m rule: decimal.induct)
  case (1 k)
  show ?case
  proof (cases "k < 10")
    case True
    then show ?thesis using 1(3) by (subst decimal.simps) auto
  next
    case False
    obtain m' where m: "m = Suc m'" using 1(3) by (cases m) auto
    have "0 < m'" using False 1(2) m by (cases m') auto
    moreover have "k div 10 < 10 ^ m'" using 1(2) m by (simp add: div_less_iff_less_mult mult.commute)
    ultimately show ?thesis using 1(1) [OF False] False m by (subst decimal.simps) auto
  qed
qed

text \<open>A decimal number followed by something that is not a digit is read back.\<close>

definition ends_number :: "bytes \<Rightarrow> bool" where
  "ends_number rest \<longleftrightarrow> rest = [] \<or> \<not> is_digit (hd rest)"

lemma ends_number_simps [simp]: "ends_number []" "ends_number (b # bs) \<longleftrightarrow> \<not> is_digit b"
  by (simp_all add: ends_number_def)

lemma decimal_before:
  assumes "ends_number rest"
  shows "takeWhile is_digit (decimal k @ rest) = decimal k" "dropWhile is_digit (decimal k @ rest) = rest"
    and "digits_val (decimal k @ rest) = k"
proof -
  have d: "\<forall>b\<in>set (decimal k). is_digit b" using decimal_is_digits [of k] by (simp add: list_all_iff)
  have e: "takeWhile is_digit rest = []" "dropWhile is_digit rest = rest" using assms by (cases rest; simp)+
  then show t: "takeWhile is_digit (decimal k @ rest) = decimal k" "dropWhile is_digit (decimal k @ rest) = rest"
    using d by simp_all
  show "digits_val (decimal k @ rest) = k"
    using decimal_val [of k] takeWhile_eq_all_conv [of is_digit "decimal k"] d t(1) unfolding digits_val_def by metis
qed

lemma decimal_Cons: "\<exists>b bs. decimal k = b # bs \<and> is_digit b"
  using decimal_is_digits [of k] decimal_not_Nil [of k] by (cases "decimal k") auto

lemma signed_decimal: "dropWhile is_space (decimal k @ rest) = decimal k @ rest" "signed_digits (decimal k @ rest) = (False, decimal k @ rest)"
  using decimal_Cons [of k] digit_simps by (auto simp: signed_digits_def)

lemma strtoull_decimal:
  assumes "ends_number rest"
  shows "strtoull (decimal (unat n) @ rest) = n" "strtoull (0x20 # decimal (unat n) @ rest) = n"
proof -
  have "unat n < 2 ^ 64" using unsigned_less [of n] by simp
  then show "strtoull (decimal (unat n) @ rest) = n"
    using assms by (simp add: strtoull_def signed_decimal decimal_before)
  then show "strtoull (0x20 # decimal (unat n) @ rest) = n"
    by (simp add: strtoull_def is_space_def)
qed

lemma scan_u64_decimal:
  assumes "ends_number rest"
  shows "scan_u64 (0x20 # decimal (unat n) @ rest) = Some (n, rest)" "scan_u64 (decimal (unat n) @ rest) = Some (n, rest)"
  using decimal_Cons [of "unat n"] strtoull_decimal [OF assms, of n] decimal_before [OF assms]
  by (auto simp: scan_u64_def is_space_def [of "0x20"] signed_decimal)

lemma scan_s_word:
  assumes "w \<noteq> []" "length w \<le> m" "\<forall>b\<in>set w. \<not> is_space b"
  shows "scan_s m (0x20 # w @ 0x20 # rest) = Some (w, 0x20 # rest)"
proof -
  have "dropWhile is_space (w @ xs) = w @ xs" for xs using assms(1,3) by (cases w) auto
  moreover have "takeWhile (\<lambda>b. \<not> is_space b) (w @ 0x20 # rest) = w"
    using assms(3) by (simp add: is_space_def)
  moreover have "m \<noteq> 0" using assms(1,2) by (cases w) auto
  ultimately show ?thesis using assms(1,2) by (simp add: scan_s_def is_space_def [of "0x20"])
qed

text \<open>Searching skips text without the first byte of the pattern.\<close>

lemma strstr_skip: "b \<notin> set xs \<Longrightarrow> strstr (b # pat) (xs @ rest) = strstr (b # pat) rest"
  by (induction xs) auto

lemma strstr_here: "strstr pat (pat @ rest) = Some (pat @ rest)"
proof (cases "pat @ rest")
  case (Cons b bs)
  then have "prefix pat (b # bs)" by (metis prefixI)
  then show ?thesis by (simp add: Cons)
qed simp

lemma strstr_suffix: "strstr pat s = Some r \<Longrightarrow> suffix r s \<and> prefix pat r"
  by (induction s) (auto split: if_splits intro: suffix_ConsI)

lemma strstr_None: "strstr pat s = None \<longleftrightarrow> \<not> sublist pat s"
  by (induction s) (auto simp: sublist_Cons_right)

lemma snprintf_fits: "length s < cap \<Longrightarrow> snprintf cap s = s"
  by (simp add: snprintf_def)

end
