(* ===== verification/Net.thy ===== *)
theory Net
  imports Text "HOL-Library.Monad_Syntax"
begin

text \<open>
  The peer-to-peer transport of \<^verbatim>\<open>net.c\<close>: frames over a byte stream, the queue of messages to a peer,
  the ring of recently seen messages, the HELLO message, and the table of peers. A socket is a script of
  what the operating system answers; a callback into the node is an argument of the dispatcher. Each
  critical section is one function. A pointer to a peer is its index in the table. A C string in a
  \<^verbatim>\<open>char\<close> array is the list of its bytes before the terminating zero. Allocation and thread creation do not fail.
\<close>

section \<open>Constants\<close>

definition AC_MSG_HELLO :: u8 where "AC_MSG_HELLO = 0x01"
definition AC_MSG_HEADERS_REQ :: u8 where "AC_MSG_HEADERS_REQ = 0x02"
definition AC_MSG_BLOCK_REQ :: u8 where "AC_MSG_BLOCK_REQ = 0x04"
definition AC_MSG_BLOCK_RES :: u8 where "AC_MSG_BLOCK_RES = 0x05"
definition AC_MSG_BLOCK_ANN :: u8 where "AC_MSG_BLOCK_ANN = 0x06"
definition AC_MSG_TX_ANN :: u8 where "AC_MSG_TX_ANN = 0x07"
definition AC_MSG_COMMIT_VOTE :: u8 where "AC_MSG_COMMIT_VOTE = 0x08"
definition AC_MSG_PING :: u8 where "AC_MSG_PING = 0x0B"
definition AC_MSG_PONG :: u8 where "AC_MSG_PONG = 0x0C"

definition AC_FRAME_VERSION :: u8 where "AC_FRAME_VERSION = 1"
definition AC_FRAME_MAX_BYTES :: nat where "AC_FRAME_MAX_BYTES = 4 * 1024 * 1024"
definition AC_MAX_PEERS :: nat where "AC_MAX_PEERS = 64"
definition AC_DEDUP_CAP :: nat where "AC_DEDUP_CAP = 256"
definition AC_OUT_QUEUE_MAX_BYTES :: nat where "AC_OUT_QUEUE_MAX_BYTES = 4 * 1024 * 1024"
definition AC_OUT_QUEUE_MAX_MSGS :: nat where "AC_OUT_QUEUE_MAX_MSGS = 2048"
definition AC_HELLO_PEER_MAX :: nat where "AC_HELLO_PEER_MAX = 8"

lemmas msg_types = AC_MSG_HELLO_def AC_MSG_HEADERS_REQ_def AC_MSG_BLOCK_REQ_def AC_MSG_BLOCK_RES_def AC_MSG_BLOCK_ANN_def
  AC_MSG_TX_ANN_def AC_MSG_COMMIT_VOTE_def AC_MSG_PING_def AC_MSG_PONG_def

section \<open>Frames\<close>

text \<open>
  What the calls of \<^verbatim>\<open>ac_sock_recv\<close> on a socket return: some of the bytes sent by the other side (the rest of
  a chunk stays for the next call), an interrupt, or an error. The end of the script is the end of the stream.
\<close>

datatype recv_event = Chunk bytes | Recv_intr | Recv_fail

fun read_full :: "nat \<Rightarrow> recv_event list \<Rightarrow> bytes option \<times> recv_event list" where
  "read_full len [] = (if len = 0 then Some [] else None, [])"
| "read_full len (e # es) =
     (if len = 0 then (Some [], e # es)
      else case e of
          Recv_intr \<Rightarrow> read_full len es
        | Recv_fail \<Rightarrow> (None, es)
        | Chunk b \<Rightarrow>
          if b = [] then (None, es)
          else if length b > len then (Some (take len b), Chunk (drop len b) # es)
          else case read_full (len - length b) es of (r, es') \<Rightarrow> (map_option (\<lambda>rest. b @ rest) r, es'))"

text \<open>
  What the calls of \<^verbatim>\<open>ac_sock_send\<close> return: how many bytes were taken, an interrupt, or an error, which is also
  the end of the script. The third result is what went to the wire.
\<close>

datatype send_event = Sent nat | Send_intr | Send_fail

fun write_full :: "bytes \<Rightarrow> send_event list \<Rightarrow> bool \<times> send_event list \<times> bytes" where
  "write_full buf [] = (buf = [], [], [])"
| "write_full buf (e # es) =
     (if buf = [] then (True, e # es, [])
      else case e of
          Send_intr \<Rightarrow> write_full buf es
        | Send_fail \<Rightarrow> (False, es, [])
        | Sent n \<Rightarrow> (case write_full (drop n buf) es of (ok, es', out) \<Rightarrow> (ok, es', take n buf @ out)))"

definition frame_send :: "u8 \<Rightarrow> bytes \<Rightarrow> send_event list \<Rightarrow> bool \<times> send_event list \<times> bytes" where
  "frame_send ty payload es =
     (if length payload > AC_FRAME_MAX_BYTES - 2 then (False, es, [])
      else let hdr = ac_be32 (of_nat (length payload + 2)) @ [AC_FRAME_VERSION, ty]
        in case write_full hdr es of
             (False, es, out) \<Rightarrow> (False, es, out)
           | (True, es, out) \<Rightarrow>
             if length payload > 0
             then (case write_full payload es of (ok, es, out') \<Rightarrow> (ok, es, out @ out'))
             else (True, es, out))"

definition frame_recv :: "recv_event list \<Rightarrow> (u8 \<times> bytes) option \<times> recv_event list" where
  "frame_recv es =
     (case read_full 6 es of
        (None, es) \<Rightarrow> (None, es)
      | (Some hdr, es) \<Rightarrow>
        let total = ac_rd32 hdr; version = hdr ! 4; ty = hdr ! 5
        in if total < 2 \<or> unat total > AC_FRAME_MAX_BYTES then (None, es)
           else if version \<noteq> AC_FRAME_VERSION then (None, es)
           else let plen = unat total - 2
             in if plen > 0
                then (case read_full plen es of (None, es) \<Rightarrow> (None, es) | (Some buf, es) \<Rightarrow> (Some (ty, buf), es))
                else (Some (ty, []), es))"

section \<open>Structs\<close>

record outbox_msg =
  om_type :: u8
  om_payload :: bytes

record peer =
  pe_in_use :: bool
  pe_reader_started :: bool
  pe_writer_started :: bool
  pe_fd :: int
  pe_peer_id :: ac_addr
  pe_peer_id_known :: bool
  pe_inbound :: bool
  pe_host :: bytes
  pe_port :: u16
  pe_last_seen_ms :: u64
  pe_out :: "outbox_msg list"
  pe_out_msgs :: nat
  pe_out_bytes :: nat
  pe_out_closing :: bool

record ac_net_config =
  nc_listen_port :: u16
  nc_listen_host :: bytes
  nc_external_host :: bytes
  nc_chain_id :: u64
  nc_keypair :: ac_keypair
  nc_seed_peers :: "bytes list"
  nc_target_outbound :: int

text \<open>\<open>ne_shut\<close> collects the descriptors that were shut down.\<close>

record ac_net =
  ne_cfg :: ac_net_config
  ne_running :: bool
  ne_peers :: "peer list"
  ne_dedup :: "ac_hash list"
  ne_dedup_n :: nat
  ne_dedup_pos :: nat
  ne_shut :: "int list"

definition peer_zero :: peer where
  "peer_zero = \<lparr>pe_in_use = False, pe_reader_started = False, pe_writer_started = False, pe_fd = 0, pe_peer_id = zeros 32,
     pe_peer_id_known = False, pe_inbound = False, pe_host = [], pe_port = 0, pe_last_seen_ms = 0, pe_out = [],
     pe_out_msgs = 0, pe_out_bytes = 0, pe_out_closing = False\<rparr>"

definition ac_net_new :: "ac_net_config \<Rightarrow> ac_net" where
  "ac_net_new cfg = \<lparr>ne_cfg = cfg, ne_running = False, ne_peers = replicate AC_MAX_PEERS peer_zero,
     ne_dedup = replicate AC_DEDUP_CAP (zeros 32), ne_dedup_n = 0, ne_dedup_pos = 0, ne_shut = []\<rparr>"

definition set_peer :: "ac_net \<Rightarrow> nat \<Rightarrow> peer \<Rightarrow> ac_net" where
  "set_peer n i p = n\<lparr>ne_peers := (ne_peers n)[i := p]\<rparr>"

definition sock_shutdown :: "ac_net \<Rightarrow> int \<Rightarrow> ac_net" where
  "sock_shutdown n fd = (if fd \<ge> 0 then n\<lparr>ne_shut := ne_shut n @ [fd]\<rparr> else n)"

section \<open>Messages seen recently\<close>

definition dedup_has :: "ac_net \<Rightarrow> ac_hash \<Rightarrow> bool" where
  "dedup_has n h = list_ex (\<lambda>x. ac_hash_eq x h) (take (ne_dedup_n n) (ne_dedup n))"

definition dedup_remember :: "ac_net \<Rightarrow> ac_hash \<Rightarrow> ac_net" where
  "dedup_remember n h =
     n\<lparr>ne_dedup := (ne_dedup n)[ne_dedup_pos n := h], ne_dedup_pos := (ne_dedup_pos n + 1) mod AC_DEDUP_CAP,
       ne_dedup_n := (if ne_dedup_n n < AC_DEDUP_CAP then ne_dedup_n n + 1 else ne_dedup_n n)\<rparr>"

section \<open>The outbound queue of a peer\<close>

fun peer_free :: "nat \<Rightarrow> peer list \<Rightarrow> nat option" where
  "peer_free i [] = None"
| "peer_free i (p # ps) = (if \<not> pe_in_use p then Some i else peer_free (Suc i) ps)"

definition peer_alloc :: "ac_net \<Rightarrow> (nat \<times> ac_net) option" where
  "peer_alloc n =
     (case peer_free 0 (ne_peers n) of
        None \<Rightarrow> None
      | Some i \<Rightarrow> Some (i, set_peer n i (peer_zero\<lparr>pe_in_use := True, pe_fd := -1\<rparr>)))"

definition out_drop_all_locked :: "peer \<Rightarrow> peer" where
  "out_drop_all_locked p = p\<lparr>pe_out := [], pe_out_msgs := 0, pe_out_bytes := 0\<rparr>"

definition peer_enqueue :: "peer \<Rightarrow> u8 \<Rightarrow> bytes \<Rightarrow> bool \<times> peer" where
  "peer_enqueue p ty payload =
     (if length payload > AC_FRAME_MAX_BYTES - 2 then (False, p)
      else if pe_out_closing p then (False, p)
      else if pe_out_msgs p + 1 > AC_OUT_QUEUE_MAX_MSGS \<or>
              pe_out_bytes p + length payload > AC_OUT_QUEUE_MAX_BYTES then (False, p)
      else (True, p\<lparr>pe_out := pe_out p @ [\<lparr>om_type = ty, om_payload = payload\<rparr>], pe_out_msgs := pe_out_msgs p + 1,
                    pe_out_bytes := pe_out_bytes p + length payload\<rparr>))"

text \<open>The writer takes the first message off the queue.\<close>

definition out_pop :: "peer \<Rightarrow> (outbox_msg \<times> peer) option" where
  "out_pop p =
     (case pe_out p of
        [] \<Rightarrow> None
      | m # ms \<Rightarrow> Some (m, p\<lparr>pe_out := ms, pe_out_msgs := pe_out_msgs p - 1,
                             pe_out_bytes := pe_out_bytes p - length (om_payload m)\<rparr>))"

text \<open>
  One round of \<^verbatim>\<open>writer_loop\<close>: it waits until there is a message or it has to stop, then takes the first
  message and sends it. The first result tells if the thread goes on; when it ends it drops the queue.
\<close>

definition writer_exit :: "peer \<Rightarrow> peer" where
  "writer_exit p = out_drop_all_locked (p\<lparr>pe_out_closing := True\<rparr>)"

definition writer_round :: "ac_net \<Rightarrow> nat \<Rightarrow> send_event list \<Rightarrow> bool \<times> ac_net \<times> send_event list \<times> bytes" where
  "writer_round n i es =
     (let p = ne_peers n ! i
      in if \<not> ne_running n \<or> pe_out_closing p then (False, set_peer n i (writer_exit p), es, [])
         else case out_pop p of
             None \<Rightarrow> (True, n, es, [])
           | Some (m, p) \<Rightarrow>
             if pe_fd p < 0 then (False, set_peer n i (writer_exit p), es, [])
             else case frame_send (om_type m) (om_payload m) es of
                 (True, es, out) \<Rightarrow> (True, set_peer n i p, es, out)
               | (False, es, out) \<Rightarrow> (False, sock_shutdown (set_peer n i (writer_exit p)) (pe_fd p), es, out))"

section \<open>Looking at the table\<close>

definition outbound_count :: "ac_net \<Rightarrow> nat" where
  "outbound_count n = length (filter (\<lambda>p. pe_in_use p \<and> \<not> pe_inbound p \<and> pe_fd p \<ge> 0) (ne_peers n))"

definition ac_net_peer_count :: "ac_net \<Rightarrow> nat" where
  "ac_net_peer_count n = length (filter (\<lambda>p. pe_in_use p \<and> pe_peer_id_known p) (ne_peers n))"

text \<open>A visitor of \<^verbatim>\<open>ac_net_each_peer\<close> returns its new state and if it wants to stop.\<close>

fun each_peer :: "(ac_addr \<Rightarrow> bytes \<Rightarrow> u16 \<Rightarrow> bool \<Rightarrow> 'a \<Rightarrow> bool \<times> 'a) \<Rightarrow> peer list \<Rightarrow> 'a \<Rightarrow> 'a" where
  "each_peer fn [] ctx = ctx"
| "each_peer fn (p # ps) ctx =
     (if \<not> pe_in_use p \<or> \<not> pe_peer_id_known p then each_peer fn ps ctx
      else case fn (pe_peer_id p) (pe_host p) (pe_port p) (pe_inbound p) ctx of
          (True, ctx) \<Rightarrow> ctx
        | (False, ctx) \<Rightarrow> each_peer fn ps ctx)"

definition ac_net_each_peer :: "ac_net \<Rightarrow> (ac_addr \<Rightarrow> bytes \<Rightarrow> u16 \<Rightarrow> bool \<Rightarrow> 'a \<Rightarrow> bool \<times> 'a) \<Rightarrow> 'a \<Rightarrow> 'a" where
  "ac_net_each_peer n fn ctx = each_peer fn (ne_peers n) ctx"

definition ac_net_self_info :: "ac_net \<Rightarrow> nat \<Rightarrow> ac_addr \<times> bytes \<times> u16" where
  "ac_net_self_info n host_cap =
     (let cfg = ne_cfg n;
          h = (if nc_external_host cfg \<noteq> [] then nc_external_host cfg else nc_listen_host cfg)
      in (take AC_PUBKEY_SIZE (kp_pk (nc_keypair cfg)),
          take (host_cap - 1) (if h \<noteq> [] then h else cstr ''0.0.0.0''), nc_listen_port cfg))"

section \<open>Sending\<close>

definition broadcast_peer :: "u8 \<Rightarrow> bytes \<Rightarrow> ac_addr option \<Rightarrow> ac_net \<Rightarrow> nat \<Rightarrow> ac_net" where
  "broadcast_peer ty payload exclude n i =
     (let p = ne_peers n ! i
      in if \<not> pe_in_use p \<or> \<not> pe_peer_id_known p \<or> pe_fd p < 0 then n
         else if (case exclude of None \<Rightarrow> False | Some x \<Rightarrow> ac_addr_eq (pe_peer_id p) x) then n
         else case peer_enqueue p ty payload of
             (True, p) \<Rightarrow> set_peer n i p
           | (False, p) \<Rightarrow> sock_shutdown (set_peer n i p) (pe_fd p))"

definition ac_net_broadcast :: "ac_net \<Rightarrow> u8 \<Rightarrow> bytes \<Rightarrow> ac_addr option \<Rightarrow> ac_net" where
  "ac_net_broadcast n ty payload exclude = foldl (broadcast_peer ty payload exclude) n [0..<AC_MAX_PEERS]"

fun route_find :: "ac_addr \<Rightarrow> nat \<Rightarrow> peer list \<Rightarrow> nat option" where
  "route_find a i [] = None"
| "route_find a i (p # ps) =
     (if pe_in_use p \<and> pe_peer_id_known p \<and> \<not> pe_fd p < 0 \<and> ac_addr_eq (pe_peer_id p) a then Some i
      else route_find a (Suc i) ps)"

definition ac_net_send_to :: "ac_net \<Rightarrow> ac_addr \<Rightarrow> u8 \<Rightarrow> bytes \<Rightarrow> bool \<times> ac_net" where
  "ac_net_send_to n a ty payload =
     (case route_find a 0 (ne_peers n) of
        None \<Rightarrow> (False, n)
      | Some i \<Rightarrow>
        (case peer_enqueue (ne_peers n ! i) ty payload of
           (True, p) \<Rightarrow> (True, set_peer n i p)
         | (False, p) \<Rightarrow> (False, sock_shutdown (set_peer n i p) (pe_fd p))))"

section \<open>HELLO\<close>

text \<open>The peers appended to a HELLO, from position \<open>pos\<close> of a buffer of 1500 bytes, with the number of them so far.\<close>

fun hello_gossip :: "peer list \<Rightarrow> nat \<Rightarrow> nat \<Rightarrow> bytes \<times> nat" where
  "hello_gossip [] pos k = ([], k)"
| "hello_gossip (q # qs) pos k =
     (if k \<ge> AC_HELLO_PEER_MAX then ([], k)
      else if \<not> pe_in_use q \<or> \<not> pe_peer_id_known q then hello_gossip qs pos k
      else if pe_host q = [] \<or> pe_port q = 0 then hello_gossip qs pos k
      else let qhl = length (pe_host q)
        in if qhl > 250 then hello_gossip qs pos k
           else if pos + AC_PUBKEY_SIZE + 2 + 1 + qhl + 32 > 1500 then ([], k)
           else let e = take AC_PUBKEY_SIZE (pe_peer_id q) @ ac_be16 (pe_port q) @ [of_nat qhl] @ pe_host q
             in case hello_gossip qs (pos + length e) (k + 1) of (rest, k) \<Rightarrow> (e @ rest, k))"

definition hello_payload :: "ac_net \<Rightarrow> bytes" where
  "hello_payload n =
     (let cfg = ne_cfg n;
          hl = min (length (nc_external_host cfg)) 127;
          hl = (if hl > 250 then 250 else hl);
          fixed = ac_be64 (nc_chain_id cfg) @ take AC_PUBKEY_SIZE (kp_pk (nc_keypair cfg)) @ ac_be16 (nc_listen_port cfg) @
                  [of_nat hl] @ take hl (nc_external_host cfg)
      in case hello_gossip (ne_peers n) (length fixed + 1) 0 of
           (gossip, npeers) \<Rightarrow> fixed @ [of_nat npeers] @ gossip)"

definition send_hello :: "ac_net \<Rightarrow> send_event list \<Rightarrow> bool \<times> send_event list \<times> bytes" where
  "send_hello n es = frame_send AC_MSG_HELLO (hello_payload n) es"

record hello_peer =
  hp_peer_id :: ac_addr
  hp_port :: u16
  hp_host :: bytes

record hello =
  he_chain_id :: u64
  he_peer_id :: ac_addr
  he_port :: u16
  he_host :: bytes
  he_gossip :: "hello_peer list"

text \<open>
  Reading from the received buffer: \<open>None\<close> is a read outside of it. What \<^verbatim>\<open>parse_hello\<close> gives back is therefore
  \<open>None\<close> if it read outside the buffer, \<open>Some None\<close> if it rejected the message, and the message otherwise.
\<close>

definition rd_at :: "bytes \<Rightarrow> nat \<Rightarrow> nat \<Rightarrow> bytes option" where
  "rd_at buf pos len = (if pos + len \<le> length buf then Some (take len (drop pos buf)) else None)"

fun parse_gossip :: "bytes \<Rightarrow> nat \<Rightarrow> nat \<Rightarrow> nat \<Rightarrow> hello_peer list option" where
  "parse_gossip buf pos kept 0 = Some []"
| "parse_gossip buf pos kept (Suc k) =
     (if pos + AC_PUBKEY_SIZE + 2 + 1 > length buf then Some []
      else do {
        pid \<leftarrow> rd_at buf pos AC_PUBKEY_SIZE;
        pp2 \<leftarrow> rd_at buf (pos + 32) 2;
        phl \<leftarrow> rd_at buf (pos + 34) 1;
        let phl = unat (hd phl);
        if pos + 35 + phl > length buf then Some []
        else if kept < AC_HELLO_PEER_MAX then do {
          host \<leftarrow> rd_at buf (pos + 35) (if phl < 128 - 1 then phl else 128 - 1);
          rest \<leftarrow> parse_gossip buf (pos + 35 + phl) (kept + 1) k;
          Some (\<lparr>hp_peer_id = pid, hp_port = ac_rd16 pp2, hp_host = c_string host\<rparr> # rest)
        } else parse_gossip buf (pos + 35 + phl) kept k
      })"

definition parse_hello :: "bytes \<Rightarrow> hello option option" where
  "parse_hello buf =
     (if length buf < 8 + AC_PUBKEY_SIZE + 2 + 1 then Some None
      else do {
        cid \<leftarrow> rd_at buf 0 8;
        pid \<leftarrow> rd_at buf 8 AC_PUBKEY_SIZE;
        pp \<leftarrow> rd_at buf 40 2;
        hl \<leftarrow> rd_at buf 42 1;
        let hl = unat (hd hl);
        if 43 + hl > length buf then Some None
        else do {
          host \<leftarrow> rd_at buf 43 (if hl < 128 - 1 then hl else 128 - 1);
          let pos = 43 + hl;
          let he = \<lparr>he_chain_id = ac_rd64 cid, he_peer_id = pid, he_port = ac_rd16 pp, he_host = c_string host, he_gossip = []\<rparr>;
          if pos \<ge> length buf then Some (Some he)
          else do {
            np \<leftarrow> rd_at buf pos 1;
            let np = (if unat (hd np) > AC_HELLO_PEER_MAX then AC_HELLO_PEER_MAX else unat (hd np));
            gossip \<leftarrow> parse_gossip buf (pos + 1) 0 np;
            Some (Some (he\<lparr>he_gossip := gossip\<rparr>))
          }
        }
      })"

section \<open>Receiving\<close>

text \<open>The callbacks of the node. They may change the world outside (\<open>'w\<close>) and send messages.\<close>

datatype net_call =
  On_block_ann bytes
| On_tx_ann bytes
| On_commit_vote bytes
| On_headers_req u64 u32 ac_addr
| On_block_req u64 ac_addr

text \<open>An announcement is handed to the node and passed on to the other peers, unless it was seen recently.\<close>

definition relay ::
  "sodium \<Rightarrow> (net_call \<Rightarrow> 'w \<times> ac_net \<Rightarrow> 'w \<times> ac_net) \<Rightarrow> nat \<Rightarrow> u8 \<Rightarrow> net_call \<Rightarrow> bytes \<Rightarrow> 'w \<times> ac_net \<Rightarrow> 'w \<times> ac_net" where
  "relay S cb i ty call buf wn =
     (let (w, n) = wn; h = ac_hash S buf
      in if dedup_has n h then (w, n)
         else let (w, n) = cb call (w, dedup_remember n h)
           in (w, ac_net_broadcast n ty buf (Some (pe_peer_id (ne_peers n ! i)))))"

definition dispatch_message ::
  "sodium \<Rightarrow> u64 \<Rightarrow> (net_call \<Rightarrow> 'w \<times> ac_net \<Rightarrow> 'w \<times> ac_net) \<Rightarrow> nat \<Rightarrow> u8 \<Rightarrow> bytes \<Rightarrow> 'w \<times> ac_net \<Rightarrow> 'w \<times> ac_net" where
  "dispatch_message S now cb i ty buf wn =
     (let (w, n) = wn;
          p = (ne_peers n ! i)\<lparr>pe_last_seen_ms := now\<rparr>;
          n = set_peer n i p
      in if ty = AC_MSG_BLOCK_ANN then relay S cb i AC_MSG_BLOCK_ANN (On_block_ann buf) buf (w, n)
         else if ty = AC_MSG_TX_ANN then relay S cb i AC_MSG_TX_ANN (On_tx_ann buf) buf (w, n)
         else if ty = AC_MSG_COMMIT_VOTE then relay S cb i AC_MSG_COMMIT_VOTE (On_commit_vote buf) buf (w, n)
         else if ty = AC_MSG_HEADERS_REQ then
           (if length buf < 12 then (w, n)
            else cb (On_headers_req (ac_rd64 buf) (ac_rd32 (drop 8 buf)) (pe_peer_id p)) (w, n))
         else if ty = AC_MSG_BLOCK_REQ then
           (if length buf < 8 then (w, n) else cb (On_block_req (ac_rd64 buf) (pe_peer_id p)) (w, n))
         else if ty = AC_MSG_BLOCK_RES then cb (On_block_ann buf) (w, n)
         else if ty = AC_MSG_PING then (w, set_peer n i (snd (peer_enqueue p AC_MSG_PONG buf)))
         else (w, n))"

text \<open>
  The start of \<^verbatim>\<open>reader_loop\<close>: the first frame has to be a HELLO of the same chain and of another node.
  The older slots of the same peer are then retired, which is one critical section; the identity of the
  new slot is written after it.
\<close>

definition peer_close_fd :: "peer \<Rightarrow> peer" where
  "peer_close_fd p = (if pe_fd p \<ge> 0 then p\<lparr>pe_fd := -1\<rparr> else p)"

definition reader_hello :: "ac_net \<Rightarrow> (u8 \<times> bytes) option \<Rightarrow> hello option" where
  "reader_hello n frame =
     (case frame of
        None \<Rightarrow> None
      | Some (ty, buf) \<Rightarrow>
        if ty \<noteq> AC_MSG_HELLO then None
        else case parse_hello buf of
            Some (Some he) \<Rightarrow>
              if he_chain_id he \<noteq> nc_chain_id (ne_cfg n) then None
              else if memcmp (take AC_PUBKEY_SIZE (he_peer_id he)) (take AC_PUBKEY_SIZE (kp_pk (nc_keypair (ne_cfg n)))) = 0 then None
              else Some he
          | _ \<Rightarrow> None)"

definition evict_peer :: "nat \<Rightarrow> ac_addr \<Rightarrow> ac_net \<Rightarrow> nat \<Rightarrow> ac_net" where
  "evict_peer i their_id n j =
     (let other = ne_peers n ! j
      in if j = i \<or> \<not> pe_in_use other \<or> \<not> pe_peer_id_known other then n
         else if memcmp (take AC_PUBKEY_SIZE (pe_peer_id other)) (take AC_PUBKEY_SIZE their_id) = 0 then
           sock_shutdown (set_peer n j (other\<lparr>pe_peer_id_known := False, pe_out_closing := True\<rparr>)) (pe_fd other)
         else n)"

definition reader_evict :: "ac_net \<Rightarrow> nat \<Rightarrow> ac_addr \<Rightarrow> ac_net" where
  "reader_evict n i their_id = foldl (evict_peer i their_id) n [0..<AC_MAX_PEERS]"

definition reader_register :: "ac_net \<Rightarrow> nat \<Rightarrow> hello \<Rightarrow> u64 \<Rightarrow> ac_net" where
  "reader_register n i he now =
     (let p = ne_peers n ! i
      in set_peer n i (p\<lparr>pe_peer_id := he_peer_id he, pe_peer_id_known := True,
           pe_host := (if he_host he \<noteq> [] then take 127 (he_host he) else pe_host p),
           pe_port := he_port he, pe_last_seen_ms := now\<rparr>))"

section \<open>Dialling\<close>

text \<open>The address after a HELLO tells the peers to dial: \<^verbatim>\<open>snprintf\<close> of \<^verbatim>\<open>%s:%u\<close> into 160 bytes.\<close>

definition host_port :: "bytes \<Rightarrow> u16 \<Rightarrow> bytes" where
  "host_port host port = take 159 (host @ [0x3a] @ decimal (unat port))"

definition gossip_dials :: "ac_net \<Rightarrow> nat \<Rightarrow> hello_peer list \<Rightarrow> bytes list" where
  "gossip_dials n i gs =
     map (\<lambda>g. host_port (hp_host g) (hp_port g))
       (filter (\<lambda>g. memcmp (take AC_PUBKEY_SIZE (hp_peer_id g)) (take AC_PUBKEY_SIZE (kp_pk (nc_keypair (ne_cfg n)))) \<noteq> 0 \<and>
          memcmp (take AC_PUBKEY_SIZE (hp_peer_id g)) (take AC_PUBKEY_SIZE (pe_peer_id (ne_peers n ! i))) \<noteq> 0 \<and>
          \<not> (hp_host g = [] \<or> hp_port g = 0)) gs)"

text \<open>The text before and after the last colon.\<close>

definition split_colon :: "bytes \<Rightarrow> (bytes \<times> bytes) option" where
  "split_colon hp =
     (let after = takeWhile (\<lambda>b. b \<noteq> 0x3a) (rev hp)
      in if length after = length hp then None
         else Some (take (length hp - length after - 1) hp, drop (length hp - length after) hp))"

definition strip_brackets :: "bytes \<Rightarrow> bytes" where
  "strip_brackets host =
     (if host \<noteq> [] \<and> hd host = 0x5b \<and> length host > 2 \<and> last host = 0x5d
      then take (length host - 2) (tl host) else host)"

definition dial_target :: "bytes \<Rightarrow> (bytes \<times> nat) option" where
  "dial_target hp =
     (case split_colon hp of
        None \<Rightarrow> None
      | Some (host, port) \<Rightarrow>
        if length host \<ge> 128 then None
        else if atoi port \<le> 0 \<or> atoi port > 65535 then None
        else Some (strip_brackets host, nat (atoi port)))"

definition already_dialed :: "ac_net \<Rightarrow> bytes \<Rightarrow> u16 \<Rightarrow> bool" where
  "already_dialed n host port =
     list_ex (\<lambda>p. pe_in_use p \<and> \<not> pe_inbound p \<and> \<not> pe_fd p < 0 \<and> pe_port p = port \<and> pe_host p = host) (ne_peers n)"

text \<open>\<open>con\<close> is the outcome of the name lookup and the connection attempt: a descriptor or a failure.\<close>

definition dial_peer :: "(bytes \<Rightarrow> nat \<Rightarrow> int option) \<Rightarrow> ac_net \<Rightarrow> bytes \<Rightarrow> bool \<times> ac_net" where
  "dial_peer con n hp =
     (case dial_target hp of
        None \<Rightarrow> (False, n)
      | Some (host, port) \<Rightarrow>
        if already_dialed n host (of_nat port) then (True, n)
        else case con host port of
            None \<Rightarrow> (False, n)
          | Some fd \<Rightarrow>
            (case peer_alloc n of
               None \<Rightarrow> (False, n)
             | Some (i, n) \<Rightarrow>
               (True, set_peer n i ((ne_peers n ! i)\<lparr>pe_fd := fd, pe_inbound := False, pe_host := take 127 host,
                  pe_port := of_nat port, pe_writer_started := True, pe_reader_started := True\<rparr>))))"

text \<open>An accepted connection of \<^verbatim>\<open>listen_loop\<close>, from the address the operating system reports.\<close>

definition listen_accept :: "ac_net \<Rightarrow> int \<Rightarrow> bytes \<Rightarrow> u16 \<Rightarrow> ac_net" where
  "listen_accept n fd host port =
     (case peer_alloc n of
        None \<Rightarrow> n
      | Some (i, n) \<Rightarrow>
        set_peer n i ((ne_peers n ! i)\<lparr>pe_fd := fd, pe_inbound := True, pe_host := take 127 host, pe_port := port,
          pe_writer_started := True, pe_reader_started := True\<rparr>))"

section \<open>Upkeep\<close>

text \<open>Both threads of a dead slot are joined before it is released; its writer drops the queue when it ends.\<close>

definition reap_slot :: "ac_net \<Rightarrow> nat \<Rightarrow> ac_net" where
  "reap_slot n i =
     (let p = ne_peers n ! i
      in if pe_in_use p \<and> pe_fd p < 0 \<and> (pe_reader_started p \<or> pe_writer_started p) then
           let p = (if pe_writer_started p then writer_exit p else p)
           in set_peer n i (p\<lparr>pe_reader_started := False, pe_writer_started := False, pe_in_use := False\<rparr>)
         else n)"

definition reap_dead_peers :: "ac_net \<Rightarrow> ac_net" where
  "reap_dead_peers n = foldl reap_slot n [0..<AC_MAX_PEERS]"

definition connector_target :: "ac_net_config \<Rightarrow> int" where
  "connector_target cfg =
     (let target = (if nc_target_outbound cfg > 0 then nc_target_outbound cfg else 8);
          seed_n = int (length (nc_seed_peers cfg))
      in if seed_n > 0 \<and> seed_n < target then seed_n else target)"

text \<open>One round of \<^verbatim>\<open>connector_loop\<close> between two sleeps.\<close>

definition connector_round :: "(bytes \<Rightarrow> nat \<Rightarrow> int option) \<Rightarrow> ac_net \<Rightarrow> ac_net" where
  "connector_round con n =
     (let n = reap_dead_peers n; cfg = ne_cfg n
      in if int (outbound_count n) < connector_target cfg \<and> nc_seed_peers cfg \<noteq> []
         then foldl (\<lambda>n peer. if ne_running n \<and> peer \<noteq> [] then snd (dial_peer con n peer) else n) n (nc_seed_peers cfg)
         else n)"

text \<open>After \<^verbatim>\<open>ac_net_stop\<close> has joined all threads every slot is released.\<close>

definition stop_slot :: "ac_net \<Rightarrow> nat \<Rightarrow> ac_net" where
  "stop_slot n i =
     (let p = ne_peers n ! i
      in if pe_in_use p then
           let n = sock_shutdown n (pe_fd p); p = writer_exit p
           in set_peer n i (p\<lparr>pe_reader_started := False, pe_writer_started := False, pe_fd := (if pe_fd p \<ge> 0 then -1 else pe_fd p),
                pe_in_use := False\<rparr>)
         else set_peer n i (p\<lparr>pe_reader_started := False, pe_writer_started := False\<rparr>))"

definition ac_net_stop :: "ac_net \<Rightarrow> ac_net" where
  "ac_net_stop n = foldl stop_slot (n\<lparr>ne_running := False\<rparr>) [0..<AC_MAX_PEERS]"

end
