(* ===== verification/Consensus.thy ===== *)
theory Consensus
  imports Ledger Net
begin

text \<open>
  The consensus engine of \<^verbatim>\<open>consensus.c\<close>: pending blocks, votes, priorities and the phases of a slot.
  The struct \<^verbatim>\<open>ac_consensus_s\<close> is the record \<open>ac_consensus\<close>; a pointer into its tables is an index;
  the chain and the pool it points to are fields; what the broadcast callback was called with is
  appended to \<open>co_out\<close>. Every handler holds the engine's mutex, so each is one function from the engine
  to the engine. The clock is read once per handler (\<open>io_now_ms\<close>). Allocation does not fail.
\<close>

section \<open>Constants and structs\<close>

definition AC_PENDING_MAX :: nat where "AC_PENDING_MAX = 8"
definition AC_HDRS_REQ_MIN_INTERVAL_MS :: u64 where "AC_HDRS_REQ_MIN_INTERVAL_MS = 4000"
definition AC_VOTE_DELAY_MS :: u64 where "AC_VOTE_DELAY_MS = 1100"
definition AC_SEAL_GRACE_MS :: u64 where "AC_SEAL_GRACE_MS = 300"
definition AC_VOTE_WIRE_LEN :: nat where
  "AC_VOTE_WIRE_LEN = 8 + AC_HASH_SIZE + AC_PUBKEY_SIZE + AC_SIG_SIZE + AC_VRF_PROOF_SIZE"

record pending =
  pd_occupied :: bool
  pd_committed :: bool
  pd_height :: u64
  pd_slot :: u64
  pd_block_hash :: ac_hash
  pd_block :: ac_block
  pd_signers :: "ac_commit_signer list"
  pd_first_seen_ms :: u64
  pd_priority :: bytes
  pd_threshold_reached_ms :: u64

record slot_vote =
  sv_slot :: u64
  sv_best_priority :: bytes
  sv_voted_block :: ac_hash
  sv_voted :: bool

record ac_consensus =
  co_chain :: ac_chain
  co_mempool :: ac_mempool
  co_kp :: ac_keypair
  co_my_addr :: ac_addr
  co_bcast :: bool
  co_out :: "(u8 \<times> bytes) list"
  co_validator :: bool
  co_pending :: "pending list"
  co_slot_votes :: "slot_vote list"
  co_last_hdrs_req_ms :: u64
  co_last_hdrs_req_target :: u64
  co_vote_height :: u64
  co_vote_block :: ac_hash
  co_vote_priority :: bytes

record ac_consensus_config =
  cf_chain :: ac_chain
  cf_mempool :: ac_mempool
  cf_keypair :: ac_keypair
  cf_broadcast :: bool
  cf_validator :: bool

definition block_zero :: ac_block where
  "block_zero =
     \<lparr>b_header = \<lparr>h_version = 0, h_height = 0, h_slot = 0, h_parent_hash = zeros 32, h_timestamp_ms = 0,
        h_proposer = zeros 32, h_proposer_vrf_proof = zeros 64, h_state_root = zeros 32, h_tx_root = zeros 32,
        h_base_fee = 0, h_gas_used = 0, h_gas_limit = 0, h_tx_count = 0\<rparr>, b_txs = [], b_signers = []\<rparr>"

definition pending_zero :: pending where
  "pending_zero =
     \<lparr>pd_occupied = False, pd_committed = False, pd_height = 0, pd_slot = 0, pd_block_hash = zeros 32,
      pd_block = block_zero, pd_signers = [], pd_first_seen_ms = 0, pd_priority = zeros 16, pd_threshold_reached_ms = 0\<rparr>"

definition slot_vote_zero :: slot_vote where
  "slot_vote_zero = \<lparr>sv_slot = 0, sv_best_priority = zeros 16, sv_voted_block = zeros 32, sv_voted = False\<rparr>"

definition ac_consensus_new :: "ac_consensus_config \<Rightarrow> ac_consensus" where
  "ac_consensus_new cfg =
     \<lparr>co_chain = cf_chain cfg, co_mempool = cf_mempool cfg, co_kp = cf_keypair cfg,
      co_my_addr = take AC_PUBKEY_SIZE (kp_pk (cf_keypair cfg)), co_bcast = cf_broadcast cfg, co_out = [],
      co_validator = cf_validator cfg, co_pending = replicate AC_PENDING_MAX pending_zero,
      co_slot_votes = replicate AC_PENDING_MAX slot_vote_zero, co_last_hdrs_req_ms = 0, co_last_hdrs_req_target = 0,
      co_vote_height = 0, co_vote_block = zeros 32, co_vote_priority = zeros 16\<rparr>"

definition bcast :: "ac_consensus \<Rightarrow> u8 \<Rightarrow> bytes \<Rightarrow> ac_consensus" where
  "bcast cs ty payload = (if co_bcast cs then cs\<lparr>co_out := co_out cs @ [(ty, payload)]\<rparr> else cs)"

definition set_pending :: "ac_consensus \<Rightarrow> nat \<Rightarrow> pending \<Rightarrow> ac_consensus" where
  "set_pending cs i p = cs\<lparr>co_pending := (co_pending cs)[i := p]\<rparr>"

section \<open>Pending blocks\<close>

fun pending_find :: "pending list \<Rightarrow> ac_hash \<Rightarrow> nat option" where
  "pending_find [] bh = None"
| "pending_find (p # ps) bh =
     (if pd_occupied p \<and> ac_hash_eq (pd_block_hash p) bh then Some 0 else map_option Suc (pending_find ps bh))"

text \<open>The loop of \<^verbatim>\<open>pending_alloc\<close>: the first free entry, else the oldest one seen so far.\<close>

fun pending_slot :: "nat \<Rightarrow> (nat \<times> u64) option \<Rightarrow> pending list \<Rightarrow> nat" where
  "pending_slot i oldest [] = (case oldest of None \<Rightarrow> i | Some (j, t) \<Rightarrow> j)"
| "pending_slot i oldest (p # ps) =
     (if \<not> pd_occupied p then i
      else pending_slot (Suc i)
        (case oldest of
           None \<Rightarrow> Some (i, pd_first_seen_ms p)
         | Some (j, t) \<Rightarrow> if pd_first_seen_ms p < t then Some (i, pd_first_seen_ms p) else oldest) ps)"

definition pending_alloc :: "ac_io \<Rightarrow> ac_consensus \<Rightarrow> nat \<times> ac_consensus" where
  "pending_alloc io cs =
     (let i = pending_slot 0 None (co_pending cs)
      in (i, set_pending cs i (pending_zero\<lparr>pd_occupied := True, pd_first_seen_ms := io_now_ms io\<rparr>)))"

section \<open>Sortition of the local validator\<close>

text \<open>
  A proof made with one's own key verifies, so the output \<open>beta\<close> that both functions read after
  \<^verbatim>\<open>ac_vrf_verify\<close> without testing its result is set.
\<close>

definition am_i_leader :: "sodium \<Rightarrow> rounding \<Rightarrow> ac_consensus \<Rightarrow> u64 \<Rightarrow> bytes option \<times> ac_consensus" where
  "am_i_leader S ld cs slot =
     (let (has, me) = ac_state_get (ch_state (co_chain cs)) (co_my_addr cs)
      in if \<not> has \<or> acc_stake me < AC_MIN_STAKE_UCRD then (None, cs)
         else let (seed, c) = ac_chain_epoch_seed S (co_chain cs) (ac_epoch_of slot);
                  alpha = leader_alpha seed slot;
                  prf = fst (ac_vrf_prove S alpha (co_kp cs));
                  nactive = ac_chain_active_count c;
                  cs = cs\<lparr>co_chain := c\<rparr>
           in if nactive = 0 then (None, cs)
              else case ac_vrf_verify S prf alpha (kp_pk (co_kp cs)) of
                  None \<Rightarrow> (None, cs)
                | Some beta \<Rightarrow>
                  let p = ld (2 / ld (of_nat nactive));
                      p = (if p > 1 then 1 else p);
                      thr = ld (p * ld (of_nat (unat UINT64_MAX)))
                  in (if ac_rd64 beta < word_of_int \<lfloor>thr\<rfloor> then Some prf else None, cs))"

definition am_i_committee :: "sodium \<Rightarrow> rounding \<Rightarrow> ac_consensus \<Rightarrow> u64 \<Rightarrow> bytes option \<times> ac_consensus" where
  "am_i_committee S ld cs slot =
     (let (has, me) = ac_state_get (ch_state (co_chain cs)) (co_my_addr cs)
      in if \<not> has \<or> acc_stake me < AC_MIN_STAKE_UCRD then (None, cs)
         else let (seed, c) = ac_chain_epoch_seed S (co_chain cs) (ac_epoch_of slot);
                  total_sqrt = ac_chain_total_sqrt_stake c;
                  cs = cs\<lparr>co_chain := c\<rparr>;
                  alpha = committee_alpha seed slot;
                  prf = fst (ac_vrf_prove S alpha (co_kp cs))
           in case ac_vrf_verify S prf alpha (kp_pk (co_kp cs)) of
                None \<Rightarrow> (None, cs)
              | Some beta \<Rightarrow>
                (if committee_eligible ld (ac_rd64 beta) (ac_isqrt_u64 (acc_stake me)) total_sqrt
                 then Some prf else None, cs))"

section \<open>Votes on the wire\<close>

record ac_vote =
  vo_height :: u64
  vo_block_hash :: ac_hash
  vo_signer :: ac_addr
  vo_sig :: ac_sig
  vo_proof :: bytes

definition vote_encode :: "ac_vote \<Rightarrow> bytes" where
  "vote_encode v = ac_be64 (vo_height v) @ take AC_HASH_SIZE (vo_block_hash v) @ take AC_PUBKEY_SIZE (vo_signer v) @
     take AC_SIG_SIZE (vo_sig v) @ take AC_VRF_PROOF_SIZE (vo_proof v)"

definition vote_decode :: "bytes \<Rightarrow> ac_vote option" where
  "vote_decode buf =
     (if length buf \<noteq> AC_VOTE_WIRE_LEN then None
      else Some \<lparr>vo_height = ac_rd64 buf, vo_block_hash = take AC_HASH_SIZE (drop 8 buf),
                 vo_signer = take AC_PUBKEY_SIZE (drop 40 buf), vo_sig = take AC_SIG_SIZE (drop 72 buf),
                 vo_proof = take AC_VRF_PROOF_SIZE (drop 136 buf)\<rparr>)"

section \<open>Priorities and slot votes\<close>

definition PRIO_DOMAIN :: bytes where "PRIO_DOMAIN = cstr ''AGCH:PRIO''"

definition compute_priority :: "sodium \<Rightarrow> bytes \<Rightarrow> u64 \<Rightarrow> bytes" where
  "compute_priority S beta sqrt_stake =
     (if sqrt_stake = 0 then replicate 16 0xff
      else let h = ac_hash_multi S [PRIO_DOMAIN, beta];
               hi = ac_rd64 h;
               lo = ac_rd64 (drop 8 h);
               q_hi = hi div sqrt_stake;
               r_hi = hi mod sqrt_stake;
               q_lo = lo div sqrt_stake;
               q_lo = (if sqrt_stake > 0 then q_lo + (UINT64_MAX div sqrt_stake) * r_hi else q_lo)
        in ac_be64 q_hi @ ac_be64 q_lo)"

text \<open>The loop of \<^verbatim>\<open>slot_vote_for\<close>: \<open>Inl\<close> the entry of the slot, else \<open>Inr\<close> the oldest entry.\<close>

fun slot_vote_find :: "u64 \<Rightarrow> nat \<Rightarrow> (nat \<times> u64) option \<Rightarrow> slot_vote list \<Rightarrow> nat + nat" where
  "slot_vote_find slot i oldest [] = (case oldest of None \<Rightarrow> Inr i | Some (j, t) \<Rightarrow> Inr j)"
| "slot_vote_find slot i oldest (sv # svs) =
     (if sv_slot sv = slot then Inl i
      else slot_vote_find slot (Suc i)
        (case oldest of
           None \<Rightarrow> Some (i, sv_slot sv)
         | Some (j, t) \<Rightarrow> if sv_slot sv < t then Some (i, sv_slot sv) else oldest) svs)"

definition slot_vote_for :: "ac_consensus \<Rightarrow> u64 \<Rightarrow> nat \<times> ac_consensus" where
  "slot_vote_for cs slot =
     (case slot_vote_find slot 0 None (co_slot_votes cs) of
        Inl i \<Rightarrow> (i, cs)
      | Inr i \<Rightarrow> (i, cs\<lparr>co_slot_votes := (co_slot_votes cs)[i :=
           slot_vote_zero\<lparr>sv_slot := slot, sv_best_priority := replicate 16 0xff\<rparr>]\<rparr>))"

definition priority_cmp :: "bytes \<Rightarrow> bytes \<Rightarrow> int" where
  "priority_cmp a b = memcmp (take 16 a) (take 16 b)"

text \<open>Recording the priority of a proposal for its slot, as the block handler and the proposer do.\<close>

definition record_priority :: "ac_consensus \<Rightarrow> u64 \<Rightarrow> bytes \<Rightarrow> ac_consensus" where
  "record_priority cs slot prio =
     (let (i, cs) = slot_vote_for cs slot; sv = co_slot_votes cs ! i
      in if priority_cmp prio (sv_best_priority sv) < 0
         then cs\<lparr>co_slot_votes := (co_slot_votes cs)[i := sv\<lparr>sv_best_priority := prio\<rparr>]\<rparr> else cs)"

definition add_signer :: "ac_commit_signer list \<Rightarrow> ac_commit_signer \<Rightarrow> ac_commit_signer list" where
  "add_signer ss x =
     (if \<not> list_ex (\<lambda>y. ac_addr_eq (cs_signer y) (cs_signer x)) ss \<and> length ss < AC_COMMITTEE_MAX
      then ss @ [x] else ss)"

definition our_vote_now :: "sodium \<Rightarrow> rounding \<Rightarrow> ac_consensus \<Rightarrow> nat \<Rightarrow> ac_consensus" where
  "our_vote_now S ld cs k =
     (let p = co_pending cs ! k
      in case am_i_committee S ld cs (pd_slot p) of
           (None, cs) \<Rightarrow> cs
         | (Some cproof, cs) \<Rightarrow>
           let sig = ac_sign S (ac_vote_message (pd_height p) (pd_block_hash p)) (co_kp cs);
               p = p\<lparr>pd_signers := add_signer (pd_signers p)
                   \<lparr>cs_signer = co_my_addr cs, cs_sig = sig, cs_vrf_proof = take AC_VRF_PROOF_SIZE cproof\<rparr>\<rparr>;
               cs = set_pending cs k p;
               (i, cs) = slot_vote_for cs (pd_slot p);
               sv = co_slot_votes cs ! i;
               cs = cs\<lparr>co_slot_votes := (co_slot_votes cs)[i := sv\<lparr>sv_voted := True, sv_voted_block := pd_block_hash p,
                        sv_best_priority := pd_priority p\<rparr>]\<rparr>
           in bcast cs AC_MSG_COMMIT_VOTE
                (vote_encode \<lparr>vo_height = pd_height p, vo_block_hash = pd_block_hash p, vo_signer = co_my_addr cs,
                              vo_sig = sig, vo_proof = cproof\<rparr>))"

section \<open>Commit\<close>

text \<open>The weight of the collected signers in the current state.\<close>

definition signers_sqrt :: "ac_state \<Rightarrow> ac_commit_signer list \<Rightarrow> u64" where
  "signers_sqrt s ss =
     foldl (\<lambda>sum x. let a = snd (ac_state_get s (cs_signer x))
                    in if acc_stake a \<ge> AC_MIN_STAKE_UCRD then sum + ac_isqrt_u64 (acc_stake a) else sum) 0 ss"

definition try_threshold :: "ac_chain \<Rightarrow> ac_commit_signer list \<Rightarrow> bool" where
  "try_threshold c ss =
     (let total_sqrt = ac_chain_total_sqrt_stake c;
          live_sqrt = (if ac_chain_live_sqrt_stake c = 0 then total_sqrt else ac_chain_live_sqrt_stake c);
          sum_sqrt = signers_sqrt (ch_state c) ss
      in live_sqrt \<noteq> 0 \<and> \<not> sum_sqrt * 3 < live_sqrt * 2 \<and> \<not> (total_sqrt > 0 \<and> sum_sqrt * 2 \<le> total_sqrt))"

text \<open>What happens once the block has its signers and the grace period is over.\<close>

definition commit_block :: "sodium \<Rightarrow> rounding \<Rightarrow> ac_io \<Rightarrow> ac_consensus \<Rightarrow> nat \<Rightarrow> ac_consensus" where
  "commit_block S ld io cs k =
     (let p = co_pending cs ! k;
          blk = (pd_block p)\<lparr>b_signers := pd_signers p\<rparr>;
          (r, c) = ac_chain_accept_block S ld io (co_chain cs) blk;
          cs = cs\<lparr>co_chain := c\<rparr>
      in if r = AC_ACCEPT_OK \<or> r = AC_ACCEPT_DUP then
           let cs = set_pending cs k (p\<lparr>pd_committed := True, pd_block := blk\<rparr>);
               cs = cs\<lparr>co_mempool := foldl (\<lambda>mp tx. ac_mempool_remove mp (ac_tx_hash S tx)) (co_mempool cs) (b_txs blk)\<rparr>
           in case ac_block_encode blk of
                None \<Rightarrow> cs
              | Some enc \<Rightarrow> bcast cs AC_MSG_BLOCK_ANN enc
         else set_pending cs k (p\<lparr>pd_block := (pd_block p)\<lparr>b_signers := []\<rparr>\<rparr>))"

definition try_commit_inner :: "sodium \<Rightarrow> rounding \<Rightarrow> ac_io \<Rightarrow> ac_consensus \<Rightarrow> nat \<Rightarrow> bool \<Rightarrow> ac_consensus" where
  "try_commit_inner S ld io cs k force_seal =
     (let p = co_pending cs ! k
      in if \<not> pd_occupied p \<or> pd_committed p then cs
         else if \<not> try_threshold (co_chain cs) (pd_signers p) then cs
         else let now = io_now_ms io;
                  wall_slot = ac_chain_current_slot (co_chain cs) now;
                  catching_up = wall_slot > pd_slot p + 1;
                  p = (if pd_threshold_reached_ms p = 0 then p\<lparr>pd_threshold_reached_ms := now\<rparr> else p);
                  cs = set_pending cs k p
           in if \<not> force_seal \<and> \<not> catching_up \<and> now - pd_threshold_reached_ms p < AC_SEAL_GRACE_MS then cs
              else commit_block S ld io cs k)"

definition try_commit :: "sodium \<Rightarrow> rounding \<Rightarrow> ac_io \<Rightarrow> ac_consensus \<Rightarrow> nat \<Rightarrow> ac_consensus" where
  "try_commit S ld io cs k = try_commit_inner S ld io cs k False"

section \<open>Messages\<close>

text \<open>A block that is too far ahead: ask for the gap, at most every four seconds unless it grew.\<close>

definition request_headers :: "ac_io \<Rightarrow> ac_consensus \<Rightarrow> u64 \<Rightarrow> ac_consensus" where
  "request_headers io cs target =
     (let our_height = ch_height (co_chain cs);
          now = io_now_ms io;
          stale = now - co_last_hdrs_req_ms cs \<ge> AC_HDRS_REQ_MIN_INTERVAL_MS;
          gap_grew = target > co_last_hdrs_req_target cs + 64
      in if co_bcast cs \<and> (stale \<or> gap_grew) then
           let cs = cs\<lparr>co_last_hdrs_req_ms := now, co_last_hdrs_req_target := target\<rparr>;
               count = (ucast (target - our_height) :: u32);
               count = (if count > 256 then 256 else count)
           in bcast cs AC_MSG_HEADERS_REQ (ac_be64 (our_height + 1) @ ac_be32 count)
         else cs)"

text \<open>A new proposal that extends the tip.\<close>

definition stash_proposal :: "sodium \<Rightarrow> rounding \<Rightarrow> ac_io \<Rightarrow> ac_consensus \<Rightarrow> ac_block \<Rightarrow> ac_consensus" where
  "stash_proposal S ld io cs b =
     (let h = b_header b;
          (seed, c) = ac_chain_epoch_seed S (co_chain cs) (ac_epoch_of (h_slot h));
          cs = cs\<lparr>co_chain := c\<rparr>
      in case ac_vrf_verify S (h_proposer_vrf_proof h) (leader_alpha seed (h_slot h)) (h_proposer h) of
           None \<Rightarrow> cs
         | Some beta \<Rightarrow>
           let (k, cs) = pending_alloc io cs;
               pa = snd (ac_state_get (ch_state (co_chain cs)) (h_proposer h));
               p = (co_pending cs ! k)\<lparr>pd_height := h_height h, pd_slot := h_slot h, pd_block_hash := ac_block_hash S h,
                     pd_block := b\<lparr>b_signers := []\<rparr>, pd_signers := take AC_COMMITTEE_MAX (b_signers b),
                     pd_priority := compute_priority S beta (ac_isqrt_u64 (acc_stake pa))\<rparr>;
               cs = record_priority (set_pending cs k p) (h_slot h) (pd_priority p)
           in try_commit S ld io cs k)"

definition ac_consensus_handle_block :: "sodium \<Rightarrow> rounding \<Rightarrow> ac_io \<Rightarrow> ac_consensus \<Rightarrow> bytes \<Rightarrow> ac_consensus" where
  "ac_consensus_handle_block S ld io cs buf =
     (case ac_block_decode buf of
        None \<Rightarrow> cs
      | Some (b, n) \<Rightarrow>
        if h_version (b_header b) \<noteq> AC_BLOCK_VERSION then cs
        else case pending_find (co_pending cs) (ac_block_hash S (b_header b)) of
            Some k \<Rightarrow>
              let p = co_pending cs ! k
              in try_commit S ld io (set_pending cs k (p\<lparr>pd_signers := foldl add_signer (pd_signers p) (b_signers b)\<rparr>)) k
          | None \<Rightarrow>
            let our_height = ch_height (co_chain cs)
            in if h_height (b_header b) > our_height + 1 then request_headers io cs (h_height (b_header b))
               else if h_height (b_header b) \<noteq> our_height + 1 \<or>
                       \<not> ac_hash_eq (h_parent_hash (b_header b)) (ch_tip_hash (co_chain cs)) then cs
               else stash_proposal S ld io cs b)"

definition ac_consensus_handle_vote :: "sodium \<Rightarrow> rounding \<Rightarrow> ac_io \<Rightarrow> ac_consensus \<Rightarrow> bytes \<Rightarrow> ac_consensus" where
  "ac_consensus_handle_vote S ld io cs buf =
     (case vote_decode buf of
        None \<Rightarrow> cs
      | Some v \<Rightarrow>
        if \<not> ac_verify S (vo_sig v) (ac_vote_message (vo_height v) (vo_block_hash v)) (vo_signer v) then cs
        else case pending_find (co_pending cs) (vo_block_hash v) of
            None \<Rightarrow> cs
          | Some k \<Rightarrow>
            let p = co_pending cs ! k;
                (seed, c) = ac_chain_epoch_seed S (co_chain cs) (ac_epoch_of (pd_slot p));
                cs = cs\<lparr>co_chain := c\<rparr>;
                total_sqrt = ac_chain_total_sqrt_stake c;
                sa = snd (ac_state_get (ch_state c) (vo_signer v))
            in if acc_stake sa < AC_MIN_STAKE_UCRD then cs
               else case ac_vrf_verify S (vo_proof v) (committee_alpha seed (pd_slot p)) (vo_signer v) of
                   None \<Rightarrow> cs
                 | Some beta \<Rightarrow>
                   if \<not> committee_eligible ld (ac_rd64 beta) (ac_isqrt_u64 (acc_stake sa)) total_sqrt then cs
                   else if list_ex (\<lambda>y. ac_addr_eq (cs_signer y) (vo_signer v)) (pd_signers p) then cs
                   else try_commit S ld io
                     (set_pending cs k (p\<lparr>pd_signers := add_signer (pd_signers p)
                        \<lparr>cs_signer = vo_signer v, cs_sig = vo_sig v, cs_vrf_proof = vo_proof v\<rparr>\<rparr>)) k)"

section \<open>Phases of a slot\<close>

definition slot_routine :: "sodium \<Rightarrow> rounding \<Rightarrow> ac_io \<Rightarrow> ac_consensus \<Rightarrow> u64 \<Rightarrow> ac_consensus" where
  "slot_routine S ld io cs slot =
     (if \<not> co_validator cs then cs
      else case am_i_leader S ld cs slot of
          (None, cs) \<Rightarrow> cs
        | (Some lproof, cs) \<Rightarrow>
          let snap = ac_mempool_snapshot (co_mempool cs) 256;
              cs = cs\<lparr>co_mempool := snd (ac_mempool_prune_expired (co_mempool cs) slot)\<rparr>
          in case ac_chain_build_block S (co_chain cs) slot (co_kp cs) snap of
               (None, c) \<Rightarrow> cs\<lparr>co_chain := c\<rparr>
             | (Some b, c) \<Rightarrow>
               let b = b\<lparr>b_header := (b_header b)\<lparr>h_proposer_vrf_proof := take AC_VRF_PROOF_SIZE lproof\<rparr>\<rparr>;
                   (k, cs) = pending_alloc io (cs\<lparr>co_chain := c\<rparr>);
                   me_acct = snd (ac_state_get (ch_state (co_chain cs)) (co_my_addr cs));
                   (pseed, c) = ac_chain_epoch_seed S (co_chain cs) (ac_epoch_of slot);
                   cs = cs\<lparr>co_chain := c\<rparr>;
                   pbeta = ac_vrf_verify S lproof (leader_alpha pseed slot) (kp_pk (co_kp cs));
                   p = (co_pending cs ! k)\<lparr>pd_height := h_height (b_header b), pd_slot := slot,
                         pd_block_hash := ac_block_hash S (b_header b), pd_block := b\<lparr>b_signers := []\<rparr>, pd_signers := [],
                         pd_priority := compute_priority S (the pbeta) (ac_isqrt_u64 (acc_stake me_acct))\<rparr>;
                   cs = record_priority (set_pending cs k p) slot (pd_priority p);
                   cs = (case ac_block_encode (pd_block p) of None \<Rightarrow> cs | Some enc \<Rightarrow> bcast cs AC_MSG_BLOCK_ANN enc)
               in try_commit S ld io cs k)"

text \<open>The pending block of lowest priority at the target height: the first one among equals.\<close>

fun best_pending :: "u64 \<Rightarrow> nat \<Rightarrow> (nat \<times> bytes) option \<Rightarrow> pending list \<Rightarrow> nat option" where
  "best_pending target_h i best [] = map_option fst best"
| "best_pending target_h i best (p # ps) =
     best_pending target_h (Suc i)
       (if \<not> pd_occupied p \<or> pd_committed p \<or> pd_height p \<noteq> target_h then best
        else case best of
            None \<Rightarrow> Some (i, pd_priority p)
          | Some (j, q) \<Rightarrow> if priority_cmp (pd_priority p) q < 0 then Some (i, pd_priority p) else best) ps"

fun locked_pending :: "u64 \<Rightarrow> ac_hash \<Rightarrow> pending list \<Rightarrow> nat option" where
  "locked_pending target_h bh [] = None"
| "locked_pending target_h bh (q # qs) =
     (if pd_occupied q \<and> \<not> pd_committed q \<and> pd_height q = target_h \<and> ac_hash_eq (pd_block_hash q) bh then Some 0
      else map_option Suc (locked_pending target_h bh qs))"

definition vote_phase :: "sodium \<Rightarrow> rounding \<Rightarrow> ac_io \<Rightarrow> ac_consensus \<Rightarrow> u64 \<Rightarrow> ac_consensus" where
  "vote_phase S ld io cs slot =
     (if \<not> co_validator cs then cs
      else let (i, cs) = slot_vote_for cs slot
        in if sv_voted (co_slot_votes cs ! i) then cs
           else let target_h = ch_height (co_chain cs) + 1
             in case best_pending target_h 0 None (co_pending cs) of
                  None \<Rightarrow> cs
                | Some k \<Rightarrow>
                  let best = co_pending cs ! k
                  in if co_vote_height cs = target_h \<and> priority_cmp (pd_priority best) (co_vote_priority cs) \<ge> 0 then
                       (case locked_pending target_h (co_vote_block cs) (co_pending cs) of
                          None \<Rightarrow> cs
                        | Some q \<Rightarrow> try_commit S ld io (our_vote_now S ld cs q) q)
                     else try_commit S ld io ((our_vote_now S ld cs k)\<lparr>co_vote_height := target_h,
                            co_vote_block := pd_block_hash best, co_vote_priority := pd_priority best\<rparr>) k)"

text \<open>The seal phase up to an entry of the table.\<close>

definition seal_upto :: "sodium \<Rightarrow> rounding \<Rightarrow> ac_io \<Rightarrow> u64 \<Rightarrow> ac_consensus \<Rightarrow> nat \<Rightarrow> ac_consensus" where
  "seal_upto S ld io slot cs n =
     foldl (\<lambda>cs k. let p = co_pending cs ! k
        in if \<not> pd_occupied p \<or> pd_slot p \<noteq> slot \<or> pd_committed p then cs else try_commit_inner S ld io cs k True)
       cs [0..<n]"

definition seal_phase :: "sodium \<Rightarrow> rounding \<Rightarrow> ac_io \<Rightarrow> ac_consensus \<Rightarrow> u64 \<Rightarrow> ac_consensus" where
  "seal_phase S ld io cs slot = seal_upto S ld io slot cs AC_PENDING_MAX"

section \<open>The slot thread\<close>

text \<open>
  \<^verbatim>\<open>slot_loop\<close> sleeps between the phases, and messages are handled meanwhile. A turn of the loop is what it
  does from one sleep to the next: test the running flag, run the phase, and read the clock (\<open>now\<close>) to
  find how long to sleep before the next phase.
\<close>

datatype loop_phase = Propose u64 | Vote u64 | Seal u64 | Stopped

definition wait_until :: "u64 \<Rightarrow> u64 \<Rightarrow> u64" where
  "wait_until t64 now = (if t64 > now then t64 - now else 0)"

text \<open>The alignment to the next slot: the slot and the sleep before it, from the clock read after genesis.\<close>

definition slot_loop_align :: "u64 \<Rightarrow> u64 \<Rightarrow> loop_phase \<times> u64" where
  "slot_loop_align genesis now =
     (let current_slot = (now - genesis) div AC_SLOT_DURATION_MS;
          slot_start = genesis + (current_slot + 1) * AC_SLOT_DURATION_MS
      in (Propose (current_slot + 1), wait_until slot_start now))"

fun slot_loop_turn ::
  "sodium \<Rightarrow> rounding \<Rightarrow> ac_io \<Rightarrow> bool \<Rightarrow> u64 \<Rightarrow> u64 \<Rightarrow> loop_phase \<Rightarrow> ac_consensus \<Rightarrow> loop_phase \<times> u64 \<times> ac_consensus" where
  "slot_loop_turn S ld io running genesis now (Propose slot) cs =
     (if \<not> running then (Stopped, 0, cs)
      else let slot_start = genesis + slot * AC_SLOT_DURATION_MS
        in (Vote slot, wait_until (slot_start + AC_VOTE_DELAY_MS) now, slot_routine S ld io cs slot))"
| "slot_loop_turn S ld io running genesis now (Vote slot) cs =
     (if \<not> running then (Stopped, 0, cs)
      else let slot_start = genesis + slot * AC_SLOT_DURATION_MS
        in (Seal slot, wait_until (slot_start + AC_VOTE_DELAY_MS + AC_SEAL_GRACE_MS) now, vote_phase S ld io cs slot))"
| "slot_loop_turn S ld io running genesis now (Seal slot) cs =
     (if \<not> running then (Stopped, 0, cs)
      else (Propose (slot + 1), wait_until (genesis + (slot + 1) * AC_SLOT_DURATION_MS) now, seal_phase S ld io cs slot))"
| "slot_loop_turn S ld io running genesis now Stopped cs = (Stopped, 0, cs)"

end
