(* ===== verification/Chain_Index.thy ===== *)
theory Chain_Index
  imports Chain_Rules "HOL-Library.Multiset"
begin

text \<open>
  The lookups of \<^verbatim>\<open>chain.c\<close>: sorting with a comparison function, the transaction index, the address
  history and the ranking of accounts.
\<close>

section \<open>Sorting by a comparison function\<close>

text \<open>What \<^verbatim>\<open>qsort\<close> demands of the comparison, on the elements that occur.\<close>

locale qsort_cmp =
  fixes cmp :: "'a \<Rightarrow> 'a \<Rightarrow> int"
    and good :: "'a \<Rightarrow> bool"
  assumes total: "good x \<Longrightarrow> good y \<Longrightarrow> 0 < cmp x y \<Longrightarrow> cmp y x < 0"
    and trans: "good x \<Longrightarrow> good y \<Longrightarrow> good z \<Longrightarrow> cmp x y \<le> 0 \<Longrightarrow> cmp y z \<le> 0 \<Longrightarrow> cmp x z \<le> 0"
begin

lemma mset_insort_by: "mset (insort_by cmp x xs) = add_mset x (mset xs)"
  by (induction xs) auto

lemma mset_qsort: "mset (qsort cmp xs) = mset xs"
  by (induction xs) (simp_all add: qsort_def mset_insort_by)

lemma set_qsort: "set (qsort cmp xs) = set xs"
  using mset_qsort by (rule mset_eq_setD)

lemma sorted_insort_by:
  assumes "good x" "list_all good xs" "sorted_wrt (\<lambda>x y. cmp x y \<le> 0) xs"
  shows "sorted_wrt (\<lambda>x y. cmp x y \<le> 0) (insort_by cmp x xs)"
  using assms
proof (induction xs)
  case (Cons y ys)
  have s: "set (insort_by cmp x ys) = insert x (set ys)"
    using mset_eq_setD [OF mset_insort_by [of x ys, folded mset.simps(2)]] by simp
  show ?case
  proof (cases "cmp x y \<le> 0")
    case True
    then show ?thesis using Cons.prems trans [of x y] by (auto simp: list_all_iff)
  next
    case False
    then have "cmp y x \<le> 0" using total [of x y] Cons.prems by simp
    then show ?thesis using False Cons by (simp add: s)
  qed
qed simp

lemma sorted_qsort: "list_all good xs \<Longrightarrow> sorted_wrt (\<lambda>x y. cmp x y \<le> 0) (qsort cmp xs)"
proof (induction xs)
  case (Cons x xs)
  have "list_all good (qsort cmp xs)" using Cons.prems by (simp add: list_all_iff set_qsort)
  then show ?case using Cons sorted_insort_by [of x "qsort cmp xs"] by (simp add: qsort_def)
qed (simp add: qsort_def)

end

lemma memcmp_swap: "0 < memcmp a b \<longleftrightarrow> memcmp b a < 0"
  by (induction a b rule: memcmp.induct) auto

lemma memcmp_val: "length a = length b \<Longrightarrow> memcmp a b = (if a < b then -1 else if a = b then 0 else 1)"
  by (induction a b rule: memcmp.induct) (auto simp: not_less)

lemma memcmp_trans:
  assumes "length a = n" "length b = n" "length c = n" "memcmp a b \<le> 0" "memcmp b c \<le> 0"
  shows "memcmp a c \<le> 0"
proof -
  have "a \<le> b" "b \<le> c" using assms memcmp_greater_iff [of a b] memcmp_greater_iff [of b c] by (auto simp: not_less [symmetric])
  then have "a \<le> c" by (rule order.trans)
  then show ?thesis using assms(1,3) memcmp_greater_iff [of a c] by (auto simp: not_less [symmetric])
qed

definition tx_entry_ok :: "tx_index_entry \<Rightarrow> bool" where
  "tx_entry_ok e \<longleftrightarrow> wf_hash (ti_hash e)"

definition addr_entry_ok :: "addr_index_entry \<Rightarrow> bool" where
  "addr_entry_ok e \<longleftrightarrow> wf_addr (ai_addr e)"

interpretation tx_order: qsort_cmp tx_index_cmp tx_entry_ok
proof
  fix x y z :: tx_index_entry
  assume "tx_entry_ok x" "tx_entry_ok y" "tx_entry_ok z" "tx_index_cmp x y \<le> 0" "tx_index_cmp y z \<le> 0"
  then show "tx_index_cmp x z \<le> 0"
    using memcmp_trans [of "ti_hash x" 32 "ti_hash y" "ti_hash z"] by (simp add: tx_index_cmp_def tx_entry_ok_def wf)
qed (simp add: tx_index_cmp_def memcmp_swap)

lemma addr_index_cmp_le:
  assumes "addr_entry_ok x" "addr_entry_ok y"
  shows "addr_index_cmp x y \<le> 0 \<longleftrightarrow> ai_addr x < ai_addr y \<or>
      ai_addr x = ai_addr y \<and> (ai_height x < ai_height y \<or> ai_height x = ai_height y \<and> ai_tx_idx x \<le> ai_tx_idx y)"
    and "0 < addr_index_cmp x y \<longleftrightarrow> addr_index_cmp y x < 0"
proof -
  have v: "memcmp (ai_addr x) (ai_addr y) = (if ai_addr x < ai_addr y then -1 else if ai_addr x = ai_addr y then 0 else 1)"
      "memcmp (ai_addr y) (ai_addr x) = (if ai_addr y < ai_addr x then -1 else if ai_addr y = ai_addr x then 0 else 1)"
    using assms by (simp_all add: memcmp_val addr_entry_ok_def wf)
  show "addr_index_cmp x y \<le> 0 \<longleftrightarrow> ai_addr x < ai_addr y \<or>
      ai_addr x = ai_addr y \<and> (ai_height x < ai_height y \<or> ai_height x = ai_height y \<and> ai_tx_idx x \<le> ai_tx_idx y)"
    unfolding addr_index_cmp_def Let_def v by (auto simp: not_less)
  show "0 < addr_index_cmp x y \<longleftrightarrow> addr_index_cmp y x < 0"
    unfolding addr_index_cmp_def Let_def v
    by (cases "ai_addr x" "ai_addr y" rule: linorder_cases; cases "ai_height x" "ai_height y" rule: linorder_cases;
        cases "ai_tx_idx x" "ai_tx_idx y" rule: linorder_cases) (auto dest: less_not_sym)
qed

interpretation addr_order: qsort_cmp addr_index_cmp addr_entry_ok
proof
  fix x y z :: addr_index_entry
  assume "addr_entry_ok x" "addr_entry_ok y" "addr_entry_ok z" "addr_index_cmp x y \<le> 0" "addr_index_cmp y z \<le> 0"
  then show "addr_index_cmp x z \<le> 0"
    unfolding addr_index_cmp_le(1) [OF \<open>addr_entry_ok x\<close> \<open>addr_entry_ok y\<close>]
      addr_index_cmp_le(1) [OF \<open>addr_entry_ok y\<close> \<open>addr_entry_ok z\<close>]
      addr_index_cmp_le(1) [OF \<open>addr_entry_ok x\<close> \<open>addr_entry_ok z\<close>]
    by (elim disjE conjE) (simp_all, (meson less_trans)+)
qed (simp add: addr_index_cmp_le(2))

lemma top_cmp_le:
  assumes "wf_account x" "wf_account y"
  shows "top_cmp_balance x y \<le> 0 \<longleftrightarrow> acc_balance y < acc_balance x \<or> acc_balance x = acc_balance y \<and> acc_addr x \<le> acc_addr y"
    and "top_cmp_stake x y \<le> 0 \<longleftrightarrow> acc_stake y < acc_stake x \<or> acc_stake x = acc_stake y \<and> acc_addr x \<le> acc_addr y"
    and "0 < top_cmp_balance x y \<longleftrightarrow> top_cmp_balance y x < 0" "0 < top_cmp_stake x y \<longleftrightarrow> top_cmp_stake y x < 0"
proof -
  have v: "memcmp (acc_addr x) (acc_addr y) = (if acc_addr x < acc_addr y then -1 else if acc_addr x = acc_addr y then 0 else 1)"
      "memcmp (acc_addr y) (acc_addr x) = (if acc_addr y < acc_addr x then -1 else if acc_addr y = acc_addr x then 0 else 1)"
    using assms by (simp_all add: memcmp_val wf_account_def wf)
  show "top_cmp_balance x y \<le> 0 \<longleftrightarrow> acc_balance y < acc_balance x \<or> acc_balance x = acc_balance y \<and> acc_addr x \<le> acc_addr y"
    unfolding top_cmp_balance_def v by (auto simp: le_less)
  show "top_cmp_stake x y \<le> 0 \<longleftrightarrow> acc_stake y < acc_stake x \<or> acc_stake x = acc_stake y \<and> acc_addr x \<le> acc_addr y"
    unfolding top_cmp_stake_def v by (auto simp: le_less)
  show "0 < top_cmp_balance x y \<longleftrightarrow> top_cmp_balance y x < 0"
    unfolding top_cmp_balance_def v
    by (cases "acc_addr x" "acc_addr y" rule: linorder_cases; cases "acc_balance x" "acc_balance y" rule: linorder_cases)
      (auto dest: less_not_sym)
  show "0 < top_cmp_stake x y \<longleftrightarrow> top_cmp_stake y x < 0"
    unfolding top_cmp_stake_def v
    by (cases "acc_addr x" "acc_addr y" rule: linorder_cases; cases "acc_stake x" "acc_stake y" rule: linorder_cases)
      (auto dest: less_not_sym)
qed

interpretation by_balance: qsort_cmp top_cmp_balance wf_account
proof
  fix x y z :: ac_account
  assume "wf_account x" "wf_account y" "wf_account z" "top_cmp_balance x y \<le> 0" "top_cmp_balance y z \<le> 0"
  then show "top_cmp_balance x z \<le> 0" by (auto simp: top_cmp_le)
qed (simp add: top_cmp_le)

interpretation by_stake: qsort_cmp top_cmp_stake wf_account
proof
  fix x y z :: ac_account
  assume "wf_account x" "wf_account y" "wf_account z" "top_cmp_stake x y \<le> 0" "top_cmp_stake y z \<le> 0"
  then show "top_cmp_stake x z \<le> 0" by (auto simp: top_cmp_le)
qed (simp add: top_cmp_le)

section \<open>Searching with equal keys\<close>

text \<open>The search on an array in which the sign of the comparison only grows.\<close>

definition signs_grow :: "('e \<Rightarrow> int) \<Rightarrow> 'e list \<Rightarrow> bool" where
  "signs_grow c xs \<longleftrightarrow> sorted_wrt (\<lambda>x y. (0 < c x \<longrightarrow> 0 < c y) \<and> (c y < 0 \<longrightarrow> c x < 0)) xs"

lemma signs_growD:
  assumes "signs_grow c xs" "i \<le> j" "j < length xs"
  shows "0 < c (xs ! i) \<Longrightarrow> 0 < c (xs ! j)" "c (xs ! j) < 0 \<Longrightarrow> c (xs ! i) < 0"
  using assms sorted_wrt_nth_less [OF assms(1) [unfolded signs_grow_def], of i j] by (cases "i = j"; simp)+

lemma bsearch_signs_range:
  assumes "signs_grow c xs" "0 \<le> lo" "lo \<le> hi + 1" "hi < int (length xs)"
    and "\<And>i. i < nat lo \<Longrightarrow> c (xs ! i) < 0" "\<And>i. hi < int i \<Longrightarrow> i < length xs \<Longrightarrow> 0 < c (xs ! i)"
  shows "if bsearch c xs lo hi < 0 then \<forall>e\<in>set xs. c e \<noteq> 0
    else nat (bsearch c xs lo hi) < length xs \<and> c (xs ! nat (bsearch c xs lo hi)) = 0"
  using assms
proof (induction c xs lo hi rule: bsearch.induct)
  case (1 c xs lo hi)
  show ?case
  proof (cases "lo \<le> hi")
    case False
    have "c (xs ! i) \<noteq> 0" if "i < length xs" for i
    proof (cases "i < nat lo")
      case below: False
      then have "hi < int i" using False "1.prems"(2) by linarith
      then show ?thesis using "1.prems"(6) that by force
    qed (use "1.prems"(5) [of i] in simp)
    then show ?thesis using False "1.prems"(2) by (simp add: bsearch.simps all_set_conv_all_nth)
  next
    case True
    define mid where "mid = (lo + hi) div 2"
    have mid: "lo \<le> mid" "mid \<le> hi" "0 \<le> mid" "nat mid < length xs"
      using True "1.prems"(2,4) by (auto simp: mid_def)
    have unfold: "bsearch c xs lo hi = (if c (xs ! nat mid) = 0 then mid
        else if c (xs ! nat mid) < 0 then bsearch c xs (mid + 1) hi else bsearch c xs lo (mid - 1))"
      using True by (subst bsearch.simps) (simp add: Let_def mid_def)
    consider "c (xs ! nat mid) = 0" | "c (xs ! nat mid) < 0" | "0 < c (xs ! nat mid)" by linarith
    then show ?thesis
    proof cases
      case 1
      then show ?thesis using mid unfold by simp
    next
      case 2
      have "c (xs ! i) < 0" if "i < nat (mid + 1)" for i
        using signs_growD(2) [OF "1.prems"(1), of i "nat mid"] that mid 2 by simp
      then show ?thesis
        using "1.IH"(1) [OF True mid_def refl _ 2] "1.prems" mid 2 unfold by simp
    next
      case 3
      have "0 < c (xs ! i)" if "mid - 1 < int i" "i < length xs" for i
        using signs_growD(1) [OF "1.prems"(1), of "nat mid" i] that mid 3 by simp
      moreover have "bsearch c xs lo hi = bsearch c xs lo (mid - 1)" using unfold 3 by simp
      ultimately show ?thesis
        using "1.IH"(2) [OF True mid_def refl] "1.prems" mid 3 by simp
    qed
  qed
qed

lemma bsearch_signs:
  assumes "signs_grow c xs"
  shows "if bsearch c xs 0 (int (length xs) - 1) < 0 then \<forall>e\<in>set xs. c e \<noteq> 0
    else nat (bsearch c xs 0 (int (length xs) - 1)) < length xs \<and> c (xs ! nat (bsearch c xs 0 (int (length xs) - 1))) = 0"
  by (rule bsearch_signs_range [OF assms]) auto

section \<open>Transactions by hash\<close>

definition index_ok :: "ac_chain \<Rightarrow> bool" where
  "index_ok c \<longleftrightarrow> list_all tx_entry_ok (ch_tx_index c) \<and> list_all addr_entry_ok (ch_addr_index c) \<and>
     (ch_tx_index_sorted c \<longrightarrow> sorted_wrt (\<lambda>x y. tx_index_cmp x y \<le> 0) (ch_tx_index c)) \<and>
     (ch_addr_index_sorted c \<longrightarrow> sorted_wrt (\<lambda>x y. addr_index_cmp x y \<le> 0) (ch_addr_index c))"

lemma tx_index_sort_spec:
  assumes "index_ok c"
  shows "mset (ch_tx_index (tx_index_sort c)) = mset (ch_tx_index c)" "index_ok (tx_index_sort c)"
    "sorted_wrt (\<lambda>x y. tx_index_cmp x y \<le> 0) (ch_tx_index (tx_index_sort c))"
  using assms tx_order.sorted_qsort [of "ch_tx_index c"]
  by (auto simp: tx_index_sort_def tx_order.mset_qsort index_ok_def list_all_iff tx_order.set_qsort)

lemma addr_index_sort_spec:
  assumes "index_ok c"
  shows "mset (ch_addr_index (addr_index_sort c)) = mset (ch_addr_index c)" "index_ok (addr_index_sort c)"
    "sorted_wrt (\<lambda>x y. addr_index_cmp x y \<le> 0) (ch_addr_index (addr_index_sort c))"
  using assms addr_order.sorted_qsort [of "ch_addr_index c"]
  by (auto simp: addr_index_sort_def addr_order.mset_qsort index_ok_def list_all_iff addr_order.set_qsort)

lemma tx_signs_grow:
  assumes "list_all tx_entry_ok xs" "sorted_wrt (\<lambda>x y. tx_index_cmp x y \<le> 0) xs" "wf_hash h"
  shows "signs_grow (\<lambda>e. memcmp (ti_hash e) h) xs"
  unfolding signs_grow_def
proof (rule sorted_wrt_mono_rel [OF _ assms(2)])
  fix x y
  assume "x \<in> set xs" "y \<in> set xs" "tx_index_cmp x y \<le> 0"
  then have "length (ti_hash x) = 32" "length (ti_hash y) = 32" "length h = 32" "\<not> ti_hash y < ti_hash x"
    using assms(1,3) memcmp_greater_iff [of "ti_hash x" "ti_hash y"]
    by (auto simp: list_all_iff tx_entry_ok_def wf tx_index_cmp_def)
  then show "(0 < memcmp (ti_hash x) h \<longrightarrow> 0 < memcmp (ti_hash y) h) \<and> (memcmp (ti_hash y) h < 0 \<longrightarrow> memcmp (ti_hash x) h < 0)"
    by (auto simp: memcmp_iffs not_less dest: less_le_trans le_less_trans)
qed

text \<open>
  A transaction is found by its hash exactly if the index has an entry for it, and the height
  and position returned are those of such an entry. The lookup may sort the index but neither adds nor
  loses an entry.
\<close>

theorem tx_find_spec:
  assumes "index_ok c" "wf_hash h" "ac_chain_tx_find c h = (r, c')"
  shows "(r = None \<longleftrightarrow> h \<notin> ti_hash ` set (ch_tx_index c)) \<and>
    (\<forall>height idx. r = Some (height, idx) \<longrightarrow>
       \<lparr>ti_hash = h, ti_height = height, ti_tx_idx = idx\<rparr> \<in> set (ch_tx_index c)) \<and>
    mset (ch_tx_index c') = mset (ch_tx_index c) \<and> index_ok c' \<and>
    c' = c\<lparr>ch_tx_index := ch_tx_index c', ch_tx_index_sorted := ch_tx_index_sorted c'\<rparr>"
proof (cases "ch_tx_index c = []")
  case True
  then show ?thesis using assms by (simp add: ac_chain_tx_find_def)
next
  case False
  let ?xs = "ch_tx_index (tx_index_sort c)" and ?c = "\<lambda>e. memcmp (ti_hash e) h"
  define i where "i = bsearch ?c ?xs 0 (int (length ?xs) - 1)"
  define e where "e = ?xs ! nat i"
  note so = tx_index_sort_spec [OF assms(1)]
  have ok: "list_all tx_entry_ok ?xs" using so(2) by (simp add: index_ok_def)
  have set: "set ?xs = set (ch_tx_index c)" using so(1) by (rule mset_eq_setD)
  have eq: "?c e = 0 \<longleftrightarrow> ti_hash e = h" if "e \<in> set ?xs" for e
    using that ok assms(2) memcmp_eq_iff [of "ti_hash e" h] by (simp add: list_all_iff tx_entry_ok_def wf)
  note bs = bsearch_signs [OF tx_signs_grow [OF ok so(3) assms(2)], folded i_def]
  have r: "r = (if i < 0 then None else Some (ti_height e, ti_tx_idx e))" "c' = tx_index_sort c"
    using assms(3) False by (auto simp: ac_chain_tx_find_def Let_def i_def e_def split: if_splits)
  have f: "e \<in> set (ch_tx_index c) \<and> ti_hash e = h" if "\<not> i < 0"
    using bs that eq [of e] nth_mem [of "nat i" ?xs] set by (simp add: e_def)
  have "e = \<lparr>ti_hash = ti_hash e, ti_height = ti_height e, ti_tx_idx = ti_tx_idx e\<rparr>" by simp
  then have "\<lparr>ti_hash = h, ti_height = ti_height e, ti_tx_idx = ti_tx_idx e\<rparr> \<in> set (ch_tx_index c)" if "\<not> i < 0"
    using f [OF that] by metis
  moreover have "i < 0 \<longleftrightarrow> h \<notin> ti_hash ` set (ch_tx_index c)"
    using bs f eq set by (cases "i < 0") (auto intro: rev_image_eqI)
  moreover have "tx_index_sort c = c\<lparr>ch_tx_index := ?xs, ch_tx_index_sorted := ch_tx_index_sorted (tx_index_sort c)\<rparr>"
    by (simp add: tx_index_sort_def)
  ultimately show ?thesis using r so by auto
qed

definition demo_index :: ac_chain where
  "demo_index = (chain_zero Map.empty None None)\<lparr>ch_tx_index :=
     [\<lparr>ti_hash = 9 # zeros 31, ti_height = 4, ti_tx_idx = 0\<rparr>, \<lparr>ti_hash = 2 # zeros 31, ti_height = 5, ti_tx_idx = 1\<rparr>,
      \<lparr>ti_hash = 5 # zeros 31, ti_height = 5, ti_tx_idx = 2\<rparr>]\<rparr>"

theorem tx_find_spec_witness:
  "fst (ac_chain_tx_find demo_index (2 # zeros 31)) \<noteq> None \<and> fst (ac_chain_tx_find demo_index (3 # zeros 31)) = None"
proof -
  have i: "index_ok demo_index" by (simp add: index_ok_def demo_index_def chain_zero_def tx_entry_ok_def wf)
  have h: "wf_hash (2 # zeros 31)" "wf_hash (3 # zeros 31)" by (simp_all add: wf)
  have m: "2 # zeros 31 \<in> ti_hash ` set (ch_tx_index demo_index)" "3 # zeros 31 \<notin> ti_hash ` set (ch_tx_index demo_index)"
    by (simp_all add: demo_index_def)
  show ?thesis
    using tx_find_spec [OF i h(1) surjective_pairing] tx_find_spec [OF i h(2) surjective_pairing] m by simp
qed

section \<open>History of an address\<close>

lemma lower_bound_range:
  assumes "\<And>i j. i \<le> j \<Longrightarrow> j < length xs \<Longrightarrow> memcmp (ai_addr (xs ! j)) a < 0 \<Longrightarrow> memcmp (ai_addr (xs ! i)) a < 0"
    and "lo \<le> hi" "hi \<le> length xs" "\<And>i. i < lo \<Longrightarrow> memcmp (ai_addr (xs ! i)) a < 0"
    and "\<And>i. hi \<le> i \<Longrightarrow> i < length xs \<Longrightarrow> \<not> memcmp (ai_addr (xs ! i)) a < 0"
  shows "lower_bound xs a lo hi = length (takeWhile (\<lambda>e. memcmp (ai_addr e) a < 0) xs)"
  using assms
proof (induction xs a lo hi rule: lower_bound.induct)
  case (1 xs a lo hi)
  define mid where "mid = lo + (hi - lo) div 2"
  have unfold: "lower_bound xs a lo hi = (if lo < hi then if memcmp (ai_addr (xs ! mid)) a < 0
      then lower_bound xs a (mid + 1) hi else lower_bound xs a lo mid else lo)"
    by (subst lower_bound.simps) (simp add: Let_def mid_def)
  consider "\<not> lo < hi" | "lo < hi" "memcmp (ai_addr (xs ! mid)) a < 0" | "lo < hi" "\<not> memcmp (ai_addr (xs ! mid)) a < 0" by blast
  then show ?case
  proof cases
    case 1
    then have "lo = hi" using "1.prems"(2) by simp
    have "takeWhile (\<lambda>e. memcmp (ai_addr e) a < 0) xs = take lo xs"
      by (rule takeWhile_eq_take_P_nth) (use "1.prems" \<open>lo = hi\<close> in auto)
    then show ?thesis using unfold 1 "1.prems"(3) \<open>lo = hi\<close> by simp
  next
    case 2
    have mid: "mid < hi" using 2 by (simp add: mid_def)
    have "memcmp (ai_addr (xs ! i)) a < 0" if "i < mid + 1" for i
      using "1.prems"(1) [of i mid] that mid 2 "1.prems"(3) by simp
    then show ?thesis using "1.IH"(1) [OF 2(1) mid_def 2(2)] "1.prems" mid unfold 2 by simp
  next
    case 3
    have mid: "lo \<le> mid" "mid < hi" using 3 by (simp_all add: mid_def)
    have "\<not> memcmp (ai_addr (xs ! i)) a < 0" if "mid \<le> i" "i < length xs" for i
      using "1.prems"(1) [of mid i] that 3 by blast
    then show ?thesis using "1.IH"(2) [OF 3(1) mid_def 3(2)] "1.prems" mid unfold 3 by simp
  qed
qed

definition addr_view :: "addr_index_entry \<Rightarrow> ac_addr_tx_entry" where
  "addr_view e = \<lparr>ae_height = ai_height e, ae_tx_idx = ai_tx_idx e, ae_role = ai_role e\<rparr>"

lemma addr_walk_eq: "addr_walk a n es = map addr_view (take n (takeWhile (\<lambda>e. memcmp (ai_addr e) a = 0) es))"
  by (induction a n es rule: addr_walk.induct) (simp_all add: addr_view_def)

lemma sorted_middle:
  fixes key :: "'e \<Rightarrow> 'k :: linorder"
  assumes "sorted_wrt (\<lambda>x y. key x \<le> key y) xs"
  shows "takeWhile (\<lambda>e. key e = k) (dropWhile (\<lambda>e. key e < k) xs) = filter (\<lambda>e. key e = k) xs"
  using assms
proof (induction xs)
  case (Cons x xs)
  have "filter (\<lambda>e. key e = k) xs = []" if "k < key x"
    using that Cons.prems by (force simp: filter_empty_conv)
  moreover have "dropWhile (\<lambda>e. key e < k) xs = xs" if "key x = k"
    using that Cons.prems by (cases xs) auto
  ultimately show ?case using Cons by (cases "key x" k rule: linorder_cases) auto
qed simp

text \<open>
  Claim C33. The history of an address consists of its first 256 entries in the order of height and
  position, latest first, cut to the capacity. An address with more than 256 entries therefore never
  sees its newest transactions.
\<close>

theorem addr_txs_spec:
  assumes "index_ok c" "wf_addr a"
  shows "\<exists>xs. mset xs = mset (ch_addr_index c) \<and> sorted_wrt (\<lambda>x y. addr_index_cmp x y \<le> 0) xs \<and>
    fst (ac_chain_addr_txs c a cap) = take cap (rev (take 256 (map addr_view (filter (\<lambda>e. ai_addr e = a) xs))))"
proof (cases "ch_addr_index c = [] \<or> cap = 0")
  case True
  then show ?thesis
    using addr_index_sort_spec [OF assms(1)] by (intro exI [of _ "ch_addr_index (addr_index_sort c)"])
      (auto simp: ac_chain_addr_txs_def)
next
  case False
  let ?xs = "ch_addr_index (addr_index_sort c)"
  note so = addr_index_sort_spec [OF assms(1)]
  have ok: "\<And>e. e \<in> set ?xs \<Longrightarrow> addr_entry_ok e" using so(2) by (simp add: index_ok_def list_all_iff)
  have le: "sorted_wrt (\<lambda>x y. ai_addr x \<le> ai_addr y) ?xs"
    by (rule sorted_wrt_mono_rel [OF _ so(3)]) (auto simp: addr_index_cmp_le(1) ok)
  have c: "memcmp (ai_addr e) a < 0 \<longleftrightarrow> ai_addr e < a" "memcmp (ai_addr e) a = 0 \<longleftrightarrow> ai_addr e = a" if "e \<in> set ?xs" for e
    using ok [OF that] assms(2) by (simp_all add: memcmp_iffs addr_entry_ok_def wf)
  have "memcmp (ai_addr (?xs ! i)) a < 0" if "i \<le> j" "j < length ?xs" "memcmp (ai_addr (?xs ! j)) a < 0" for i j
    using that sorted_wrt_nth_less [OF le, of i j] c(1) [of "?xs ! j"] c(1) [of "?xs ! i"]
    by (cases "i = j") auto
  then have lb: "lower_bound ?xs a 0 (length ?xs) = length (takeWhile (\<lambda>e. memcmp (ai_addr e) a < 0) ?xs)"
    by (rule lower_bound_range) auto
  have tw: "takeWhile (\<lambda>e. memcmp (ai_addr e) a < 0) ?xs = takeWhile (\<lambda>e. ai_addr e < a) ?xs"
    by (rule takeWhile_cong) (simp_all add: c)
  have "takeWhile (\<lambda>e. memcmp (ai_addr e) a = 0) (dropWhile (\<lambda>e. ai_addr e < a) ?xs) = filter (\<lambda>e. ai_addr e = a) ?xs"
    unfolding sorted_middle [OF le, symmetric] by (rule takeWhile_cong) (auto simp: c dest: set_dropWhileD)
  then have "fst (ac_chain_addr_txs c a cap) = take cap (rev (take 256 (map addr_view (filter (\<lambda>e. ai_addr e = a) ?xs))))"
    using False by (simp add: ac_chain_addr_txs_def Let_def lb tw addr_walk_eq take_map dropWhile_eq_drop [symmetric])
  with so show ?thesis by blast
qed

definition demo_history :: ac_chain where
  "demo_history = (chain_zero Map.empty None None)\<lparr>ch_addr_index :=
     [\<lparr>ai_addr = 2 # zeros 31, ai_height = 7, ai_tx_idx = 0, ai_role = 1\<rparr>, \<lparr>ai_addr = 1 # zeros 31, ai_height = 5, ai_tx_idx = 0, ai_role = 0\<rparr>,
      \<lparr>ai_addr = 2 # zeros 31, ai_height = 5, ai_tx_idx = 3, ai_role = 0\<rparr>]\<rparr>"

theorem addr_txs_spec_witness:
  "\<exists>xs. mset xs = mset (ch_addr_index demo_history) \<and>
     fst (ac_chain_addr_txs demo_history (2 # zeros 31) 10) =
       take 10 (rev (take 256 (map addr_view (filter (\<lambda>e. ai_addr e = 2 # zeros 31) xs)))) \<and>
     fst (ac_chain_addr_txs demo_history (2 # zeros 31) 10) =
       [\<lparr>ae_height = 7, ae_tx_idx = 0, ae_role = 1\<rparr>, \<lparr>ae_height = 5, ae_tx_idx = 3, ae_role = 0\<rparr>]"
proof -
  have i: "index_ok demo_history" by (simp add: index_ok_def demo_history_def chain_zero_def addr_entry_ok_def wf)
  have w: "wf_addr (2 # zeros 31)" by (simp add: wf)
  have "fst (ac_chain_addr_txs demo_history (2 # zeros 31) 10) =
      [\<lparr>ae_height = 7, ae_tx_idx = 0, ae_role = 1\<rparr>, \<lparr>ae_height = 5, ae_tx_idx = 3, ae_role = 0\<rparr>]" by code_simp
  then show ?thesis using addr_txs_spec [OF i w, of 10] by fastforce
qed

section \<open>Rankings\<close>

text \<open>
  The rankings are right: the reported accounts followed by the others are all accounts (for
  validators: all with the minimum stake), ordered by descending balance or stake, and as many are
  reported as the capacity allows.
\<close>

theorem top_accounts_spec:
  assumes "wf_state (ch_state c)"
  shows "(\<exists>rest. mset (ac_chain_top_accounts_by_balance c cap @ rest) = mset (st_accounts (ch_state c)) \<and>
      sorted_wrt (\<lambda>x y. acc_balance y \<le> acc_balance x) (ac_chain_top_accounts_by_balance c cap @ rest) \<and>
      length (ac_chain_top_accounts_by_balance c cap) = min cap (length (st_accounts (ch_state c)))) \<and>
    (\<exists>rest. mset (ac_chain_top_validators c cap @ rest) = mset (active_validators (ch_state c)) \<and>
      sorted_wrt (\<lambda>x y. acc_stake y \<le> acc_stake x) (ac_chain_top_validators c cap @ rest) \<and>
      length (ac_chain_top_validators c cap) = min cap (ac_chain_active_count c))"
proof
  let ?a = "st_accounts (ch_state c)" and ?v = "active_validators (ch_state c)"
  have w: "list_all wf_account ?a" "list_all wf_account ?v"
    using assms by (auto simp: wf_state_def list_all_iff active_validators_def)
  have "sorted_wrt (\<lambda>x y. acc_balance y \<le> acc_balance x) (qsort top_cmp_balance ?a)"
    by (rule sorted_wrt_mono_rel [OF _ by_balance.sorted_qsort [OF w(1)]])
      (use w(1) in \<open>auto simp: by_balance.set_qsort list_all_iff top_cmp_le\<close>)
  then show "\<exists>rest. mset (ac_chain_top_accounts_by_balance c cap @ rest) = mset ?a \<and>
      sorted_wrt (\<lambda>x y. acc_balance y \<le> acc_balance x) (ac_chain_top_accounts_by_balance c cap @ rest) \<and>
      length (ac_chain_top_accounts_by_balance c cap) = min cap (length ?a)"
    using by_balance.mset_qsort [of ?a] mset_eq_length [OF by_balance.mset_qsort [of ?a]]
    by (intro exI [of _ "drop cap (qsort top_cmp_balance ?a)"])
      (simp add: ac_chain_top_accounts_by_balance_def chain_top_accounts_def min.commute)
  have "sorted_wrt (\<lambda>x y. acc_stake y \<le> acc_stake x) (qsort top_cmp_stake ?v)"
    by (rule sorted_wrt_mono_rel [OF _ by_stake.sorted_qsort [OF w(2)]])
      (use w(2) in \<open>auto simp: by_stake.set_qsort list_all_iff top_cmp_le\<close>)
  then show "\<exists>rest. mset (ac_chain_top_validators c cap @ rest) = mset ?v \<and>
      sorted_wrt (\<lambda>x y. acc_stake y \<le> acc_stake x) (ac_chain_top_validators c cap @ rest) \<and>
      length (ac_chain_top_validators c cap) = min cap (ac_chain_active_count c)"
    using by_stake.mset_qsort [of ?v] mset_eq_length [OF by_stake.mset_qsort [of ?v]]
    by (intro exI [of _ "drop cap (qsort top_cmp_stake ?v)"])
      (simp add: ac_chain_top_validators_def chain_top_accounts_def active_validators_def ac_chain_active_count_def min.commute)
qed

theorem top_accounts_spec_witness:
  "length (ac_chain_top_validators ((chain_zero Map.empty None None)\<lparr>ch_state := demo_state\<rparr>) 5) =
     min 5 (ac_chain_active_count ((chain_zero Map.empty None None)\<lparr>ch_state := demo_state\<rparr>))"
  using top_accounts_spec [of "(chain_zero Map.empty None None)\<lparr>ch_state := demo_state\<rparr>" 5] wf_demo_state by auto

end
