(* ===== verification/Chain_Run.thy ===== *)
theory Chain_Run
  imports Ledger Chain_Index
begin

text \<open>
  Runs of a chain: genesis, then any sequence of accepted and rejected blocks, built blocks, lookups and
  restarts from disk. The invariant of every reachable chain, and what a restart gives back.
\<close>

section \<open>Runs\<close>

definition io_ok :: "ac_io \<Rightarrow> bool" where
  "io_ok io \<longleftrightarrow> io_block_ok io \<and> io_state_ok io \<and> io_meta_ok io"

definition wf_genesis :: "ac_genesis \<Rightarrow> bool" where
  "wf_genesis g \<longleftrightarrow> list_all (\<lambda>ga. wf_addr (ga_addr ga)) (g_accounts g) \<and> distinct (map ga_addr (g_accounts g))"

text \<open>
  A state is saved with 32-bit counts, so a run continues from a chain with fewer than $2^{32}$ accounts
  and names. \<open>reopen\<close> is a restart of the process on the same data directory.
\<close>

inductive chain_reach :: "sodium \<Rightarrow> rounding \<Rightarrow> ac_chain \<Rightarrow> bool" for S ld where
  genesis: "wf_genesis g \<Longrightarrow> io_ok io \<Longrightarrow> ac_chain_open S io blocks st None (Some g) = Some c \<Longrightarrow> chain_reach S ld c"
| accept: "chain_reach S ld c \<Longrightarrow> small_state (ch_state c) \<Longrightarrow> wf_block b \<Longrightarrow> io_ok io \<Longrightarrow>
    chain_reach S ld (snd (ac_chain_accept_block S ld io c b))"
| build: "chain_reach S ld c \<Longrightarrow> small_state (ch_state c) \<Longrightarrow> list_all wf_tx cands \<Longrightarrow> wf_addr (kp_pk kp) \<Longrightarrow>
    chain_reach S ld (snd (ac_chain_build_block S c slot kp cands))"
| seed: "chain_reach S ld c \<Longrightarrow> chain_reach S ld (snd (ac_chain_epoch_seed S c epoch))"
| find: "chain_reach S ld c \<Longrightarrow> wf_hash h \<Longrightarrow> chain_reach S ld (snd (ac_chain_tx_find c h))"
| history: "chain_reach S ld c \<Longrightarrow> chain_reach S ld (snd (ac_chain_addr_txs c a cap))"
| reopen: "chain_reach S ld c \<Longrightarrow> small_state (ch_state c) \<Longrightarrow>
    ac_chain_open S io (ch_disk_blocks c) (ch_disk_state c) (ch_disk_meta c) g = Some c' \<Longrightarrow> chain_reach S ld c'"

section \<open>The invariant\<close>

definition header_at :: "ac_chain \<Rightarrow> nat \<Rightarrow> ac_block_header" where
  "header_at c n = b_header (the (block_read c (of_nat n)))"

definition all_txs :: "sodium \<Rightarrow> ac_chain \<Rightarrow> nat \<Rightarrow> tx_index_entry list" where
  "all_txs S c n = concat (map (\<lambda>k. tx_entries S (of_nat k) 0 (b_txs (the (block_read c (of_nat k))))) [1..<Suc n])"

definition all_addrs :: "ac_chain \<Rightarrow> nat \<Rightarrow> addr_index_entry list" where
  "all_addrs c n = concat (map (\<lambda>k. addr_entries (of_nat k) 0 (b_txs (the (block_read c (of_nat k))))) [1..<Suc n])"

text \<open>Memory: the state is sorted, the cached seed right, the maps and indexes well-formed.\<close>

definition memory_ok :: "sodium \<Rightarrow> ac_chain \<Rightarrow> bool" where
  "memory_ok S c \<longleftrightarrow> wf_state (ch_state c) \<and> st_chain_id (ch_state c) = ch_chain_id c \<and> cache_ok S c \<and>
     live_ok (ch_live_map c) \<and> index_ok c"

text \<open>Block files: one per height, linked by hashes, with growing slots; the last one is the tip.\<close>

definition blocks_ok :: "sodium \<Rightarrow> ac_chain \<Rightarrow> bool" where
  "blocks_ok S c \<longleftrightarrow>
     (\<forall>n\<le>unat (ch_height c). \<exists>b. block_read c (of_nat n) = Some b \<and> wf_block b \<and> h_height (b_header b) = of_nat n) \<and>
     (\<forall>n<unat (ch_height c). h_parent_hash (header_at c (Suc n)) = ac_block_hash S (header_at c n) \<and>
        h_slot (header_at c n) < h_slot (header_at c (Suc n))) \<and>
     (let h = header_at c (unat (ch_height c))
      in ch_tip_hash c = ac_block_hash S h \<and> ch_last_slot c = h_slot h \<and> ch_last_timestamp_ms c = h_timestamp_ms h \<and>
         ch_base_fee c = h_base_fee h \<and> h_state_root h = ac_state_root S (ch_state c))"

definition disk_ok :: "ac_chain \<Rightarrow> bool" where
  "disk_ok c \<longleftrightarrow> ch_disk_state c = Some (ac_state_serialize (ch_state c)) \<and> ch_disk_meta c = Some (meta_bytes c)"

definition indexed_ok :: "sodium \<Rightarrow> ac_chain \<Rightarrow> bool" where
  "indexed_ok S c \<longleftrightarrow> mset (ch_tx_index c) = mset (all_txs S c (unat (ch_height c))) \<and>
     mset (ch_addr_index c) = mset (all_addrs c (unat (ch_height c)))"

definition chain_inv :: "sodium \<Rightarrow> ac_chain \<Rightarrow> bool" where
  "chain_inv S c \<longleftrightarrow> memory_ok S c \<and> blocks_ok S c \<and> disk_ok c \<and> indexed_ok S c"

lemmas chain_inv_defs = chain_inv_def memory_ok_def blocks_ok_def disk_ok_def indexed_ok_def

lemma block_read_cong: "ch_disk_blocks c = ch_disk_blocks c' \<Longrightarrow> block_read c k = block_read c' k"
  by (simp add: block_read_def)

lemma same_cache_inv:
  assumes "same_but_cache c c'" "cache_ok S c'" "chain_inv S c"
  shows "chain_inv S c'"
proof -
  note f = same_but_cache_fields [OF assms(1)]
  have "block_read c' k = block_read c k" for k by (rule block_read_cong) (simp add: f)
  then have "header_at c' n = header_at c n" "all_txs S c' n = all_txs S c n" "all_addrs c' n = all_addrs c n" for n
    by (simp_all add: header_at_def all_txs_def all_addrs_def)
  then show ?thesis
    using assms(2,3) \<open>\<And>k. block_read c' k = block_read c k\<close>
    by (simp add: chain_inv_defs f index_ok_def meta_bytes_def)
qed

text \<open>Two chains that differ at most in the order of the index entries.\<close>

definition same_but_index :: "ac_chain \<Rightarrow> ac_chain \<Rightarrow> bool" where
  "same_but_index c c' \<longleftrightarrow> c' = c\<lparr>ch_tx_index := ch_tx_index c', ch_tx_index_sorted := ch_tx_index_sorted c',
       ch_addr_index := ch_addr_index c', ch_addr_index_sorted := ch_addr_index_sorted c'\<rparr> \<and>
     mset (ch_tx_index c') = mset (ch_tx_index c) \<and> mset (ch_addr_index c') = mset (ch_addr_index c)"

lemma same_but_index_fields:
  assumes "same_but_index c c'"
  shows "ch_state c' = ch_state c" "ch_chain_id c' = ch_chain_id c" "ch_height c' = ch_height c"
    "ch_tip_hash c' = ch_tip_hash c" "ch_last_slot c' = ch_last_slot c" "ch_base_fee c' = ch_base_fee c"
    "ch_last_timestamp_ms c' = ch_last_timestamp_ms c" "ch_genesis_timestamp_ms c' = ch_genesis_timestamp_ms c"
    "ch_live_map c' = ch_live_map c" "ch_disk_blocks c' = ch_disk_blocks c" "ch_disk_state c' = ch_disk_state c"
    "ch_disk_meta c' = ch_disk_meta c" "ch_cached_valid c' = ch_cached_valid c" "ch_cached_epoch c' = ch_cached_epoch c"
    "ch_cached_seed c' = ch_cached_seed c"
  using assms unfolding same_but_index_def by (cases c; cases c'; simp)+

lemma reindexed_inv:
  assumes "same_but_index c c'" "index_ok c'" "chain_inv S c"
  shows "chain_inv S c'"
proof -
  note f = same_but_index_fields [OF assms(1)]
  have r: "block_read c' k = block_read c k" for k by (rule block_read_cong) (simp add: f)
  then have "header_at c' n = header_at c n" "all_txs S c' n = all_txs S c n" "all_addrs c' n = all_addrs c n" for n
    by (simp_all add: header_at_def all_txs_def all_addrs_def)
  moreover have "compute_epoch_seed S c' e = compute_epoch_seed S c e" for e
    by (rule compute_epoch_seed_cong) (simp_all add: f)
  ultimately show ?thesis
    using assms r by (simp add: chain_inv_defs cache_ok_def f meta_bytes_def same_but_index_def)
qed

lemma sort_both:
  assumes "index_ok c"
  shows "same_but_index c (tx_index_sort c)" "same_but_index c (addr_index_sort c)"
    "same_but_index c (addr_index_sort (tx_index_sort c)) \<and> index_ok (addr_index_sort (tx_index_sort c))"
proof -
  have t: "same_but_index c (tx_index_sort c)" if "index_ok c" for c
    using tx_index_sort_spec(1) [OF that] by (simp add: same_but_index_def tx_index_sort_def)
  have a: "same_but_index c (addr_index_sort c)" if "index_ok c" for c
    using addr_index_sort_spec(1) [OF that] by (simp add: same_but_index_def addr_index_sort_def)
  note ok = tx_index_sort_spec(2) [OF assms]
  have tr: "same_but_index b d" if "same_but_index b c" "same_but_index c d" for b c d
    using that unfolding same_but_index_def by (cases b; cases c; cases d) simp
  show "same_but_index c (tx_index_sort c)" "same_but_index c (addr_index_sort c)"
    "same_but_index c (addr_index_sort (tx_index_sort c)) \<and> index_ok (addr_index_sort (tx_index_sort c))"
    using t a tr [OF t a] assms ok addr_index_sort_spec(2) [OF ok] by blast+
qed

section \<open>Accepting a block\<close>

lemma accept_outcome:
  assumes "memory_ok S c" "small_state (ch_state c)" "wf_block b" "io_ok io"
    and "ac_chain_accept_block S ld io c b = (r, c')"
  obtains (same) "r \<notin> {AC_ACCEPT_OK, AC_ACCEPT_INTERNAL}" "same_but_cache c c'" "cache_ok S c'"
    | (extended) s' c2 buf where "r = AC_ACCEPT_OK" "block_valid S ld io c b s'" "same_but_cache (c\<lparr>ch_state := s'\<rparr>) c2"
      "ac_block_encode b = Some buf" "c' = chain_extend S c2 b buf"
proof -
  have m: "wf_state (ch_state c)" "cache_ok S c" using assms(1) by (simp_all add: memory_ok_def)
  show ?thesis
  proof (cases "r \<in> {AC_ACCEPT_OK, AC_ACCEPT_INTERNAL}")
    case True
    then obtain s' where v: "block_valid S ld io c b s'" using accept_valid_iff(2) [OF m(1) assms(2) m(2) assms(3), of ld io] assms(5) by auto
    obtain c2 where c2: "same_but_cache (c\<lparr>ch_state := s'\<rparr>) c2" "ac_chain_accept_block S ld io c b = accept_persist S io c2 b"
      using accept_valid_iff(1) [OF m(1) assms(2) m(2) assms(3) v] by blast
    obtain buf where "ac_block_encode b = Some buf" using block.enc_total [OF assms(3)] by auto
    then show ?thesis
      using extended [OF _ v c2(1)] c2(2) assms(4,5) by (simp add: accept_persist_eq io_ok_def)
  next
    case False
    from m(1) assms(2) m(2) assms(3,5) show ?thesis
    proof (cases rule: accept_block_cases)
      case rejected
      then show ?thesis by (rule same)
    next
      case (valid c1 c2)
      then show ?thesis using False by (auto simp: accept_persist_def split: bool.splits prod.splits)
    qed
  qed
qed

lemma extend_fields:
  "ch_state (chain_extend S c b buf) = ch_state c" "ch_chain_id (chain_extend S c b buf) = ch_chain_id c"
  "ch_height (chain_extend S c b buf) = h_height (b_header b)"
  "ch_tip_hash (chain_extend S c b buf) = ac_block_hash S (b_header b)"
  "ch_last_slot (chain_extend S c b buf) = h_slot (b_header b)"
  "ch_last_timestamp_ms (chain_extend S c b buf) = h_timestamp_ms (b_header b)"
  "ch_base_fee (chain_extend S c b buf) = h_base_fee (b_header b)"
  "ch_cached_valid (chain_extend S c b buf) = False"
  "ch_live_map (chain_extend S c b buf) = live_record_all (ch_live_map c) (b_signers b) (h_height (b_header b))"
  "ch_tx_index (chain_extend S c b buf) = ch_tx_index c @ tx_entries S (h_height (b_header b)) 0 (b_txs b)"
  "ch_addr_index (chain_extend S c b buf) = ch_addr_index c @ addr_entries (h_height (b_header b)) 0 (b_txs b)"
  "ch_tx_index_sorted (chain_extend S c b buf) = (ch_tx_index_sorted c \<and> b_txs b = [])"
  "ch_addr_index_sorted (chain_extend S c b buf) = (ch_addr_index_sorted c \<and> b_txs b = [])"
  "ch_disk_state (chain_extend S c b buf) = Some (ac_state_serialize (ch_state c))"
  "ch_disk_meta (chain_extend S c b buf) = Some (meta_bytes (chain_extend S c b buf))"
  by (simp_all add: chain_extend_def Let_def accept_advance_def meta_bytes_def)

lemma wf_tx_hash: "sodium_ok S \<Longrightarrow> wf_hash (ac_tx_hash S tx)"
  by (simp add: ac_tx_hash_def wf_ac_hash split: option.split) (simp add: wf)

lemma tx_entries_ok: "sodium_ok S \<Longrightarrow> list_all tx_entry_ok (tx_entries S h i txs)"
  by (induction txs arbitrary: i) (simp_all add: tx_entry_ok_def wf_tx_hash)

lemma addr_entries_ok: "list_all wf_tx txs \<Longrightarrow> list_all addr_entry_ok (addr_entries h i txs)"
proof (induction txs arbitrary: i)
  case (Cons tx txs)
  have "length (take 32 (tx_body tx)) = 32" using Cons.prems by (simp add: wf_tx_def wf)
  moreover have "wf_addr (tx_sender tx)" using Cons.prems by (simp add: wf_tx_def)
  ultimately have "list_all addr_entry_ok (addr_entry h i tx)"
    unfolding addr_entry_def Let_def addr_entry_ok_def by (simp add: wf)
  then show ?case using Cons by simp
qed simp

lemma entries_Nil: "txs = [] \<Longrightarrow> tx_entries S h i txs = [] \<and> addr_entries h i txs = []"
  by simp

lemma extend_index_ok:
  assumes "sodium_ok S" "index_ok c" "wf_block b"
  shows "index_ok (chain_extend S c b buf)"
  using assms tx_entries_ok [OF assms(1)] addr_entries_ok [of "b_txs b"]
  by (auto simp: index_ok_def extend_fields wf_block_def)

lemma entries_Suc:
  "all_txs S c (Suc n) = all_txs S c n @ tx_entries S (of_nat (Suc n)) 0 (b_txs (the (block_read c (of_nat (Suc n)))))"
  "all_addrs c (Suc n) = all_addrs c n @ addr_entries (of_nat (Suc n)) 0 (b_txs (the (block_read c (of_nat (Suc n)))))"
  by (simp_all add: all_txs_def all_addrs_def)

lemma entries_cong:
  assumes "\<And>k. k \<le> n \<Longrightarrow> block_read c (of_nat k) = block_read d (of_nat k)"
  shows "all_txs S c n = all_txs S d n" "all_addrs c n = all_addrs d n"
  unfolding all_txs_def all_addrs_def using assms by (auto intro!: arg_cong [of _ _ concat] map_cong)

text \<open>The blocks below the new height are read as before.\<close>

lemma extend_blocks:
  assumes "wf_block b" "ac_block_encode b = Some buf" "unat (h_height (b_header b)) = Suc N"
  shows "block_read (chain_extend S c b buf) (of_nat (Suc N)) = Some b"
    and "n \<le> N \<Longrightarrow> block_read (chain_extend S c b buf) (of_nat n) = block_read c (of_nat n)"
    and "n \<le> N \<Longrightarrow> header_at (chain_extend S c b buf) n = header_at c n"
    and "header_at (chain_extend S c b buf) (Suc N) = b_header b"
    and "all_txs S (chain_extend S c b buf) (Suc N) = all_txs S c N @ tx_entries S (h_height (b_header b)) 0 (b_txs b)"
    and "all_addrs (chain_extend S c b buf) (Suc N) = all_addrs c N @ addr_entries (h_height (b_header b)) 0 (b_txs b)"
proof -
  have w: "h_height (b_header b) = of_nat (Suc N)" "Suc N < 2 ^ 64"
    using assms(3) unat_u64_less [of "h_height (b_header b)"] by (simp_all flip: assms(3))
  show new: "block_read (chain_extend S c b buf) (of_nat (Suc N)) = Some b"
    using extend_block_read [OF assms(1,2)] w(1) by simp
  have old: "block_read (chain_extend S c b buf) (of_nat n) = block_read c (of_nat n)" if "n \<le> N" for n
  proof -
    have "unat (of_nat n :: u64) \<noteq> unat (h_height (b_header b))" using that w(2) assms(3) by (simp add: unat_of_nat)
    then have "(of_nat n :: u64) \<noteq> h_height (b_header b)" by metis
    then show ?thesis using extend_block_read [OF assms(1,2)] by simp
  qed
  show "n \<le> N \<Longrightarrow> block_read (chain_extend S c b buf) (of_nat n) = block_read c (of_nat n)"
    "n \<le> N \<Longrightarrow> header_at (chain_extend S c b buf) n = header_at c n"
    "header_at (chain_extend S c b buf) (Suc N) = b_header b"
    using old new by (simp_all add: header_at_def)
  have "all_txs S (chain_extend S c b buf) N = all_txs S c N" "all_addrs (chain_extend S c b buf) N = all_addrs c N"
    by (rule entries_cong, rule old, assumption)+
  then show "all_txs S (chain_extend S c b buf) (Suc N) = all_txs S c N @ tx_entries S (h_height (b_header b)) 0 (b_txs b)"
    "all_addrs (chain_extend S c b buf) (Suc N) = all_addrs c N @ addr_entries (h_height (b_header b)) 0 (b_txs b)"
    using new w(1) by (simp_all only: entries_Suc option.sel)
qed

text \<open>What a valid block says about the chain it extends.\<close>

lemma block_valid_facts:
  assumes "sodium_ok S" "wf_state (ch_state c)" "wf_hash (ch_tip_hash c)" "wf_block b" "block_valid S ld io c b s'"
  shows "unat (h_height (b_header b)) = Suc (unat (ch_height c))" "h_parent_hash (b_header b) = ch_tip_hash c"
    "ch_last_slot c < h_slot (b_header b)" "wf_state s'" "st_chain_id s' = st_chain_id (ch_state c)"
    "h_state_root (b_header b) = ac_state_root S s'"
proof -
  let ?h = "b_header b"
  obtain s tips where t: "accept_txs S (h_slot ?h) (h_base_fee ?h) (b_txs b) (ch_state c) 0 0 = (True, s, h_gas_used ?h, tips)"
      "s' = accept_reward s (h_proposer ?h) (ac_chain_block_reward (h_height ?h)) tips"
    using assms(5) by (auto simp: block_valid_def Let_def)
  have w: "list_all wf_tx (b_txs b)" "wf_addr (h_proposer ?h)" "wf_hash (h_parent_hash ?h)" "wf_hash (h_state_root ?h)"
    using assms(4) by (simp_all add: wf_block_def wf_header_def)
  have pre: "accept_precheck S io c ?h = None" using assms(5) by (simp add: block_valid_def Let_def)
  note p = accept_precheck_None [OF pre]
  have "ch_height c \<noteq> UINT64_MAX" using p(2,3) by auto
  then have "ch_height c < UINT64_MAX" by (simp add: order.not_eq_order_implies_strict)
  then show "unat (h_height ?h) = Suc (unat (ch_height c))" using unat_Suc_nowrap p(2) by simp
  show "h_parent_hash ?h = ch_tip_hash c" using p(4) ac_hash_eq_iff [OF w(3) assms(3)] by simp
  show "ch_last_slot c < h_slot ?h" by (rule p(5))
  note s = accept_txs_state [OF assms(2) w(1) t(1)]
  show "wf_state s'" "st_chain_id s' = st_chain_id (ch_state c)"
    using accept_reward_state [of s] s w(2) by (simp_all add: t(2))
  show "h_state_root ?h = ac_state_root S s'"
    using assms(5) ac_hash_eq_iff [OF wf_state_root [OF assms(1), of s'] w(4)] by (simp add: block_valid_def Let_def)
qed

lemma inv_tip:
  assumes "sodium_ok S" "chain_inv S c"
  shows "wf_hash (ch_tip_hash c)" "wf_state (ch_state c)" "memory_ok S c"
  using assms wf_block_hash [OF assms(1)] by (simp_all add: chain_inv_defs Let_def)

lemma extend_inv:
  assumes "sodium_ok S" "chain_inv S c" "wf_block b" "block_valid S ld io c b s'"
    and "same_but_cache (c\<lparr>ch_state := s'\<rparr>) c2" "ac_block_encode b = Some buf"
  shows "chain_inv S (chain_extend S c2 b buf)"
proof -
  let ?h = "b_header b" and ?c = "chain_extend S c2 b buf" and ?N = "unat (ch_height c)"
  note f = same_but_cache_fields [OF assms(5)]
  note v = block_valid_facts [OF assms(1) inv_tip(2,1) [OF assms(1,2)] assms(3,4)]
  have read: "block_read c2 k = block_read c k" for k by (rule block_read_cong) (simp add: f)
  then have same: "header_at c2 n = header_at c n" "all_txs S c2 n = all_txs S c n" "all_addrs c2 n = all_addrs c n" for n
    by (simp_all add: header_at_def all_txs_def all_addrs_def)
  note x = extend_blocks [OF assms(3,6) v(1)]
  have inv: "memory_ok S c" "blocks_ok S c" "indexed_ok S c" using assms(2) by (simp_all add: chain_inv_def)
  have "memory_ok S ?c"
    using inv(1) v(4,5) extend_index_ok [OF assms(1) _ assms(3), of c2] live_record_all_ok [of "ch_live_map c"] assms(3)
    by (simp add: memory_ok_def extend_fields f cache_ok_def wf_block_def index_ok_def)
  moreover have "blocks_ok S ?c"
    unfolding blocks_ok_def
  proof (intro conjI allI impI)
    fix n
    assume "n \<le> unat (ch_height ?c)"
    then have "n \<le> ?N \<or> n = Suc ?N" using v(1) by (auto simp: extend_fields)
    moreover have "h_height ?h = of_nat (Suc ?N)" by (simp only: v(1) [symmetric] of_nat_unat ucast_id)
    ultimately show "\<exists>b. block_read ?c (of_nat n) = Some b \<and> wf_block b \<and> h_height (b_header b) = of_nat n"
      using x(1,2) read inv(2) assms(3) by (auto simp: blocks_ok_def)
  next
    fix n
    assume "n < unat (ch_height ?c)"
    then consider "n < ?N" | "n = ?N" using v(1) by (fastforce simp: extend_fields)
    then show "h_parent_hash (header_at ?c (Suc n)) = ac_block_hash S (header_at ?c n)"
        "h_slot (header_at ?c n) < h_slot (header_at ?c (Suc n))"
      using x(3,4) same v(2,3) inv(2) by (cases; simp add: blocks_ok_def Let_def)+
  next
    show "let h = header_at ?c (unat (ch_height ?c)) in ch_tip_hash ?c = ac_block_hash S h \<and> ch_last_slot ?c = h_slot h \<and>
        ch_last_timestamp_ms ?c = h_timestamp_ms h \<and> ch_base_fee ?c = h_base_fee h \<and> h_state_root h = ac_state_root S (ch_state ?c)"
      using x(4) v(1,6) by (simp add: extend_fields f)
  qed
  moreover have "disk_ok ?c" by (simp add: disk_ok_def extend_fields)
  moreover have "indexed_ok S ?c"
    using inv(3) x(5,6) same v(1) by (simp add: indexed_ok_def extend_fields f)
  ultimately show ?thesis by (simp add: chain_inv_def)
qed

lemma accept_inv:
  assumes "sodium_ok S" "chain_inv S c" "small_state (ch_state c)" "wf_block b" "io_ok io"
  shows "chain_inv S (snd (ac_chain_accept_block S ld io c b))"
proof -
  obtain r c' where r: "ac_chain_accept_block S ld io c b = (r, c')" by fastforce
  from inv_tip(3) [OF assms(1,2)] assms(3-5) r have "chain_inv S c'"
  proof (cases rule: accept_outcome)
    case same
    then show ?thesis using same_cache_inv assms(2) by blast
  next
    case (extended s' c2 buf)
    then show ?thesis using extend_inv [OF assms(1,2,4)] by blast
  qed
  then show ?thesis by (simp add: r)
qed

section \<open>Genesis\<close>

lemma genesis_accounts_spec:
  assumes "wf_state (ch_state c)" "live_ok (ch_live_map c)" "list_all (\<lambda>ga. wf_addr (ga_addr ga)) gs" "distinct (map ga_addr gs)"
    and "le_addr ` set (ch_live_map c) \<inter> ga_addr ` set gs = {}"
  shows "\<exists>s m. genesis_accounts gs c = c\<lparr>ch_state := s, ch_live_map := m\<rparr> \<and> wf_state s \<and>
    st_chain_id s = st_chain_id (ch_state c) \<and> live_ok m"
  using assms
proof (induction gs arbitrary: c)
  case Nil
  then show ?case by (intro exI [of _ "ch_state c"] exI [of _ "ch_live_map c"]) simp
next
  case (Cons ga gs)
  let ?a = "genesis_account ga"
  let ?s = "ac_state_set (ch_state c) ?a"
  let ?m = "if acc_stake ?a \<ge> AC_MIN_STAKE_UCRD \<and> length (ch_live_map c) < AC_MAX_LIVE
     then ch_live_map c @ [\<lparr>le_addr = acc_addr ?a, le_last_sign_height = 0\<rparr>] else ch_live_map c"
  let ?c = "c\<lparr>ch_state := ?s, ch_live_map := ?m\<rparr>"
  have a: "wf_account ?a" "acc_addr ?a = ga_addr ga"
    using Cons.prems(3) by (simp_all add: genesis_account_def wf_account_def zero_account_def)
  have "genesis_accounts (ga # gs) c = genesis_accounts gs ?c" by (simp add: Let_def)
  moreover have "wf_state ?s" "st_chain_id ?s = st_chain_id (ch_state c)"
    using st.inv_put [OF Cons.prems(1) a(1)] by simp_all
  moreover have "live_ok ?m" using Cons.prems(2,3,5) a(2) by (auto simp: live_ok_def)
  moreover have "le_addr ` set ?m \<inter> ga_addr ` set gs = {}" using Cons.prems(4,5) a(2) by auto
  ultimately show ?case using Cons.IH [of ?c] Cons.prems(3,4) by (auto simp: fun_eq_iff)
qed

lemma genesis_block_wf:
  assumes "sodium_ok S"
  shows "wf_block \<lparr>b_header = genesis_header S s g, b_txs = [], b_signers = []\<rparr>"
  using wf_state_root [OF assms, of s] by (simp add: wf_block_def wf_header_def genesis_header_def wf)

lemma genesis_inv:
  assumes "sodium_ok S" "wf_genesis g" "io_ok io" "ac_chain_open S io blocks st None (Some g) = Some c"
  shows "chain_inv S c"
proof -
  let ?c0 = "(chain_zero blocks st None)\<lparr>ch_state := ac_state_new (g_chain_id g)\<rparr>"
  let ?rp = "(zero_account SYS_REWARD_POOL)\<lparr>acc_balance := 60000000 * 1000000\<rparr>"
  have new: "wf_state (ac_state_new x)" "st_chain_id (ac_state_new x) = x" for x
    by (simp_all add: ac_state_new_def wf_state_def)
  have rp: "wf_account ?rp" by (simp add: wf_account_def zero_account_def)
  obtain s m where g: "genesis_accounts (g_accounts g) (?c0\<lparr>ch_state := ac_state_set (ch_state ?c0) ?rp\<rparr>) =
      ?c0\<lparr>ch_state := s, ch_live_map := m\<rparr>" "wf_state s" "st_chain_id s = g_chain_id g" "live_ok m"
    using genesis_accounts_spec [of "?c0\<lparr>ch_state := ac_state_set (ch_state ?c0) ?rp\<rparr>" "g_accounts g"] assms(2)
      st.inv_put [OF new(1) rp] new by (auto simp: wf_genesis_def chain_zero_def live_ok_def)
  let ?b = "\<lparr>b_header = genesis_header S s g, b_txs = [], b_signers = []\<rparr>"
  note wb = genesis_block_wf [OF assms(1), of s g]
  obtain buf where buf: "ac_block_encode ?b = Some buf" using block.enc_total [OF wb] by auto
  have h: "h_height (genesis_header S s g) = 0" by (simp add: genesis_header_def)
  have c: "ch_state c = s" "ch_chain_id c = g_chain_id g" "ch_height c = 0" "ch_tip_hash c = ac_block_hash S (genesis_header S s g)"
      "ch_last_slot c = 0" "ch_last_timestamp_ms c = g_timestamp_ms g" "ch_base_fee c = AC_MIN_BASE_FEE" "ch_live_map c = m"
      "ch_cached_valid c = False" "ch_tx_index c = []" "ch_addr_index c = []" "ch_disk_blocks c = blocks(0 \<mapsto> buf)"
      "ch_disk_state c = Some (ac_state_serialize s)" "ch_disk_meta c = Some (meta_bytes c)"
    using assms(3,4) buf g(1) h
    by (auto simp: ac_chain_open_def chain_apply_genesis_def Let_def block_write_def meta_save_def ac_state_save_def io_ok_def
        tx_index_rebuild_def chain_zero_def meta_bytes_def)
  have "block_read c 0 = Some ?b" using block.dec_enc [OF wb buf, of "[]"] by (simp add: block_read_def c)
  then have b: "block_read c 0 = Some ?b" "header_at c 0 = genesis_header S s g" by (simp_all add: header_at_def)
  have "memory_ok S c" using g c by (simp add: memory_ok_def cache_ok_def index_ok_def)
  moreover have "blocks_ok S c" using b wb h c by (simp add: blocks_ok_def Let_def genesis_header_def)
  moreover have "disk_ok c" "indexed_ok S c" using c by (simp_all add: disk_ok_def indexed_ok_def all_txs_def all_addrs_def)
  ultimately show ?thesis by (simp add: chain_inv_def)
qed

section \<open>Restart\<close>

lemma meta_bytes_parts:
  assumes "wf_hash (ch_tip_hash c)"
  shows "meta_bytes c = META_MAGIC @ META_VERSION # ac_be64 (ch_chain_id c) @ ac_be64 (ch_height c) @ ch_tip_hash c @
    ac_be64 (ch_last_slot c) @ ac_be64 (ch_last_timestamp_ms c) @ ac_be64 (ch_base_fee c) @ ac_be64 (ch_genesis_timestamp_ms c)"
  using assms by (simp add: meta_bytes_def wf)

text \<open>The meta file gives back every field that was written.\<close>

lemma meta_load_bytes:
  assumes "wf_hash (ch_tip_hash c)" "ch_disk_meta d = Some (meta_bytes c)"
  shows "meta_load d = Some (d\<lparr>ch_chain_id := ch_chain_id c, ch_height := ch_height c, ch_tip_hash := ch_tip_hash c,
    ch_last_slot := ch_last_slot c, ch_last_timestamp_ms := ch_last_timestamp_ms c, ch_base_fee := ch_base_fee c,
    ch_genesis_timestamp_ms := ch_genesis_timestamp_ms c\<rparr>)"
proof -
  have t: "length (ch_tip_hash c) = 32" using assms(1) by (simp add: wf)
  have l: "length META_MAGIC = 12" by (simp add: META_MAGIC_def)
  define p where "p = ac_be64 (ch_chain_id c) @ ac_be64 (ch_height c) @ ch_tip_hash c @ ac_be64 (ch_last_slot c) @
    ac_be64 (ch_last_timestamp_ms c) @ ac_be64 (ch_base_fee c) @ ac_be64 (ch_genesis_timestamp_ms c)"
  have m: "meta_bytes c = META_MAGIC @ META_VERSION # p" using meta_bytes_parts [OF assms(1)] by (simp add: p_def)
  have d: "drop 13 (meta_bytes c) = p" "meta_bytes c ! 12 = META_VERSION" "take 12 (meta_bytes c) = META_MAGIC"
      "length (meta_bytes c) = 93"
    using l t by (simp_all add: m p_def nth_append)
  have "ac_rd64 p = ch_chain_id c" "ac_rd64 (drop 8 p) = ch_height c" "take 32 (drop 16 p) = ch_tip_hash c"
      "ac_rd64 (drop 48 p) = ch_last_slot c" "ac_rd64 (drop 56 p) = ch_last_timestamp_ms c" "ac_rd64 (drop 64 p) = ch_base_fee c"
      "ac_rd64 (drop 72 p) = ch_genesis_timestamp_ms c"
    using t by (simp_all add: p_def)
  then show ?thesis using assms(2) l d by (simp add: meta_load_def Let_def)
qed

text \<open>Rebuilding appends the entries of the blocks read, and keeps the liveness map well-formed.\<close>

definition txs_from :: "sodium \<Rightarrow> ac_chain \<Rightarrow> nat \<Rightarrow> nat \<Rightarrow> tx_index_entry list" where
  "txs_from S c m n = concat (map (\<lambda>k. tx_entries S (of_nat k) 0 (b_txs (the (block_read c (of_nat k))))) [m..<m + n])"

definition addrs_from :: "ac_chain \<Rightarrow> nat \<Rightarrow> nat \<Rightarrow> addr_index_entry list" where
  "addrs_from c m n = concat (map (\<lambda>k. addr_entries (of_nat k) 0 (b_txs (the (block_read c (of_nat k))))) [m..<m + n])"

lemma from_simps:
  "txs_from S c m 0 = []" "addrs_from c m 0 = []"
  "txs_from S c m (Suc n) = tx_entries S (of_nat m) 0 (b_txs (the (block_read c (of_nat m)))) @ txs_from S c (Suc m) n"
  "addrs_from c m (Suc n) = addr_entries (of_nat m) 0 (b_txs (the (block_read c (of_nat m)))) @ addrs_from c (Suc m) n"
  "txs_from S c (Suc 0) n = all_txs S c n" "addrs_from c (Suc 0) n = all_addrs c n"
  by (simp_all add: txs_from_def addrs_from_def all_txs_def all_addrs_def upt_conv_Cons del: upt_Suc)

definition rebuilt :: "sodium \<Rightarrow> ac_chain \<Rightarrow> nat \<Rightarrow> nat \<Rightarrow> bool \<Rightarrow> bool \<Rightarrow> live_entry list \<Rightarrow> ac_chain" where
  "rebuilt S c m n f g lm = c\<lparr>ch_tx_index := ch_tx_index c @ txs_from S c m n, ch_tx_index_sorted := f,
     ch_addr_index := ch_addr_index c @ addrs_from c m n, ch_addr_index_sorted := g, ch_live_map := lm\<rparr>"

lemma rebuild_heights_spec:
  assumes "\<And>k. m \<le> k \<Longrightarrow> k < m + n \<Longrightarrow> \<exists>b. block_read c (of_nat k) = Some b \<and> list_all wf_signer (b_signers b)"
    and "live_ok (ch_live_map c)"
  shows "\<exists>f g lm. rebuild_heights S (of_nat m) n c = rebuilt S c m n f g lm \<and> live_ok lm \<and>
    (f \<longrightarrow> ch_tx_index_sorted c) \<and> (g \<longrightarrow> ch_addr_index_sorted c)"
  using assms
proof (induction n arbitrary: m c)
  case 0
  have "rebuild_heights S (of_nat m) 0 c = rebuilt S c m 0 (ch_tx_index_sorted c) (ch_addr_index_sorted c) (ch_live_map c)"
    by (simp add: rebuilt_def from_simps)
  then show ?case using 0(2) by blast
next
  case (Suc n)
  obtain b where b: "block_read c (of_nat m) = Some b" "list_all wf_signer (b_signers b)" using Suc.prems(1) [of m] by auto
  define lm where "lm = (if h_height (b_header b) + AC_LIVENESS_WINDOW > ch_height c
    then live_record_all (ch_live_map c) (b_signers b) (h_height (b_header b)) else ch_live_map c)"
  define d where "d = c\<lparr>ch_tx_index := ch_tx_index c @ tx_entries S (of_nat m) 0 (b_txs b),
    ch_tx_index_sorted := (ch_tx_index_sorted c \<and> b_txs b = []), ch_addr_index := ch_addr_index c @ addr_entries (of_nat m) 0 (b_txs b),
    ch_addr_index_sorted := (ch_addr_index_sorted c \<and> b_txs b = []), ch_live_map := lm\<rparr>"
  have step: "rebuild_heights S (of_nat m) (Suc n) c = rebuild_heights S (of_nat (Suc m)) n d"
    by (simp add: b(1) Let_def rebuild_txs_eq d_def lm_def add.commute)
  have read: "block_read d k = block_read c k" for k by (rule block_read_cong) (simp add: d_def)
  have "live_ok lm" using live_record_all_ok [OF Suc.prems(2) b(2)] Suc.prems(2) by (simp add: lm_def)
  then have dl: "live_ok (ch_live_map d)" by (simp add: d_def)
  have "\<exists>b. block_read d (of_nat k) = Some b \<and> list_all wf_signer (b_signers b)" if "Suc m \<le> k" "k < Suc m + n" for k
    using Suc.prems(1) [of k] that by (simp add: read)
  from Suc.IH [OF this dl] obtain f g lm' where ih: "rebuild_heights S (of_nat (Suc m)) n d = rebuilt S d (Suc m) n f g lm'"
      "live_ok lm'" "f \<longrightarrow> ch_tx_index_sorted d" "g \<longrightarrow> ch_addr_index_sorted d" by blast
  have "rebuilt S d (Suc m) n f g lm' = rebuilt S c m (Suc n) f g lm'"
    by (simp add: rebuilt_def from_simps b(1), simp add: d_def txs_from_def addrs_from_def read [unfolded d_def])
  then show ?case using ih step by (auto simp: d_def)
qed

text \<open>Reading a data directory whose files were written by a chain gives a chain with the same contents.\<close>

lemma reopen_spec:
  assumes "sodium_ok S" "chain_inv S c" "small_state (ch_state c)"
  obtains c' where "ac_chain_open S io (ch_disk_blocks c) (ch_disk_state c) (ch_disk_meta c) g = Some c'" "chain_inv S c'"
    "ch_state c' = ch_state c" "ch_chain_id c' = ch_chain_id c" "ch_height c' = ch_height c" "ch_tip_hash c' = ch_tip_hash c"
    "ch_last_slot c' = ch_last_slot c" "ch_last_timestamp_ms c' = ch_last_timestamp_ms c" "ch_base_fee c' = ch_base_fee c"
    "ch_genesis_timestamp_ms c' = ch_genesis_timestamp_ms c" "ch_disk_blocks c' = ch_disk_blocks c"
proof -
  have inv: "memory_ok S c" "blocks_ok S c" "disk_ok c" "indexed_ok S c" using assms(2) by (simp_all add: chain_inv_def)
  define d where "d = (chain_zero (ch_disk_blocks c) (ch_disk_state c) (ch_disk_meta c))\<lparr>ch_chain_id := ch_chain_id c, ch_height := ch_height c, ch_tip_hash := ch_tip_hash c,
    ch_last_slot := ch_last_slot c, ch_last_timestamp_ms := ch_last_timestamp_ms c, ch_base_fee := ch_base_fee c,
    ch_genesis_timestamp_ms := ch_genesis_timestamp_ms c, ch_state := ch_state c\<rparr>"
  have load: "ac_state_load (ac_state_new (ch_chain_id c)) (ch_disk_state c) = Some (ch_state c)"
    using deserialize_serialize [of "ch_state c" "ac_state_new (ch_chain_id c)"] inv(1,3) assms(3)
    by (simp add: ac_state_load_def disk_ok_def memory_ok_def ac_state_new_def)
  have "ch_disk_meta (chain_zero (ch_disk_blocks c) (ch_disk_state c) (ch_disk_meta c)) = Some (meta_bytes c)"
    using inv(3) by (simp add: chain_zero_def disk_ok_def)
  note meta = meta_load_bytes [OF inv_tip(1) [OF assms(1,2)] this]
  have open_eq: "ac_chain_open S io (ch_disk_blocks c) (ch_disk_state c) (ch_disk_meta c) g = Some (tx_index_rebuild S d)"
    unfolding ac_chain_open_def Let_def meta option.case using inv(3) load by (simp add: d_def disk_ok_def)
  have df: "block_read d k = block_read c k" "live_ok (ch_live_map d)" "ch_tx_index d = []" "ch_addr_index d = []"
      "\<not> ch_tx_index_sorted d" "\<not> ch_addr_index_sorted d" for k
    by (simp_all add: d_def chain_zero_def live_ok_def block_read_def)
  have stored: "\<exists>b. block_read c (of_nat n) = Some b \<and> wf_block b" if "n \<le> unat (ch_height c)" for n
    using inv(2) that by (auto simp: blocks_ok_def)
  obtain lm where lm: "live_ok lm" "rebuild_heights S 1 (unat (ch_height c)) d =
      d\<lparr>ch_tx_index := all_txs S c (unat (ch_height c)), ch_addr_index := all_addrs c (unat (ch_height c)), ch_live_map := lm\<rparr>"
  proof -
    have "\<exists>b. block_read d (of_nat k) = Some b \<and> list_all wf_signer (b_signers b)" if "1 \<le> k" "k < 1 + unat (ch_height c)" for k
      using stored [of k] that(2) df(1) by (auto simp: wf_block_def)
    from rebuild_heights_spec [OF this df(2), of 1 "unat (ch_height c)" S]
    obtain lm f g where "live_ok lm" "\<not> f" "\<not> g" "rebuild_heights S 1 (unat (ch_height c)) d = rebuilt S d 1 (unat (ch_height c)) f g lm"
      using df(5,6) by auto
    moreover have "all_txs S d n = all_txs S c n" "all_addrs d n = all_addrs c n" for n
      by (simp_all add: all_txs_def all_addrs_def df(1))
    ultimately have "rebuild_heights S 1 (unat (ch_height c)) d = d\<lparr>ch_tx_index := all_txs S c (unat (ch_height c)), ch_tx_index_sorted := f,
          ch_addr_index := all_addrs c (unat (ch_height c)), ch_addr_index_sorted := g, ch_live_map := lm\<rparr>" "live_ok lm" "\<not> f" "\<not> g"
      by (simp_all add: rebuilt_def from_simps df(3,4))
    then show thesis using that [of lm] by (simp add: d_def chain_zero_def)
  qed
  define e where "e = d\<lparr>ch_tx_index := all_txs S c (unat (ch_height c)), ch_addr_index := all_addrs c (unat (ch_height c)), ch_live_map := lm\<rparr>"
  have read: "block_read e k = block_read c k" for k by (simp add: e_def d_def chain_zero_def block_read_def)
  then have same: "header_at e n = header_at c n" "all_txs S e n = all_txs S c n" "all_addrs e n = all_addrs c n" for n
    by (simp_all add: header_at_def all_txs_def all_addrs_def)
  have ef: "ch_state e = ch_state c" "ch_chain_id e = ch_chain_id c" "ch_height e = ch_height c" "ch_tip_hash e = ch_tip_hash c"
    "ch_last_slot e = ch_last_slot c" "ch_last_timestamp_ms e = ch_last_timestamp_ms c" "ch_base_fee e = ch_base_fee c"
    "ch_genesis_timestamp_ms e = ch_genesis_timestamp_ms c" "ch_disk_blocks e = ch_disk_blocks c"
    "ch_disk_state e = ch_disk_state c" "ch_disk_meta e = ch_disk_meta c" "ch_live_map e = lm" "\<not> ch_cached_valid e"
    "ch_tx_index e = all_txs S c (unat (ch_height c))" "ch_addr_index e = all_addrs c (unat (ch_height c))"
    "\<not> ch_tx_index_sorted e" "\<not> ch_addr_index_sorted e"
    by (simp_all add: e_def d_def chain_zero_def)
  have "list_all tx_entry_ok (all_txs S c (unat (ch_height c)))" "list_all addr_entry_ok (all_addrs c (unat (ch_height c)))"
    using inv(1,4) by (auto simp: memory_ok_def index_ok_def indexed_ok_def list_all_iff dest!: mset_eq_setD)
  then have e_ok: "index_ok e" by (simp add: index_ok_def ef)
  then have e_inv: "chain_inv S e"
    using inv lm(1) by (simp add: chain_inv_defs cache_ok_def ef read same meta_bytes_def)
  have "tx_index_rebuild S d = (if ch_height c = 0 then e else addr_index_sort (tx_index_sort e))"
  proof -
    have "ch_height d = ch_height c" by (simp add: d_def)
    then show ?thesis using lm(2) by (auto simp: tx_index_rebuild_def e_def)
  qed
  then have "same_but_index e (tx_index_rebuild S d) \<and> index_ok (tx_index_rebuild S d)"
    using sort_both [OF e_ok] e_ok by (simp add: same_but_index_def)
  then show thesis
    using that [OF open_eq] reindexed_inv [OF _ _ e_inv] same_but_index_fields [of e "tx_index_rebuild S d"] ef by simp
qed

section \<open>Every reachable chain\<close>

lemma query_inv:
  assumes "chain_inv S c"
  shows "chain_inv S (snd (ac_chain_epoch_seed S c epoch))" "chain_inv S (snd (ac_chain_tx_find c h))"
    "chain_inv S (snd (ac_chain_addr_txs c a cap))"
proof -
  have ok: "cache_ok S c" "index_ok c" using assms by (simp_all add: chain_inv_defs)
  show "chain_inv S (snd (ac_chain_epoch_seed S c epoch))"
    using epoch_seed_spec(2,3) [OF ok(1) surjective_pairing] same_cache_inv assms by blast
  have "snd (ac_chain_tx_find c h) \<in> {c, tx_index_sort c}" "snd (ac_chain_addr_txs c a cap) \<in> {c, addr_index_sort c}"
    by (simp_all add: ac_chain_tx_find_def ac_chain_addr_txs_def Let_def)
  then show "chain_inv S (snd (ac_chain_tx_find c h))" "chain_inv S (snd (ac_chain_addr_txs c a cap))"
    using reindexed_inv [OF sort_both(1) [OF ok(2)] tx_index_sort_spec(2) [OF ok(2)] assms]
      reindexed_inv [OF sort_both(2) [OF ok(2)] addr_index_sort_spec(2) [OF ok(2)] assms] assms by auto
qed

lemma build_inv:
  assumes "chain_inv S c" "small_state (ch_state c)" "list_all wf_tx cands" "wf_addr (kp_pk kp)"
  shows "chain_inv S (snd (ac_chain_build_block S c slot kp cands))"
proof -
  have ok: "wf_state (ch_state c)" "cache_ok S c" using assms(1) by (simp_all add: chain_inv_defs)
  obtain r c' where r: "ac_chain_build_block S c slot kp cands = (r, c')" by fastforce
  show ?thesis
  proof (cases r)
    case None
    then have "c' = c" using r by (auto simp: ac_chain_build_block_def Let_def split_beta split: if_splits)
    then show ?thesis using assms(1) r by simp
  next
    case (Some b)
    then have "ac_chain_build_block S c slot kp cands = (Some b, c')" using r by simp
    from ok(1) assms(2) ok(2) assms(3,4) this show ?thesis
    proof (cases rule: build_block_cases)
      case 1
      then show ?thesis using same_cache_inv assms(1) r by simp
    qed
  qed
qed

lemma reach_inv:
  assumes "chain_reach S ld c" "sodium_ok S"
  shows "chain_inv S c"
  using assms
proof (induction rule: chain_reach.induct)
  case (genesis g io blocks st c)
  then show ?case using genesis_inv by blast
next
  case (reopen c io g c')
  then show ?case using reopen_spec [of S c io g] by (metis option.inject)
qed (simp_all add: accept_inv build_inv query_inv)

text \<open>
  Claim C6. In every chain that a node reaches from genesis through accepting, rejecting and building
  blocks, through lookups and restarts, the state is well-formed and its root is the one in the tip's
  header; every height up to the tip has a block file with that height; each block names the hash of its
  predecessor and has a later slot; the cached seed is the computed one; and the state and meta files
  hold the state and position in memory.
\<close>

theorem chain_reach_invariant:
  assumes "chain_reach S ld c" "sodium_ok S"
  shows "wf_state (ch_state c) \<and> cache_ok S c \<and> live_ok (ch_live_map c) \<and>
    (\<forall>n\<le>unat (ch_height c). \<exists>b. block_read c (of_nat n) = Some b \<and> wf_block b \<and> h_height (b_header b) = of_nat n) \<and>
    (\<forall>n<unat (ch_height c). h_parent_hash (header_at c (Suc n)) = ac_block_hash S (header_at c n) \<and>
       h_slot (header_at c n) < h_slot (header_at c (Suc n))) \<and>
    ch_tip_hash c = ac_block_hash S (header_at c (unat (ch_height c))) \<and>
    h_state_root (header_at c (unat (ch_height c))) = ac_state_root S (ch_state c) \<and>
    ch_disk_state c = Some (ac_state_serialize (ch_state c)) \<and> ch_disk_meta c = Some (meta_bytes c)"
  using reach_inv [OF assms] by (simp add: chain_inv_defs Let_def)

text \<open>
  Claim C7. A restart loses nothing of a reachable chain: opening its data directory succeeds and
  restores the state, the position, the tip and the fee, reads every block as before, and rebuilds the
  two indexes with exactly the entries that were in memory.
\<close>

theorem restart_restores:
  assumes "chain_reach S ld c" "sodium_ok S" "small_state (ch_state c)"
  shows "\<exists>c'. ac_chain_open S io (ch_disk_blocks c) (ch_disk_state c) (ch_disk_meta c) g = Some c' \<and>
    ch_state c' = ch_state c \<and> ch_chain_id c' = ch_chain_id c \<and> ch_height c' = ch_height c \<and>
    ch_tip_hash c' = ch_tip_hash c \<and> ch_last_slot c' = ch_last_slot c \<and> ch_base_fee c' = ch_base_fee c \<and>
    ch_genesis_timestamp_ms c' = ch_genesis_timestamp_ms c \<and> (\<forall>k. block_read c' k = block_read c k) \<and>
    mset (ch_tx_index c') = mset (ch_tx_index c) \<and> mset (ch_addr_index c') = mset (ch_addr_index c)"
proof -
  note inv = reach_inv [OF assms(1,2)]
  obtain c' where c: "ac_chain_open S io (ch_disk_blocks c) (ch_disk_state c) (ch_disk_meta c) g = Some c'" "chain_inv S c'"
    "ch_state c' = ch_state c" "ch_chain_id c' = ch_chain_id c" "ch_height c' = ch_height c" "ch_tip_hash c' = ch_tip_hash c"
    "ch_last_slot c' = ch_last_slot c" "ch_last_timestamp_ms c' = ch_last_timestamp_ms c" "ch_base_fee c' = ch_base_fee c"
    "ch_genesis_timestamp_ms c' = ch_genesis_timestamp_ms c" "ch_disk_blocks c' = ch_disk_blocks c"
    by (rule reopen_spec [OF assms(2) inv assms(3)])
  have "block_read c' k = block_read c k" for k by (rule block_read_cong [OF c(11)])
  moreover from this have "all_txs S c' n = all_txs S c n" "all_addrs c' n = all_addrs c n" for n
    by (simp_all add: all_txs_def all_addrs_def)
  ultimately show ?thesis
    using c inv by (simp add: chain_inv_def indexed_ok_def)
qed

section \<open>A concrete run\<close>

definition demo_genesis :: ac_genesis where
  "demo_genesis = \<lparr>g_chain_id = 7, g_timestamp_ms = 0, g_accounts =
     [\<lparr>ga_addr = 1 # zeros 31, ga_balance = 0, ga_stake = 100000000\<rparr>, \<lparr>ga_addr = 2 # zeros 31, ga_balance = 0, ga_stake = 100000000\<rparr>]\<rparr>"

lemma demo_genesis_opens:
  "map_option ch_state (ac_chain_open demo_sodium demo_io Map.empty None None (Some demo_genesis)) = Some demo_validators"
  by code_simp

lemma demo_reach:
  obtains c where "chain_reach demo_sodium exact c" "ch_state c = demo_validators"
    "ac_chain_open demo_sodium demo_io Map.empty None None (Some demo_genesis) = Some c"
proof -
  obtain c where c: "ac_chain_open demo_sodium demo_io Map.empty None None (Some demo_genesis) = Some c" "ch_state c = demo_validators"
    using demo_genesis_opens by auto
  have "wf_genesis demo_genesis" "io_ok demo_io"
    by (simp_all add: wf_genesis_def demo_genesis_def wf io_ok_def demo_io_def)
  with c that show ?thesis by (blast intro: chain_reach.genesis)
qed

theorem chain_reach_invariant_witness:
  "\<exists>c. ac_chain_open demo_sodium demo_io Map.empty None None (Some demo_genesis) = Some c \<and>
     ch_disk_state c = Some (ac_state_serialize demo_validators)"
proof -
  obtain c where "chain_reach demo_sodium exact c" "ch_state c = demo_validators"
      "ac_chain_open demo_sodium demo_io Map.empty None None (Some demo_genesis) = Some c" by (rule demo_reach)
  then show ?thesis using chain_reach_invariant [OF _ sodium_ok_demo] by metis
qed

theorem restart_restores_witness:
  "\<exists>c c'. ac_chain_open demo_sodium demo_io Map.empty None None (Some demo_genesis) = Some c \<and>
     ac_chain_open demo_sodium demo_io (ch_disk_blocks c) (ch_disk_state c) (ch_disk_meta c) None = Some c' \<and>
     ch_state c' = demo_validators"
proof -
  obtain c where "chain_reach demo_sodium exact c" "ch_state c = demo_validators"
      "ac_chain_open demo_sodium demo_io Map.empty None None (Some demo_genesis) = Some c" by (rule demo_reach)
  then show ?thesis using restart_restores [OF _ sodium_ok_demo] demo_chain_ok(2) by metis
qed

end
