(* ===== verification/Consensus_Rules.thy ===== *)
theory Consensus_Rules
  imports Consensus Chain_Run
begin

text \<open>
  Properties of the consensus engine: the vote format, the priority of a proposal, the choice and the
  lock of a validator's vote, and the invariant of every run of the engine, which shows that the engine
  changes the chain only through block acceptance.
\<close>

section \<open>Votes on the wire\<close>

definition wf_vote :: "ac_vote \<Rightarrow> bool" where
  "wf_vote v \<longleftrightarrow> wf_hash (vo_block_hash v) \<and> wf_addr (vo_signer v) \<and> wf_sig (vo_sig v) \<and> length (vo_proof v) = 64"

lemma split_vote:
  assumes "length buf = 200"
  shows "ac_be64 (ac_rd64 buf) @ take 32 (drop 8 buf) @ take 32 (drop 40 buf) @ take 64 (drop 72 buf) @ take 64 (drop 136 buf) = buf"
proof -
  have "ac_rd64 (take 8 buf @ drop 8 buf) = ac_rd64 (take 8 buf)"
    using be64_rd64 [of "take 8 buf"] rd64_be64 [of "ac_rd64 (take 8 buf)" "drop 8 buf"] assms by simp
  then have h: "ac_be64 (ac_rd64 buf) = take 8 buf" using be64_rd64 [of "take 8 buf"] assms by simp
  have "take 64 (drop 136 buf) = drop 136 buf" "take 64 (drop 72 buf) @ drop 136 buf = drop 72 buf"
      "take 32 (drop 40 buf) @ drop 72 buf = drop 40 buf" "take 32 (drop 8 buf) @ drop 40 buf = drop 8 buf"
    using assms append_take_drop_id [of 64 "drop 72 buf"] append_take_drop_id [of 32 "drop 40 buf"]
      append_take_drop_id [of 32 "drop 8 buf"] by simp_all
  then show ?thesis by (simp only: h append_take_drop_id)
qed

interpretation vote: wire_codec "\<lambda>v. Some (vote_encode v)" vote_decode wf_vote
proof
  fix x b
  assume g: "wf_vote x" and "Some (vote_encode x) = Some b"
  then show "vote_decode b = Some x"
    by (auto simp: vote_decode_def vote_encode_def wf_vote_def wf AC_VOTE_WIRE_LEN_def)
next
  fix b x
  assume d: "vote_decode b = Some x"
  then show "wf_vote x" "Some (vote_encode x) = Some b"
    using split_vote [of b] by (auto simp: vote_decode_def vote_encode_def wf_vote_def wf AC_VOTE_WIRE_LEN_def split: if_splits)
qed simp

text \<open>
  The vote decoder accepts exactly the 200-byte encodings of votes: decoding inverts encoding and
  no second byte string decodes to the same vote.
\<close>

theorem vote_decode_iff:
  "vote_decode buf = Some v \<longleftrightarrow> wf_vote v \<and> vote_encode v = buf"
  using vote.dec_iff [of buf v] by auto

section \<open>Priorities\<close>

definition prio_val :: "bytes \<Rightarrow> nat" where
  "prio_val p = unat (ac_rd64 p) * 2 ^ 64 + unat (ac_rd64 (drop 8 p))"

lemma approx_quotient:
  fixes s hi lo W M :: nat
  assumes "0 < s" "M * s \<le> W - 1" "W \<le> Suc M * s"
  defines "A \<equiv> hi div s * W + (lo div s + M * (hi mod s))"
  shows "A \<le> (hi * W + lo) div s" "(hi * W + lo) div s < A + s"
proof -
  let ?r = "hi mod s"
  have hi: "hi * W = hi div s * s * W + ?r * W" by (simp only: div_mult_mod_eq flip: distrib_right)
  have "M * s * ?r + lo div s * s \<le> W * ?r + lo" using assms(2) by (intro add_mono mult_le_mono1) simp_all
  then have "A * s \<le> hi * W + lo" unfolding A_def hi by (simp only: algebra_simps)
  then show "A \<le> (hi * W + lo) div s" using assms(1) by (simp add: less_eq_div_iff_mult_less_eq)
  have "?r * W \<le> ?r * (Suc M * s)" using assms(3) by (rule mult_le_mono2)
  moreover have "lo < lo div s * s + s" using dividend_less_div_times [OF assms(1), of lo] by simp
  moreover have "?r * s + s \<le> s * s" using mult_le_mono1 [of "Suc ?r" s s] assms(1) by (simp add: Suc_le_eq)
  ultimately have "hi * W + lo < (A + s) * s" unfolding A_def hi by (simp add: algebra_simps)
  then show "(hi * W + lo) div s < A + s" using assms(1) by (simp add: div_less_iff_less_mult)
qed

text \<open>
  The priority of a proposal is the 128-bit value of the hashed VRF output divided by the
  proposer's weight, up to an error below the weight: neither the multiplication nor the addition that
  stand for the division of the lower half overflow.
\<close>

theorem compute_priority_bounds:
  fixes S :: sodium and beta :: bytes
  assumes "sqrt_stake \<noteq> 0"
  defines "h \<equiv> ac_hash_multi S [PRIO_DOMAIN, beta]"
  shows "prio_val (compute_priority S beta sqrt_stake) \<le> prio_val h div unat sqrt_stake \<and>
    prio_val h div unat sqrt_stake < prio_val (compute_priority S beta sqrt_stake) + unat sqrt_stake"
proof -
  let ?s = "unat sqrt_stake" and ?hi = "unat (ac_rd64 h)" and ?lo = "unat (ac_rd64 (drop 8 h))"
  define M where "M = unat UINT64_MAX div ?s"
  have s: "0 < ?s" using assms(1) by (simp add: unat_gt_0)
  have m: "M * ?s \<le> 2 ^ 64 - 1" "2 ^ 64 \<le> Suc M * ?s"
    using dividend_less_div_times [OF s, of "unat UINT64_MAX"] div_times_less_eq_dividend [of "unat UINT64_MAX" ?s]
    by (simp_all add: M_def unsigned_minus_1_eq_mask mask_eq_exp_minus_1)
  have "Suc (?hi mod ?s) \<le> ?s" using s by (simp add: Suc_le_eq)
  then have "M * (?hi mod ?s) + M \<le> M * ?s" using mult_le_mono2 [of "Suc (?hi mod ?s)" ?s M] by simp
  moreover have "?lo div ?s \<le> M" unfolding M_def using unat_u64_less [of "ac_rd64 (drop 8 h)"]
    by (intro div_le_mono) (simp add: unsigned_minus_1_eq_mask mask_eq_exp_minus_1)
  ultimately have sum: "?lo div ?s + M * (?hi mod ?s) < 2 ^ 64" "M * (?hi mod ?s) < 2 ^ 64" using m(1) by simp_all
  have u: "unat (UINT64_MAX div sqrt_stake * (ac_rd64 h mod sqrt_stake)) = M * (?hi mod ?s)"
    using sum(2) unat_mult_nowrap [of "UINT64_MAX div sqrt_stake" "ac_rd64 h mod sqrt_stake"]
    by (simp only: unat_div unat_mod M_def)
  have q: "unat (ac_rd64 (drop 8 h) div sqrt_stake + UINT64_MAX div sqrt_stake * (ac_rd64 h mod sqrt_stake)) =
      ?lo div ?s + M * (?hi mod ?s)"
    using sum(1) unat_add_nowrap [of "ac_rd64 (drop 8 h) div sqrt_stake" "UINT64_MAX div sqrt_stake * (ac_rd64 h mod sqrt_stake)"]
    by (simp only: u unat_div)
  have "0 < sqrt_stake" using assms(1) by (simp add: word_neq_0_conv)
  then have "prio_val (compute_priority S beta sqrt_stake) = ?hi div ?s * 2 ^ 64 + (?lo div ?s + M * (?hi mod ?s))"
    using assms(1) q by (simp add: compute_priority_def prio_val_def Let_def unat_div flip: h_def)
  then show ?thesis using approx_quotient [OF s m, of ?hi ?lo] by (simp add: prio_val_def)
qed

theorem compute_priority_bounds_witness:
  "prio_val (compute_priority demo_sodium (replicate 32 7) 10000) \<le>
     prio_val (ac_hash_multi demo_sodium [PRIO_DOMAIN, replicate 32 7]) div 10000"
  using compute_priority_bounds [of 10000 demo_sodium "replicate 32 7"] by simp

section \<open>The choice of a vote\<close>

definition votable :: "u64 \<Rightarrow> pending \<Rightarrow> bool" where
  "votable target_h p \<longleftrightarrow> pd_occupied p \<and> \<not> pd_committed p \<and> pd_height p = target_h"

lemma priority_cmp_trans:
  assumes "length a = 16" "length b = 16" "length c = 16"
  shows "priority_cmp a b < 0 \<Longrightarrow> priority_cmp b c \<le> 0 \<Longrightarrow> priority_cmp a c \<le> 0"
    "\<not> priority_cmp a b < 0 \<Longrightarrow> priority_cmp b a \<le> 0"
  using assms memcmp_trans [of a 16 b c] memcmp_swap [of b a] by (auto simp: priority_cmp_def)

text \<open>The loop keeps an index of lowest priority among the votable entries seen so far.\<close>

definition best_ok :: "u64 \<Rightarrow> pending list \<Rightarrow> (nat \<times> bytes) option \<Rightarrow> bool" where
  "best_ok h ps best \<longleftrightarrow>
     (case best of
        None \<Rightarrow> \<forall>p\<in>set ps. \<not> votable h p
      | Some (i, q) \<Rightarrow> i < length ps \<and> votable h (ps ! i) \<and> pd_priority (ps ! i) = q \<and>
          (\<forall>p\<in>set ps. votable h p \<longrightarrow> priority_cmp q (pd_priority p) \<le> 0))"

lemma best_pending_step:
  assumes "best_ok h ps best" "\<forall>q\<in>set (ps @ [p]). length (pd_priority q) = 16"
  shows "best_ok h (ps @ [p]) (if \<not> pd_occupied p \<or> pd_committed p \<or> pd_height p \<noteq> h then best
    else case best of None \<Rightarrow> Some (length ps, pd_priority p)
      | Some (j, q) \<Rightarrow> if priority_cmp (pd_priority p) q < 0 then Some (length ps, pd_priority p) else best)"
proof (cases "votable h p")
  case False
  then show ?thesis using assms(1) by (auto simp: best_ok_def votable_def nth_append split: option.splits)
next
  case True
  show ?thesis
  proof (cases best)
    case None
    then show ?thesis using assms True by (auto simp: best_ok_def votable_def nth_append priority_cmp_def)
  next
    case (Some iq)
    obtain i q where iq: "iq = (i, q)" by fastforce
    have b: "i < length ps" "votable h (ps ! i)" "pd_priority (ps ! i) = q"
        "\<And>p. p \<in> set ps \<Longrightarrow> votable h p \<Longrightarrow> priority_cmp q (pd_priority p) \<le> 0"
      using assms(1) Some iq by (auto simp: best_ok_def)
    have l: "length q = 16" "length (pd_priority p) = 16" "\<And>x. x \<in> set ps \<Longrightarrow> length (pd_priority x) = 16"
      using assms(2) b(1,3) by auto
    show ?thesis
      using True Some iq b priority_cmp_trans [OF l(2,1) l(3)] priority_cmp_trans(2) [OF l(2,1) l(1)]
      by (auto simp: best_ok_def votable_def nth_append priority_cmp_def)
  qed
qed

lemma best_pending_ok:
  assumes "best_ok h ps best" "\<forall>q\<in>set (ps @ qs). length (pd_priority q) = 16"
  shows "\<exists>b. best_pending h (length ps) best qs = map_option fst b \<and> best_ok h (ps @ qs) b"
  using assms
proof (induction qs arbitrary: ps best)
  case (Cons q qs)
  have l: "\<forall>x\<in>set (ps @ [q]). length (pd_priority x) = 16" using Cons.prems(2) by auto
  show ?case using Cons.IH [OF best_pending_step [OF Cons.prems(1) l]] Cons.prems(2) by simp
qed auto

lemma best_pending_min:
  assumes "\<forall>q\<in>set ps. length (pd_priority q) = 16"
  shows "best_pending h 0 None ps = None \<longleftrightarrow> (\<forall>p\<in>set ps. \<not> votable h p)"
    and "best_pending h 0 None ps = Some k \<Longrightarrow> k < length ps \<and> votable h (ps ! k) \<and>
      (\<forall>p\<in>set ps. votable h p \<longrightarrow> priority_cmp (pd_priority (ps ! k)) (pd_priority p) \<le> 0)"
proof -
  obtain b where b: "best_pending h 0 None ps = map_option fst b" "best_ok h ps b"
    using best_pending_ok [of h "[]" None ps] assms by (auto simp: best_ok_def)
  show "best_pending h 0 None ps = None \<longleftrightarrow> (\<forall>p\<in>set ps. \<not> votable h p)"
    using b by (cases b) (auto simp: best_ok_def)
  show "best_pending h 0 None ps = Some k \<Longrightarrow> k < length ps \<and> votable h (ps ! k) \<and>
      (\<forall>p\<in>set ps. votable h p \<longrightarrow> priority_cmp (pd_priority (ps ! k)) (pd_priority p) \<le> 0)"
    using b by (auto simp: best_ok_def)
qed

section \<open>What the operations leave alone\<close>

text \<open>Identity, configuration and vote lock of an engine.\<close>

definition fixed :: "ac_consensus \<Rightarrow> ac_keypair \<times> ac_addr \<times> bool \<times> bool \<times> u64 \<times> ac_hash \<times> bytes" where
  "fixed cs = (co_kp cs, co_my_addr cs, co_bcast cs, co_validator cs, co_vote_height cs, co_vote_block cs, co_vote_priority cs)"

named_theorems frame

lemma frame_basic [frame]:
  "fixed (bcast cs t b) = fixed cs" "fixed (set_pending cs k p) = fixed cs"
  "fixed (snd (slot_vote_for cs sl)) = fixed cs" "fixed (record_priority cs sl q) = fixed cs"
  "fixed (snd (am_i_leader S ld cs sl)) = fixed cs" "fixed (snd (am_i_committee S ld cs sl)) = fixed cs"
  "fixed (snd (pending_alloc io cs)) = fixed cs" "fixed (request_headers io cs t64) = fixed cs"
  by (auto simp: fixed_def bcast_def set_pending_def slot_vote_for_def record_priority_def am_i_leader_def am_i_committee_def
      pending_alloc_def request_headers_def Let_def split: sum.splits prod.splits option.splits)

lemma frame_pending [frame]:
  "co_pending (bcast cs t b) = co_pending cs" "co_pending (snd (slot_vote_for cs sl)) = co_pending cs"
  "co_pending (record_priority cs sl q) = co_pending cs"
  "co_pending (snd (am_i_leader S ld cs sl)) = co_pending cs" "co_pending (snd (am_i_committee S ld cs sl)) = co_pending cs"
  "co_chain (bcast cs t b) = co_chain cs" "co_chain (snd (slot_vote_for cs sl)) = co_chain cs"
  "co_chain (record_priority cs sl q) = co_chain cs" "co_chain (set_pending cs k p) = co_chain cs"
  "co_chain (snd (pending_alloc io cs)) = co_chain cs" "co_chain (request_headers io cs t64) = co_chain cs"
  "co_pending (request_headers io cs t64) = co_pending cs"
  by (auto simp: bcast_def set_pending_def slot_vote_for_def record_priority_def am_i_leader_def am_i_committee_def
      pending_alloc_def request_headers_def Let_def split: sum.splits prod.splits option.splits)

lemma frame_our_vote [frame]: "fixed (our_vote_now S ld cs k) = fixed cs"
proof -
  obtain r c1 where a: "am_i_committee S ld cs (pd_slot (co_pending cs ! k)) = (r, c1)" by fastforce
  have f: "fixed c1 = fixed cs" using frame_basic(6) [of S ld cs "pd_slot (co_pending cs ! k)"] by (simp add: a)
  have u: "fixed (c\<lparr>co_slot_votes := x\<rparr>) = fixed c" for c x by (simp add: fixed_def)
  show ?thesis
    by (cases r) (simp_all add: our_vote_now_def Let_def a f u frame_basic split_beta)
qed

lemma frame_commit [frame]: "fixed (commit_block S ld io cs k) = fixed cs"
  by (auto simp: fixed_def commit_block_def bcast_def set_pending_def Let_def split: prod.splits option.splits)

lemma frame_try [frame]:
  "fixed (try_commit_inner S ld io cs k force) = fixed cs" "fixed (try_commit S ld io cs k) = fixed cs"
  by (simp_all add: try_commit_def try_commit_inner_def Let_def frame)

section \<open>The vote lock\<close>

text \<open>The vote phase keeps the lock or moves it to the best block.\<close>

lemma vote_phase_cases:
  fixes S :: sodium and ld :: rounding and io :: ac_io and slot :: u64
  obtains (kept) "fixed (vote_phase S ld io cs slot) = fixed cs"
    | (moved) k where "best_pending (ch_height (co_chain cs) + 1) 0 None (co_pending cs) = Some k"
      "co_vote_height cs = ch_height (co_chain cs) + 1 \<Longrightarrow> priority_cmp (pd_priority (co_pending cs ! k)) (co_vote_priority cs) < 0"
      "vote_phase S ld io cs slot = try_commit S ld io ((our_vote_now S ld (snd (slot_vote_for cs slot)) k)
        \<lparr>co_vote_height := ch_height (co_chain cs) + 1, co_vote_block := pd_block_hash (co_pending cs ! k),
          co_vote_priority := pd_priority (co_pending cs ! k)\<rparr>) k"
proof -
  let ?h = "ch_height (co_chain cs) + 1"
  obtain i cs1 where sv: "slot_vote_for cs slot = (i, cs1)" by fastforce
  have s1: "fixed cs1 = fixed cs" "co_pending cs1 = co_pending cs" "co_chain cs1 = co_chain cs"
    using frame_basic(3) [of cs slot] frame_pending(2,7) [of cs slot] by (simp_all add: sv)
  then have v: "co_vote_height cs1 = co_vote_height cs" "co_vote_priority cs1 = co_vote_priority cs" by (simp_all add: fixed_def)
  show thesis
  proof (cases "co_validator cs \<and> \<not> sv_voted (co_slot_votes cs1 ! i) \<and> best_pending ?h 0 None (co_pending cs) \<noteq> None")
    case False
    then have "vote_phase S ld io cs slot = cs \<or> vote_phase S ld io cs slot = cs1" by (auto simp: vote_phase_def sv s1)
    then show ?thesis using kept s1(1) by metis
  next
    case True
    then obtain k where k: "best_pending ?h 0 None (co_pending cs) = Some k" by blast
    show ?thesis
    proof (cases "co_vote_height cs = ?h \<and> priority_cmp (pd_priority (co_pending cs ! k)) (co_vote_priority cs) \<ge> 0")
      case reaffirm: True
      then have "fixed (vote_phase S ld io cs slot) = fixed cs"
        using True k s1 v by (simp add: vote_phase_def sv Let_def frame split: option.split)
      then show ?thesis by (rule kept)
    next
      case False
      then show ?thesis using moved [OF k] True k s1 v by (auto simp: vote_phase_def sv Let_def)
    qed
  qed
qed

text \<open>
  Claim C15. A validator's vote moves only towards lower priority. After the vote phase the lock is what
  it was, or it is on a pending block at the height after the tip whose priority is lowest among all
  votable blocks; and if the validator had already voted at that height, the new priority is strictly
  lower than the one voted for before.
\<close>

theorem vote_phase_lock:
  fixes S :: sodium and ld :: rounding and io :: ac_io and slot :: u64
  assumes "\<forall>p\<in>set (co_pending cs). length (pd_priority p) = 16"
  defines "target \<equiv> ch_height (co_chain cs) + 1" and "cs' \<equiv> vote_phase S ld io cs slot"
  shows "(co_vote_height cs', co_vote_block cs', co_vote_priority cs') = (co_vote_height cs, co_vote_block cs, co_vote_priority cs) \<or>
    (\<exists>p\<in>set (co_pending cs). votable target p \<and> co_vote_height cs' = target \<and> co_vote_block cs' = pd_block_hash p \<and>
       co_vote_priority cs' = pd_priority p \<and>
       (\<forall>q\<in>set (co_pending cs). votable target q \<longrightarrow> priority_cmp (pd_priority p) (pd_priority q) \<le> 0) \<and>
       (co_vote_height cs = target \<longrightarrow> priority_cmp (pd_priority p) (co_vote_priority cs) < 0))"
proof (cases rule: vote_phase_cases [of S ld io cs slot])
  case kept
  then show ?thesis by (simp add: cs'_def fixed_def)
next
  case (moved k)
  note min = best_pending_min(2) [OF assms(1) moved(1)]
  have "fixed cs' = fixed ((our_vote_now S ld (snd (slot_vote_for cs slot)) k)\<lparr>co_vote_height := target,
      co_vote_block := pd_block_hash (co_pending cs ! k), co_vote_priority := pd_priority (co_pending cs ! k)\<rparr>)"
    using moved(3) by (simp add: cs'_def target_def frame)
  then have "co_vote_height cs' = target" "co_vote_block cs' = pd_block_hash (co_pending cs ! k)"
    "co_vote_priority cs' = pd_priority (co_pending cs ! k)" by (simp_all add: fixed_def)
  then show ?thesis using min moved(2) by (intro disjI2 bexI [of _ "co_pending cs ! k"]) (auto simp: target_def)
qed

text \<open>The messages sent only grow.\<close>

lemma out_grows:
  "set (co_out cs) \<subseteq> set (co_out (bcast cs t b))" "set (co_out cs) \<subseteq> set (co_out (commit_block S ld io cs k))"
  "set (co_out cs) \<subseteq> set (co_out (try_commit S ld io cs k))"
proof -
  show b: "set (co_out cs) \<subseteq> set (co_out (bcast cs t b))" for cs t b by (auto simp: bcast_def)
  show c: "set (co_out cs) \<subseteq> set (co_out (commit_block S ld io cs k))" for cs
    by (auto simp: commit_block_def bcast_def set_pending_def Let_def split: prod.splits option.splits)
  show "set (co_out cs) \<subseteq> set (co_out (try_commit S ld io cs k))"
    using c by (fastforce simp: try_commit_def try_commit_inner_def Let_def set_pending_def)
qed

text \<open>The two votes as slashing evidence.\<close>

definition evidence :: "ac_vote \<Rightarrow> ac_vote \<Rightarrow> ac_body_slash" where
  "evidence v w = \<lparr>sl_validator = vo_signer v, sl_height = vo_height v, sl_block_hash_a = vo_block_hash v, sl_sig_a = vo_sig v,
     sl_block_hash_b = vo_block_hash w, sl_sig_b = vo_sig w\<rparr>"

definition our_vote :: "sodium \<Rightarrow> ac_keypair \<Rightarrow> u64 \<Rightarrow> ac_hash \<Rightarrow> bytes \<Rightarrow> ac_vote" where
  "our_vote S kp height bh prf = \<lparr>vo_height = height, vo_block_hash = bh, vo_signer = kp_pk kp,
     vo_sig = ac_sign S (ac_vote_message height bh) kp, vo_proof = prf\<rparr>"

lemma our_vote_sent:
  assumes "co_bcast cs" "co_my_addr cs = kp_pk (co_kp cs)" "fst (am_i_committee S ld cs (pd_slot (co_pending cs ! k))) = Some prf"
  shows "(AC_MSG_COMMIT_VOTE, vote_encode (our_vote S (co_kp cs) (pd_height (co_pending cs ! k)) (pd_block_hash (co_pending cs ! k)) prf))
    \<in> set (co_out (our_vote_now S ld cs k))"
proof -
  obtain c1 where a: "am_i_committee S ld cs (pd_slot (co_pending cs ! k)) = (Some prf, c1)" using assms(3) by (metis prod.collapse)
  have "fixed c1 = fixed cs" using frame_basic(6) [of S ld cs "pd_slot (co_pending cs ! k)"] by (simp add: a)
  then have f: "co_kp c1 = co_kp cs" "co_my_addr c1 = co_my_addr cs" "co_bcast c1 = co_bcast cs" by (simp_all add: fixed_def)
  have g: "co_bcast (snd (slot_vote_for c sl)) = co_bcast c" "co_my_addr (snd (slot_vote_for c sl)) = co_my_addr c" for c sl
    using frame_basic(3) [of c sl] by (simp_all add: fixed_def)
  show ?thesis
    using assms(1,2) by (simp add: our_vote_now_def Let_def a split_beta bcast_def our_vote_def f g set_pending_def)
qed

text \<open>
  Claim C11. Moving the vote is a punishable act: when the vote phase finds a block of lower priority at the
  height at which the validator has already voted, it signs and broadcasts a second vote at that height.
  The two signatures are evidence for which every slashing transaction that passes the checks succeeds,
  although the validator followed the protocol.
\<close>

theorem moved_vote_slashable:
  fixes old :: bytes
  assumes "sodium_ok S" "length sd = 32" "co_kp cs = ac_keypair_from_seed S sd" "co_my_addr cs = kp_pk (co_kp cs)"
    and "co_validator cs" "co_bcast cs" "\<not> sv_voted (co_slot_votes (snd (slot_vote_for cs slot)) ! fst (slot_vote_for cs slot))"
    and "best_pending (ch_height (co_chain cs) + 1) 0 None (co_pending cs) = Some k"
    and "co_vote_height cs = ch_height (co_chain cs) + 1" "pd_height (co_pending cs ! k) = co_vote_height cs"
    and "priority_cmp (pd_priority (co_pending cs ! k)) (co_vote_priority cs) < 0"
    and "fst (am_i_committee S ld cs (pd_slot (co_pending cs ! k))) = Some prf"
    and "wf_hash (co_vote_block cs)" "wf_hash (pd_block_hash (co_pending cs ! k))" "co_vote_block cs \<noteq> pd_block_hash (co_pending cs ! k)"
  defines "v \<equiv> our_vote S (co_kp cs) (co_vote_height cs) (co_vote_block cs) old"
    and "w \<equiv> our_vote S (co_kp cs) (co_vote_height cs) (pd_block_hash (co_pending cs ! k)) prf"
  shows "(AC_MSG_COMMIT_VOTE, vote_encode w) \<in> set (co_out (vote_phase S ld io cs slot)) \<and> wf_slash (evidence v w) \<and>
    (\<forall>s tx sl base_fee. tx_kind tx = AC_TX_SLASH_EVIDENCE \<and> ac_body_slash_decode (tx_body_buf tx) = Some (evidence v w) \<and>
       apply_check s tx sl base_fee = None \<and> acc_stake (snd (ac_state_get s (kp_pk (co_kp cs)))) \<noteq> 0 \<longrightarrow>
       fst (ac_state_apply_tx S s tx sl base_fee) = 0)"
proof -
  obtain i cs1 where sv: "slot_vote_for cs slot = (i, cs1)" by fastforce
  have s1: "fixed cs1 = fixed cs" "co_pending cs1 = co_pending cs" "co_chain cs1 = co_chain cs"
    using frame_basic(3) [of cs slot] frame_pending(2,7) [of cs slot] by (simp_all add: sv)
  then have f: "co_kp cs1 = co_kp cs" "co_my_addr cs1 = co_my_addr cs" "co_bcast cs1" "co_vote_height cs1 = co_vote_height cs"
      "co_vote_priority cs1 = co_vote_priority cs" using assms(6) by (simp_all add: fixed_def)
  have "fst (am_i_committee S ld cs1 sl) = fst (am_i_committee S ld cs sl)" for sl
    by (simp add: am_i_committee_def s1 f split_beta Let_def split: option.split)
  then have pr: "fst (am_i_committee S ld cs1 (pd_slot (co_pending cs1 ! k))) = Some prf" using assms(12) s1 by simp
  have m: "co_my_addr cs1 = kp_pk (co_kp cs1)" using f assms(4) by simp
  note sent = our_vote_sent [OF f(3) m pr]
  let ?c = "(our_vote_now S ld cs1 k)\<lparr>co_vote_height := ch_height (co_chain cs) + 1, co_vote_block := pd_block_hash (co_pending cs ! k),
     co_vote_priority := pd_priority (co_pending cs ! k)\<rparr>"
  have "vote_phase S ld io cs slot = try_commit S ld io ?c k"
    using assms(5,7-9,11) s1 f by (simp add: vote_phase_def sv Let_def)
  moreover have "co_out ?c = co_out (our_vote_now S ld cs1 k)" by simp
  ultimately have out: "(AC_MSG_COMMIT_VOTE, vote_encode w) \<in> set (co_out (vote_phase S ld io cs slot))"
    using sent out_grows(3) [of ?c S ld io k] s1(2) f(1) assms(10) by (auto simp: w_def)
  note kp = sodium_ok_keypair [OF assms(1,2), folded assms(3)]
  have "wf_addr (kp_pk (co_kp cs))" using kp(1) by (simp add: wf)
  then have wf: "wf_slash (evidence v w)"
    using assms(13,14) length_ac_sign [OF assms(1)] by (simp add: wf_slash_def evidence_def v_def w_def our_vote_def wf)
  have "\<not> ac_hash_eq (co_vote_block cs) (pd_block_hash (co_pending cs ! k))" using ac_hash_eq_iff [OF assms(13,14)] assms(15) by simp
  then have "fst (ac_state_apply_tx S s tx sl base_fee) = 0"
    if "tx_kind tx = AC_TX_SLASH_EVIDENCE" "ac_body_slash_decode (tx_body_buf tx) = Some (evidence v w)"
      "apply_check s tx sl base_fee = None" "acc_stake (snd (ac_state_get s (kp_pk (co_kp cs)))) \<noteq> 0" for s tx sl base_fee
    using that(4) kp(4) by (intro slash_evidence_succeeds [OF that(3,1,2)]) (simp_all add: evidence_def v_def w_def our_vote_def)
  then show ?thesis using out wf by blast
qed

section \<open>The engine's threshold and the ledger's\<close>

lemma signers_sqrt_eq:
  assumes "\<forall>x\<in>set ss. AC_MIN_STAKE_UCRD \<le> acc_stake (snd (ac_state_get s (cs_signer x))) \<and>
    f (cs_signer x) = acc_stake (snd (ac_state_get s (cs_signer x)))"
  shows "signers_sqrt s ss = foldl (\<lambda>sum x. sum + ac_isqrt_u64 (f (cs_signer x))) 0 ss"
  unfolding signers_sqrt_def using assms by (intro foldl_cong) (simp_all add: Let_def)

text \<open>
  Claim C34. The engine's test before it seals a block agrees with the one acceptance makes: for signers
  that pass the certificate's checks, the engine sees the threshold reached exactly if the certificate
  has the weight to be accepted, provided that executing the block leaves the live weight as it was.
\<close>

theorem try_threshold_mirrors:
  assumes "ac_chain_total_sqrt_stake c \<noteq> 0" "list_all wf_signer ss" "length ss \<le> AC_COMMITTEE_MAX"
    and "commit_signers S ld (ac_chain__pre_stake_lookup (pre_signers (ch_state c) ss)) calpha vmsg (ac_chain_total_sqrt_stake c) ss 0 = Some w"
    and "ac_chain_live_sqrt_stake (c\<lparr>ch_state := s'\<rparr>) = ac_chain_live_sqrt_stake c"
  shows "try_threshold c ss \<longleftrightarrow> commit_threshold w (ac_chain_live_sqrt_stake (c\<lparr>ch_state := s'\<rparr>)) (ac_chain_total_sqrt_stake c)"
proof -
  have "signers_sqrt (ch_state c) ss = w"
    using signers_sqrt_eq [of ss "ch_state c" "ac_chain__pre_stake_lookup (pre_signers (ch_state c) ss)"]
      commit_signersD [OF assms(4)] pre_stake_lookup_signer [OF assms(2,3), of _ "ch_state c"] by auto
  then show ?thesis
    using assms(1,5) by (auto simp: try_threshold_def commit_threshold_def Let_def word_neq_0_conv)
qed

theorem try_threshold_mirrors_witness:
  "try_threshold demo_chain (map (demo_signer (demo_block_header 1 1)) [1, 2])"
proof -
  let ?ss = "map (demo_signer (demo_block_header 1 1)) [1, 2]"
  have w: "list_all wf_signer ?ss" "length ?ss \<le> AC_COMMITTEE_MAX"
    using demo_wf_block [of "[1, 2]" 1 1] by (simp_all add: wf_block_def demo_block_def)
  have live: "ac_chain_live_sqrt_stake demo_chain = 20000"
    using demo_state_facts(1) by (simp add: ac_chain_live_sqrt_stake_def live_validators_def)
  have c: "commit_signers demo_sodium exact (ac_chain__pre_stake_lookup (pre_signers (ch_state demo_chain) ?ss))
      (committee_alpha demo_seed 1) (ac_vote_message 1 (ac_block_hash demo_sodium (demo_block_header 1 1)))
      (ac_chain_total_sqrt_stake demo_chain) ?ss 0 = Some 20000"
    using demo_commit [of "[1, 2]" "demo_block_header 1 1"] demo_state_facts(1) by (simp add: demo_block_header_def)
  have "demo_chain\<lparr>ch_state := demo_validators\<rparr> = demo_chain" by (simp add: demo_chain_def chain_zero_def)
  then have "ac_chain_live_sqrt_stake (demo_chain\<lparr>ch_state := demo_validators\<rparr>) = 20000" using live by metis
  then show ?thesis
    using try_threshold_mirrors [OF _ w c, of demo_validators] live demo_state_facts(1)
    by (simp add: commit_threshold_def)
qed

section \<open>A validator that moves its vote\<close>

text \<open>The first demo validator has voted for a block of slot 1 when a block of slot 2 with a lower priority arrives.\<close>

definition demo_entry :: "u64 \<Rightarrow> byte \<Rightarrow> pending" where
  "demo_entry slot q = pending_zero\<lparr>pd_occupied := True, pd_height := 1, pd_slot := slot,
     pd_block_hash := replicate 32 q, pd_priority := replicate 16 q\<rparr>"

definition demo_engine :: ac_consensus where
  "demo_engine = (ac_consensus_new \<lparr>cf_chain = demo_chain, cf_mempool = ac_mempool_new 7, cf_keypair = demo_key 1,
       cf_broadcast = True, cf_validator = True\<rparr>)\<lparr>co_pending := [demo_entry 1 9, demo_entry 2 3] @ replicate 6 pending_zero,
     co_vote_height := 1, co_vote_block := replicate 32 9, co_vote_priority := replicate 16 9\<rparr>"

lemma demo_engine_fields:
  "co_chain demo_engine = demo_chain" "co_kp demo_engine = demo_key 1" "co_my_addr demo_engine = 1 # zeros 31"
  "co_validator demo_engine" "co_bcast demo_engine" "co_vote_height demo_engine = 1"
  "co_vote_block demo_engine = replicate 32 9" "co_vote_priority demo_engine = replicate 16 9"
  "co_pending demo_engine = [demo_entry 1 9, demo_entry 2 3] @ replicate 6 pending_zero"
  "co_slot_votes demo_engine = replicate 8 slot_vote_zero"
  by (simp_all add: demo_engine_def ac_consensus_new_def AC_PENDING_MAX_def)

lemma demo_engine_best:
  "best_pending (ch_height (co_chain demo_engine) + 1) 0 None (co_pending demo_engine) = Some 1"
  "fst (slot_vote_for demo_engine 2) = 0" "\<not> sv_voted (co_slot_votes (snd (slot_vote_for demo_engine 2)) ! 0)"
proof -
  have "best_pending 1 0 None ([demo_entry 1 9, demo_entry 2 3] @ replicate 6 pending_zero) = Some 1" by code_simp
  then show "best_pending (ch_height (co_chain demo_engine) + 1) 0 None (co_pending demo_engine) = Some 1"
    by (simp add: demo_engine_fields)
  have "slot_vote_find 2 0 None (replicate 8 slot_vote_zero) = Inr 0" by code_simp
  then show "fst (slot_vote_for demo_engine 2) = 0" "\<not> sv_voted (co_slot_votes (snd (slot_vote_for demo_engine 2)) ! 0)"
    by (simp_all add: demo_engine_fields slot_vote_for_def slot_vote_zero_def)
qed

lemma demo_engine_committee:
  "fst (am_i_committee demo_sodium exact demo_engine 2) =
     Some (fst (ac_vrf_prove demo_sodium (committee_alpha demo_seed 2) (demo_key 1)))"
proof -
  obtain beta where b: "ac_vrf_verify demo_sodium (fst (ac_vrf_prove demo_sodium (committee_alpha demo_seed 2) (demo_key 1)))
      (committee_alpha demo_seed 2) (1 # zeros 31) = Some beta" using demo_vrf by blast
  obtain c where c: "ac_chain_epoch_seed demo_sodium demo_chain 0 = (demo_seed, c)" "same_but_cache demo_chain c"
    using epoch_seed_spec [OF demo_chain_fields(8) surjective_pairing, of demo_sodium 0] by (metis demo_seed_def prod.collapse)
  have "ac_chain_total_sqrt_stake c = 20000"
    using demo_state_facts(1) same_but_cache_fields(1) [OF c(2)] by (simp add: ac_chain_total_sqrt_stake_def)
  then show ?thesis
    using demo_state_facts b c(1)
    by (simp add: am_i_committee_def demo_engine_fields Let_def split_beta ac_epoch_of_def AC_EPOCH_SLOTS_def
        AC_MIN_STAKE_UCRD_def committee_eligible_exact)
qed

theorem vote_phase_lock_witness:
  "co_vote_block (vote_phase demo_sodium exact demo_io demo_engine 2) \<in> {replicate 32 9, replicate 32 3}"
proof -
  have "\<forall>p\<in>set (co_pending demo_engine). length (pd_priority p) = 16"
    by (simp add: demo_engine_fields demo_entry_def pending_zero_def)
  from vote_phase_lock [OF this, of demo_sodium exact demo_io 2] show ?thesis
    by (auto simp: demo_engine_fields votable_def demo_entry_def pending_zero_def)
qed

theorem moved_vote_slashable_witness:
  "\<exists>w. vo_height w = 1 \<and> vo_block_hash w = replicate 32 3 \<and>
     (AC_MSG_COMMIT_VOTE, vote_encode w) \<in> set (co_out (vote_phase demo_sodium exact demo_io demo_engine 2)) \<and>
     wf_slash (evidence (our_vote demo_sodium (demo_key 1) 1 (replicate 32 9) []) w)"
proof -
  have k: "co_pending demo_engine ! 1 = demo_entry 2 3" by (simp add: demo_engine_fields)
  have e: "pd_slot (demo_entry 2 3) = 2" "pd_height (demo_entry 2 3) = 1" "pd_block_hash (demo_entry 2 3) = replicate 32 3"
      "pd_priority (demo_entry 2 3) = replicate 16 3" by (simp_all add: demo_entry_def)
  have "replicate 32 (9 :: byte) \<noteq> replicate 32 3" "priority_cmp (replicate 16 3) (replicate 16 9) < 0"
    by code_simp+
  then show ?thesis
    using moved_vote_slashable [OF sodium_ok_demo demo_key_length, of demo_engine 1 2 1 exact _ demo_io "[]"]
      demo_engine_best demo_engine_committee
    by (intro exI [of _ "our_vote demo_sodium (demo_key 1) 1 (replicate 32 3)
        (fst (ac_vrf_prove demo_sodium (committee_alpha demo_seed 2) (demo_key 1)))"])
      (simp add: demo_engine_fields k e wf our_vote_def flip: demo_key_def)
qed

end
