(* ===== verification/Consensus_Run.thy ===== *)
theory Consensus_Run
  imports Consensus_Rules
begin

text \<open>
  Runs of the consensus engine: any interleaving of received blocks and votes, of the phases of a slot
  and of changes to the pool. The invariant of every run shows that the engine drives the chain only
  through the operations of a chain run, and that committed blocks are final.
\<close>

section \<open>The invariant\<close>

text \<open>The blocks of a chain are read unchanged from a later chain.\<close>

definition chain_keeps :: "ac_chain \<Rightarrow> ac_chain \<Rightarrow> bool" where
  "chain_keeps c c' \<longleftrightarrow> ch_height c \<le> ch_height c' \<and> (\<forall>h\<le>ch_height c. block_read c' h = block_read c h)"

lemma chain_keeps_refl [simp]: "chain_keeps c c"
  by (simp add: chain_keeps_def)

lemma chain_keeps_trans: "chain_keeps a b \<Longrightarrow> chain_keeps b c \<Longrightarrow> chain_keeps a c"
  unfolding chain_keeps_def by (metis order_trans)

lemma same_cache_keeps:
  assumes "same_but_cache c c'"
  shows "chain_keeps c c'"
  using same_but_cache_fields [OF assms] block_read_cong [of c' c] by (simp add: chain_keeps_def)

lemma same_index_keeps:
  assumes "same_but_index c c'"
  shows "chain_keeps c c'"
  using same_but_index_fields [OF assms] block_read_cong [of c' c] by (simp add: chain_keeps_def)

text \<open>The block of a committed entry is on the chain. Height 0 is what the height after the largest one wraps to.\<close>

definition on_chain :: "sodium \<Rightarrow> ac_chain \<Rightarrow> pending \<Rightarrow> bool" where
  "on_chain S c p \<longleftrightarrow> pd_height p = 0 \<or>
     pd_height p \<le> ch_height c \<and> map_option (ac_block_hash S \<circ> b_header) (block_read c (pd_height p)) = Some (pd_block_hash p)"

definition pending_ok :: "sodium \<Rightarrow> ac_chain \<Rightarrow> pending \<Rightarrow> bool" where
  "pending_ok S c p \<longleftrightarrow> length (pd_priority p) = 16 \<and>
     (pd_occupied p \<longrightarrow> wf_block (pd_block p) \<and> list_all wf_signer (pd_signers p) \<and> length (pd_signers p) \<le> AC_COMMITTEE_MAX \<and>
        pd_block_hash p = ac_block_hash S (b_header (pd_block p)) \<and> pd_height p = h_height (b_header (pd_block p)) \<and>
        pd_slot p = h_slot (b_header (pd_block p)) \<and> (pd_committed p \<longrightarrow> on_chain S c p))"

lemma on_chain_update [simp]:
  "on_chain S c (p\<lparr>pd_signers := ss\<rparr>) = on_chain S c p" "on_chain S c (p\<lparr>pd_block := b\<rparr>) = on_chain S c p"
  "on_chain S c (p\<lparr>pd_committed := x\<rparr>) = on_chain S c p" "on_chain S c (p\<lparr>pd_threshold_reached_ms := t64\<rparr>) = on_chain S c p"
  by (simp_all add: on_chain_def)

lemma pending_ok_keeps: "pending_ok S c p \<Longrightarrow> chain_keeps c c' \<Longrightarrow> pending_ok S c' p"
  unfolding pending_ok_def on_chain_def chain_keeps_def by (metis order_trans)

definition pool_wf :: "ac_mempool \<Rightarrow> bool" where
  "pool_wf mp \<longleftrightarrow> list_all (\<lambda>e. wf_tx (me_tx e)) (mp_entries mp)"

definition engine_ok :: "sodium \<Rightarrow> rounding \<Rightarrow> ac_consensus \<Rightarrow> bool" where
  "engine_ok S ld cs \<longleftrightarrow> chain_reach S ld (co_chain cs) \<and> length (co_pending cs) = AC_PENDING_MAX \<and>
     length (co_slot_votes cs) = AC_PENDING_MAX \<and> list_all (pending_ok S (co_chain cs)) (co_pending cs) \<and>
     pool_wf (co_mempool cs) \<and> wf_addr (kp_pk (co_kp cs)) \<and> co_my_addr cs = kp_pk (co_kp cs)"

lemma engine_ok_pending:
  assumes "engine_ok S ld cs" "k < AC_PENDING_MAX"
  shows "pending_ok S (co_chain cs) (co_pending cs ! k)" "k < length (co_pending cs)"
  using assms by (simp_all add: engine_ok_def list_all_length)

text \<open>A chain step under an engine, and a new entry in its table.\<close>

lemma engine_ok_chain:
  assumes "engine_ok S ld cs" "chain_reach S ld c" "chain_keeps (co_chain cs) c"
  shows "engine_ok S ld (cs\<lparr>co_chain := c\<rparr>)"
  using assms pending_ok_keeps [OF _ assms(3)] by (simp add: engine_ok_def list_all_iff)

lemma engine_ok_set:
  assumes "engine_ok S ld cs" "pending_ok S (co_chain cs) p"
  shows "engine_ok S ld (set_pending cs k p)"
  using assms set_update_subset_insert [of "co_pending cs" k p] by (auto simp: engine_ok_def set_pending_def list_all_iff)

section \<open>Steps that leave the ledger alone\<close>

text \<open>An operation is calm when it keeps the invariant and changes nothing of the chain but the cached seed.\<close>

definition calm :: "sodium \<Rightarrow> rounding \<Rightarrow> ac_consensus \<Rightarrow> ac_consensus \<Rightarrow> bool" where
  "calm S ld cs cs' \<longleftrightarrow> engine_ok S ld cs \<longrightarrow> engine_ok S ld cs' \<and> same_but_cache (co_chain cs) (co_chain cs')"

named_theorems calm

lemma calm_refl [calm]: "calm S ld cs cs"
  by (simp add: calm_def)

lemma calm_trans [trans]: "calm S ld a b \<Longrightarrow> calm S ld b c \<Longrightarrow> calm S ld a c"
  unfolding calm_def using same_but_cache_trans by blast

lemma calm_fields:
  assumes "co_chain cs' = co_chain cs" "co_pending cs' = co_pending cs" "length (co_slot_votes cs') = length (co_slot_votes cs)"
    "co_mempool cs' = co_mempool cs" "co_kp cs' = co_kp cs" "co_my_addr cs' = co_my_addr cs"
  shows "calm S ld cs cs'"
  using assms by (simp add: calm_def engine_ok_def)

lemma calm_tables [calm]:
  "calm S ld cs (bcast cs t b)" "calm S ld cs (snd (slot_vote_for cs sl))" "calm S ld cs (record_priority cs sl q)"
  "calm S ld cs (request_headers io cs t64)" "calm S ld cs (cs\<lparr>co_slot_votes := (co_slot_votes cs)[i := v]\<rparr>)"
  "calm S ld cs (cs\<lparr>co_vote_height := h, co_vote_block := bh, co_vote_priority := q\<rparr>)"
  by (rule calm_fields; auto simp: bcast_def slot_vote_for_def record_priority_def request_headers_def Let_def
      split: sum.splits prod.splits)+

lemma calm_set: "(engine_ok S ld cs \<Longrightarrow> pending_ok S (co_chain cs) p) \<Longrightarrow> calm S ld cs (set_pending cs k p)"
  unfolding calm_def using engine_ok_set [of S ld cs p k] by (simp add: set_pending_def)

lemma seed_same:
  assumes "sodium_ok S" "chain_reach S ld c"
  shows "same_but_cache c (snd (ac_chain_epoch_seed S c e))"
  using epoch_seed_spec(2) [OF _ surjective_pairing] reach_inv [OF assms(2,1)] by (simp add: chain_inv_defs)

lemma calm_seed:
  assumes "sodium_ok S"
  shows "calm S ld cs (cs\<lparr>co_chain := snd (ac_chain_epoch_seed S (co_chain cs) e)\<rparr>)"
proof -
  have "engine_ok S ld cs \<Longrightarrow> same_but_cache (co_chain cs) (snd (ac_chain_epoch_seed S (co_chain cs) e)) \<and>
      chain_reach S ld (snd (ac_chain_epoch_seed S (co_chain cs) e))"
    using seed_same [OF assms] chain_reach.seed unfolding engine_ok_def by blast
  then show ?thesis
    unfolding calm_def using engine_ok_chain same_cache_keeps by auto
qed

lemma calm_sortition [calm]:
  assumes "sodium_ok S"
  shows "calm S ld cs (snd (am_i_leader S ld cs sl))" "calm S ld cs (snd (am_i_committee S ld cs sl))"
proof -
  have "snd (am_i_leader S ld cs sl) \<in> {cs, cs\<lparr>co_chain := snd (ac_chain_epoch_seed S (co_chain cs) (ac_epoch_of sl))\<rparr>}"
    "snd (am_i_committee S ld cs sl) \<in> {cs, cs\<lparr>co_chain := snd (ac_chain_epoch_seed S (co_chain cs) (ac_epoch_of sl))\<rparr>}"
    by (auto simp: am_i_leader_def am_i_committee_def Let_def split_beta split: option.splits)
  then show "calm S ld cs (snd (am_i_leader S ld cs sl))" "calm S ld cs (snd (am_i_committee S ld cs sl))"
    using calm_seed [OF assms] calm_refl by auto
qed

lemma add_signer_wf:
  assumes "list_all wf_signer ss" "length ss \<le> AC_COMMITTEE_MAX" "wf_signer x"
  shows "list_all wf_signer (add_signer ss x) \<and> length (add_signer ss x) \<le> AC_COMMITTEE_MAX"
  using assms by (auto simp: add_signer_def)

lemma add_signers_wf:
  assumes "list_all wf_signer ss" "length ss \<le> AC_COMMITTEE_MAX" "list_all wf_signer xs"
  shows "list_all wf_signer (foldl add_signer ss xs) \<and> length (foldl add_signer ss xs) \<le> AC_COMMITTEE_MAX"
  using assms
proof (induction xs arbitrary: ss)
  case (Cons x xs)
  then show ?case using add_signer_wf [of ss x] by simp
qed simp

lemma calm_our_vote:
  assumes "sodium_ok S" "k < AC_PENDING_MAX" "pd_occupied (co_pending cs ! k)"
  shows "calm S ld cs (our_vote_now S ld cs k)"
proof -
  let ?p = "co_pending cs ! k"
  obtain r c1 where a: "am_i_committee S ld cs (pd_slot ?p) = (r, c1)" by fastforce
  have c1: "calm S ld cs c1" using calm_sortition(2) [OF assms(1), of ld cs "pd_slot ?p"] by (simp add: a)
  have p1: "co_pending c1 = co_pending cs" using frame_pending(5) [of S ld cs "pd_slot ?p"] by (simp add: a)
  show ?thesis
  proof (cases r)
    case None
    then show ?thesis using c1 by (simp add: our_vote_now_def Let_def a)
  next
    case (Some cproof)
    then have "cproof = fst (ac_vrf_prove S (committee_alpha (fst (ac_chain_epoch_seed S (co_chain cs) (ac_epoch_of (pd_slot ?p))))
        (pd_slot ?p)) (co_kp cs))"
      using a by (auto simp: am_i_committee_def Let_def split_beta split: option.splits if_splits)
    then have l: "length cproof = 64" using length_ac_vrf_proof [OF assms(1)] by simp
    define x where "x = \<lparr>cs_signer = co_my_addr c1, cs_sig = ac_sign S (ac_vote_message (pd_height ?p) (pd_block_hash ?p)) (co_kp c1),
        cs_vrf_proof = take 64 cproof\<rparr>"
    define c2 where "c2 = set_pending c1 k (?p\<lparr>pd_signers := add_signer (pd_signers ?p) x\<rparr>)"
    have "calm S ld c1 c2"
      unfolding c2_def
    proof (rule calm_set)
      assume e: "engine_ok S ld c1"
      then have "wf_signer x"
        using l length_ac_sign [OF assms(1)] by (simp add: x_def wf_signer_def engine_ok_def wf)
      then show "pending_ok S (co_chain c1) (?p\<lparr>pd_signers := add_signer (pd_signers ?p) x\<rparr>)"
        using engine_ok_pending(1) [OF e assms(2)] assms(3) add_signer_wf by (simp add: pending_ok_def p1)
    qed
    also obtain i c3 where s: "slot_vote_for c2 (pd_slot ?p) = (i, c3)" by fastforce
    then have "calm S ld c2 c3" using calm_tables(2) [of S ld c2 "pd_slot ?p"] by simp
    also note calm_tables(5) also note calm_tables(1)
    finally show ?thesis
      using calm_trans [OF c1] by (simp add: our_vote_now_def Let_def a Some s [unfolded c2_def x_def])
  qed
qed

lemma pending_slot_less:
  "(\<And>j t. oldest = Some (j, t) \<Longrightarrow> j < i) \<Longrightarrow> (oldest = None \<Longrightarrow> ps \<noteq> []) \<Longrightarrow> pending_slot i oldest ps < i + length ps"
proof (induction ps arbitrary: i oldest)
  case Nil
  then show ?case by (cases oldest) auto
next
  case (Cons p ps)
  show ?case
  proof (cases "pd_occupied p")
    case True
    let ?o = "case oldest of None \<Rightarrow> Some (i, pd_first_seen_ms p)
      | Some (j, t) \<Rightarrow> if pd_first_seen_ms p < t then Some (i, pd_first_seen_ms p) else oldest"
    have "j < Suc i" if "?o = Some (j, t)" for j t
      using that Cons.prems(1) by (auto split: option.splits if_splits simp: less_Suc_eq)
    moreover have "?o \<noteq> None" by (simp split: option.split)
    ultimately have "pending_slot (Suc i) ?o ps < Suc i + length ps" by (intro Cons.IH) auto
    then show ?thesis using True by simp
  qed simp
qed

text \<open>The entry that is allocated is overwritten before anything reads the table.\<close>

lemma alloc_set:
  assumes "pending_alloc io cs = (k, cs1)"
  shows "set_pending (cs1\<lparr>co_chain := c\<rparr>) k p = set_pending (cs\<lparr>co_chain := c\<rparr>) k p" "set_pending cs1 k p = set_pending cs k p"
    "co_chain cs1 = co_chain cs" "co_kp cs1 = co_kp cs"
    "length (co_pending cs) = AC_PENDING_MAX \<Longrightarrow>
      k < AC_PENDING_MAX \<and> co_pending cs1 ! k = pending_zero\<lparr>pd_occupied := True, pd_first_seen_ms := io_now_ms io\<rparr>"
proof -
  have k: "k = pending_slot 0 None (co_pending cs)"
    "cs1 = set_pending cs k (pending_zero\<lparr>pd_occupied := True, pd_first_seen_ms := io_now_ms io\<rparr>)"
    using assms by (auto simp: pending_alloc_def Let_def)
  then show "set_pending (cs1\<lparr>co_chain := c\<rparr>) k p = set_pending (cs\<lparr>co_chain := c\<rparr>) k p" "set_pending cs1 k p = set_pending cs k p"
    "co_chain cs1 = co_chain cs" "co_kp cs1 = co_kp cs"
    by (simp_all add: set_pending_def)
  assume l: "length (co_pending cs) = AC_PENDING_MAX"
  then have "co_pending cs \<noteq> []" by (auto simp: AC_PENDING_MAX_def)
  then have "k < AC_PENDING_MAX" using pending_slot_less [of None 0 "co_pending cs"] k(1) l by simp
  then show "k < AC_PENDING_MAX \<and> co_pending cs1 ! k = pending_zero\<lparr>pd_occupied := True, pd_first_seen_ms := io_now_ms io\<rparr>"
    using k(2) l by (simp add: set_pending_def)
qed

section \<open>Steps that may extend the ledger\<close>

definition sound :: "sodium \<Rightarrow> rounding \<Rightarrow> ac_consensus \<Rightarrow> ac_consensus \<Rightarrow> bool" where
  "sound S ld cs cs' \<longleftrightarrow> engine_ok S ld cs \<and> small_state (ch_state (co_chain cs)) \<longrightarrow>
     engine_ok S ld cs' \<and> chain_keeps (co_chain cs) (co_chain cs')"

lemma calm_sound: "calm S ld cs cs' \<Longrightarrow> sound S ld cs cs'"
  using same_cache_keeps by (auto simp: calm_def sound_def)

lemma calm_then_sound [trans]:
  assumes "calm S ld a b" "sound S ld b c"
  shows "sound S ld a c"
  using assms same_but_cache_fields(1) same_cache_keeps chain_keeps_trans unfolding calm_def sound_def by metis

lemma accept_dup:
  assumes "ac_chain_accept_block S ld io c b = (AC_ACCEPT_DUP, c')"
  shows "accept_precheck S io c (b_header b) = Some AC_ACCEPT_DUP"
proof (cases "accept_precheck S io c (b_header b)")
  case None
  have "fst (accept_persist S io d b) \<noteq> AC_ACCEPT_DUP" "fst (accept_execute S ld d b) \<noteq> Some AC_ACCEPT_DUP" for d
    by (simp_all add: accept_persist_def accept_execute_def Let_def split: prod.splits bool.splits)
  then show ?thesis
    using assms None by (auto simp: ac_chain_accept_block_def split: prod.splits bool.splits if_splits option.splits) (metis fst_conv)+
next
  case (Some r)
  then show ?thesis using assms by (simp add: ac_chain_accept_block_def)
qed

lemma inv_block_hash:
  assumes "chain_inv S c" "h \<le> ch_height c" "ac_chain_get_block_hash S c h = Some x"
  shows "map_option (ac_block_hash S \<circ> b_header) (block_read c h) = Some x"
proof (cases "h = ch_height c")
  case True
  have "\<forall>n\<le>unat (ch_height c). \<exists>b. block_read c (of_nat n) = Some b" "ch_tip_hash c = ac_block_hash S (header_at c (unat (ch_height c)))"
    using assms(1) by (auto simp: chain_inv_defs Let_def)
  then obtain b where "block_read c h = Some b" "ch_tip_hash c = ac_block_hash S (b_header b)"
    using True by (auto simp: header_at_def)
  then show ?thesis using assms(3) True by (simp add: ac_chain_get_block_hash_def)
next
  case False
  then show ?thesis
    using assms(3) by (auto simp: ac_chain_get_block_hash_def ac_chain_get_header_by_height_def option.map_comp)
qed

text \<open>The chain after an accepted, known or rejected block.\<close>

lemma accept_keeps:
  assumes "sodium_ok S" "chain_reach S ld c" "small_state (ch_state c)" "wf_block b" "io_ok io"
    and "ac_chain_accept_block S ld io c b = (r, c')"
  shows "chain_reach S ld c'" "chain_keeps c c'"
    and "r \<in> {AC_ACCEPT_OK, AC_ACCEPT_DUP} \<Longrightarrow> pd_height p = h_height (b_header b) \<Longrightarrow>
      pd_block_hash p = ac_block_hash S (b_header b) \<Longrightarrow> on_chain S c' p"
proof -
  show "chain_reach S ld c'" using chain_reach.accept [OF assms(2-5)] assms(6) by simp
  note inv = reach_inv [OF assms(2,1)]
  note tip = inv_tip [OF assms(1) inv]
  have "chain_keeps c c' \<and> (r \<in> {AC_ACCEPT_OK, AC_ACCEPT_DUP} \<and> pd_height p = h_height (b_header b) \<and>
      pd_block_hash p = ac_block_hash S (b_header b) \<longrightarrow> on_chain S c' p)" for p
    using tip(3) assms(3-6)
  proof (cases rule: accept_outcome)
    case same
    note k = same_cache_keeps [OF same(2)]
    show ?thesis
    proof (cases "r = AC_ACCEPT_DUP \<and> h_height (b_header b) \<noteq> 0")
      case True
      then have "accept_precheck S io c (b_header b) = Some AC_ACCEPT_DUP" using accept_dup assms(6) by blast
      then obtain x where x: "h_height (b_header b) \<le> ch_height c" "ac_chain_get_block_hash S c (h_height (b_header b)) = Some x"
          "ac_hash_eq x (ac_block_hash S (b_header b))"
        using True by (auto simp: accept_precheck_def Let_def split: if_splits option.splits)
      note m = inv_block_hash [OF inv x(1,2)]
      then have "wf_hash x" using wf_block_hash [OF assms(1)] by auto
      then have "x = ac_block_hash S (b_header b)" using x(3) ac_hash_eq_iff [OF _ wf_block_hash [OF assms(1)]] by simp
      then show ?thesis using k m x(1) by (auto simp: on_chain_def chain_keeps_def)
    next
      case False
      then show ?thesis using k same(1) by (auto simp: on_chain_def)
    qed
  next
    case (extended s' c2 buf)
    note v = block_valid_facts [OF assms(1) tip(2,1) assms(4) extended(2)]
    have "block_read c2 h = block_read c h" for h
      by (rule block_read_cong) (simp add: same_but_cache_fields [OF extended(3)])
    then have read: "block_read c' h = (if h = h_height (b_header b) then Some b else block_read c h)" for h
      using extend_block_read [OF assms(4) extended(4)] extended(5) by simp
    have "ch_height c < h_height (b_header b)" using v(1) by (simp add: word_less_nat_alt)
    then show ?thesis
      using read by (auto simp: chain_keeps_def on_chain_def extended(5) extend_fields)
  qed
  then show "chain_keeps c c'" "r \<in> {AC_ACCEPT_OK, AC_ACCEPT_DUP} \<Longrightarrow> pd_height p = h_height (b_header b) \<Longrightarrow>
      pd_block_hash p = ac_block_hash S (b_header b) \<Longrightarrow> on_chain S c' p"
    by blast+
qed

lemma pool_remove_wf: "pool_wf mp \<Longrightarrow> pool_wf (ac_mempool_remove mp h)"
proof -
  assume w: "pool_wf mp"
  have "set (remove_at i es) \<subseteq> set es" for i and es :: "mp_entry list"
    by (auto simp: remove_at_def dest: in_set_takeD in_set_dropD)
  with w show ?thesis by (auto simp: pool_wf_def ac_mempool_remove_def Let_def list_all_iff)
qed

lemma pool_removes_wf: "pool_wf mp \<Longrightarrow> pool_wf (foldl (\<lambda>mp tx. ac_mempool_remove mp (f tx)) mp txs)"
  by (induction txs arbitrary: mp) (simp_all add: pool_remove_wf)

lemma pool_prune_wf: "pool_wf mp \<Longrightarrow> pool_wf (snd (ac_mempool_prune_expired mp slot))"
  by (auto simp: pool_wf_def ac_mempool_prune_expired_def prune_loop_filter list_all_iff split: prod.splits)

lemma commit_sound:
  assumes "sodium_ok S" "io_ok io" "k < AC_PENDING_MAX" "pd_occupied (co_pending cs ! k)"
  shows "sound S ld cs (commit_block S ld io cs k)"
  unfolding sound_def
proof (intro impI)
  assume e: "engine_ok S ld cs \<and> small_state (ch_state (co_chain cs))"
  define p where "p = co_pending cs ! k"
  define blk where "blk = (pd_block p)\<lparr>b_signers := pd_signers p\<rparr>"
  obtain r c where a: "ac_chain_accept_block S ld io (co_chain cs) blk = (r, c)" by fastforce
  have p: "pending_ok S (co_chain cs) p" "pd_occupied p" using engine_ok_pending(1) [of S ld cs k] e assms(3,4) by (simp_all add: p_def)
  then have w: "wf_block blk" "wf_block ((pd_block p)\<lparr>b_signers := []\<rparr>)" by (simp_all add: blk_def pending_ok_def wf_block_def)
  note k = accept_keeps [OF assms(1) _ _ w(1) assms(2) a]
  have c: "chain_reach S ld c" "chain_keeps (co_chain cs) c" using k(1,2) e by (simp_all add: engine_ok_def)
  note e1 = engine_ok_chain [OF conjunct1 [OF e] c]
  note pc = pending_ok_keeps [OF p(1) c(2)]
  let ?cs = "commit_block S ld io cs k" and ?c = "cs\<lparr>co_chain := c\<rparr>"
  let ?q = "p\<lparr>pd_committed := True, pd_block := blk\<rparr>" and ?q' = "p\<lparr>pd_block := (pd_block p)\<lparr>b_signers := []\<rparr>\<rparr>"
  have "engine_ok S ld ?cs \<and> co_chain ?cs = c"
  proof (cases "r = AC_ACCEPT_OK \<or> r = AC_ACCEPT_DUP")
    case True
    then have "on_chain S c p" using k(3) [of p] e p by (auto simp: engine_ok_def pending_ok_def blk_def)
    then have "pending_ok S c ?q" using pc p(2) w(1) by (simp add: pending_ok_def blk_def)
    then have "engine_ok S ld (set_pending ?c k ?q)" using engine_ok_set [OF e1] by simp
    then have e2: "engine_ok S ld ((set_pending ?c k ?q)\<lparr>co_mempool := foldl (\<lambda>mp tx. ac_mempool_remove mp (ac_tx_hash S tx))
        (co_mempool cs) (b_txs blk)\<rparr>)"
      using pool_removes_wf [of "co_mempool cs"] by (simp add: engine_ok_def set_pending_def)
    then have "engine_ok S ld (bcast ((set_pending ?c k ?q)\<lparr>co_mempool := foldl (\<lambda>mp tx. ac_mempool_remove mp (ac_tx_hash S tx))
        (co_mempool cs) (b_txs blk)\<rparr>) t b)" for t b using calm_tables(1) by (auto simp: calm_def)
    with e2 True show ?thesis
      by (simp add: commit_block_def Let_def a set_pending_def frame flip: p_def blk_def split: option.split)
  next
    case False
    have "pending_ok S c ?q'" using pc w(2) by (simp add: pending_ok_def)
    then have "engine_ok S ld (set_pending ?c k ?q')" using engine_ok_set [OF e1] by simp
    with False show ?thesis by (simp add: commit_block_def Let_def a frame flip: p_def blk_def)
  qed
  with c(2) show "engine_ok S ld ?cs \<and> chain_keeps (co_chain cs) (co_chain ?cs)" by simp
qed

lemma try_sound:
  assumes "sodium_ok S" "io_ok io" "k < AC_PENDING_MAX"
  shows "sound S ld cs (try_commit_inner S ld io cs k force)" "sound S ld cs (try_commit S ld io cs k)"
proof -
  let ?p = "co_pending cs ! k"
  define p where "p = (if pd_threshold_reached_ms ?p = 0 then ?p\<lparr>pd_threshold_reached_ms := io_now_ms io\<rparr> else ?p)"
  have c: "calm S ld cs (set_pending cs k p)"
    using engine_ok_pending(1) [OF _ assms(3), of S ld cs] by (intro calm_set) (simp add: p_def pending_ok_def)
  have "sound S ld (set_pending cs k p) (commit_block S ld io (set_pending cs k p) k)" if "pd_occupied ?p" "engine_ok S ld cs"
    using engine_ok_pending(2) [OF that(2) assms(3)] that(1) commit_sound [OF assms, of "set_pending cs k p"]
    by (simp add: set_pending_def p_def)
  then have d: "sound S ld cs (commit_block S ld io (set_pending cs k p) k)" if "pd_occupied ?p"
    using calm_then_sound [OF c] that by (meson sound_def)
  show i: "sound S ld cs (try_commit_inner S ld io cs k force)" for force
  proof (cases "\<not> pd_occupied ?p \<or> pd_committed ?p \<or> \<not> try_threshold (co_chain cs) (pd_signers ?p)")
    case True
    then show ?thesis using calm_sound [OF calm_refl] by (auto simp: try_commit_inner_def Let_def)
  next
    case False
    then show ?thesis
      using d calm_sound [OF c] by (simp add: try_commit_inner_def Let_def flip: p_def)
  qed
  show "sound S ld cs (try_commit S ld io cs k)" using i by (simp add: try_commit_def)
qed

lemma pending_find_Some:
  "pending_find ps bh = Some k \<Longrightarrow> k < length ps \<and> pd_occupied (ps ! k) \<and> ac_hash_eq (pd_block_hash (ps ! k)) bh"
  by (induction ps arbitrary: k) (auto split: if_splits)

lemma length_priority: "length (compute_priority S beta w) = 16"
  by (simp add: compute_priority_def Let_def)

lemma add_sound:
  assumes "sodium_ok S" "io_ok io" "pending_find (co_pending cs) bh = Some k" "list_all wf_signer xs"
  shows "sound S ld cs (try_commit S ld io (set_pending cs k ((co_pending cs ! k)
    \<lparr>pd_signers := foldl add_signer (pd_signers (co_pending cs ! k)) xs\<rparr>)) k)"
proof (cases "engine_ok S ld cs")
  case True
  let ?p = "co_pending cs ! k"
  have k: "k < AC_PENDING_MAX" "pd_occupied ?p" using pending_find_Some [OF assms(3)] True by (simp_all add: engine_ok_def)
  have "pending_ok S (co_chain cs) (?p\<lparr>pd_signers := foldl add_signer (pd_signers ?p) xs\<rparr>)"
    using engine_ok_pending(1) [OF True k(1)] k(2) add_signers_wf [OF _ _ assms(4)] by (simp add: pending_ok_def)
  then show ?thesis using calm_then_sound [OF calm_set try_sound(2)] assms(1,2) k(1) by blast
qed (simp add: sound_def)

lemma stash_sound:
  assumes "sodium_ok S" "io_ok io" "wf_block b"
  shows "sound S ld cs (stash_proposal S ld io cs b)"
proof -
  let ?h = "b_header b"
  obtain seed c where e: "ac_chain_epoch_seed S (co_chain cs) (ac_epoch_of (h_slot ?h)) = (seed, c)" by fastforce
  have c: "calm S ld cs (cs\<lparr>co_chain := c\<rparr>)" using calm_seed [OF assms(1), of ld cs "ac_epoch_of (h_slot ?h)"] by (simp add: e)
  obtain k cs1 where al: "pending_alloc io (cs\<lparr>co_chain := c\<rparr>) = (k, cs1)" by fastforce
  note al' = alloc_set [OF al]
  show ?thesis
  proof (cases "ac_vrf_verify S (h_proposer_vrf_proof ?h) (leader_alpha seed (h_slot ?h)) (h_proposer ?h)")
    case None
    then show ?thesis using calm_sound [OF c] by (simp add: stash_proposal_def Let_def e)
  next
    case (Some beta)
    define p where "p = (co_pending cs1 ! k)\<lparr>pd_height := h_height ?h, pd_slot := h_slot ?h, pd_block_hash := ac_block_hash S ?h,
       pd_block := b\<lparr>b_signers := []\<rparr>, pd_signers := take AC_COMMITTEE_MAX (b_signers b),
       pd_priority := compute_priority S beta (ac_isqrt_u64 (acc_stake (snd (ac_state_get (ch_state (co_chain cs1)) (h_proposer ?h)))))\<rparr>"
    have "sound S ld (cs\<lparr>co_chain := c\<rparr>) (try_commit S ld io (record_priority (set_pending (cs\<lparr>co_chain := c\<rparr>) k p) (h_slot ?h) (pd_priority p)) k)"
    proof (cases "engine_ok S ld (cs\<lparr>co_chain := c\<rparr>)")
      case True
      then have k: "k < AC_PENDING_MAX" "co_pending cs1 ! k = pending_zero\<lparr>pd_occupied := True, pd_first_seen_ms := io_now_ms io\<rparr>"
        using al'(5) by (simp_all add: engine_ok_def)
      have "pending_ok S c p"
        using assms(3) k(2) length_priority
        by (auto simp: pending_ok_def p_def wf_block_def pending_zero_def list_all_iff dest: in_set_takeD)
      then have "calm S ld (cs\<lparr>co_chain := c\<rparr>) (set_pending (cs\<lparr>co_chain := c\<rparr>) k p)" by (intro calm_set) simp
      also note calm_tables(3)
      finally show ?thesis using calm_then_sound try_sound(2) [OF assms(1,2) k(1)] by blast
    qed (simp add: sound_def)
    then show ?thesis
      using calm_then_sound [OF c] by (simp add: stash_proposal_def Let_def e Some al al'(2) p_def)
  qed
qed

lemma handle_block_sound:
  assumes "sodium_ok S" "io_ok io"
  shows "sound S ld cs (ac_consensus_handle_block S ld io cs buf)"
proof (cases "ac_block_decode buf")
  case (Some bn)
  obtain b n where bn: "bn = (b, n)" by fastforce
  then have w: "wf_block b" using block.dec_good Some by blast
  then have ws: "list_all wf_signer (b_signers b)" by (simp add: wf_block_def)
  show ?thesis
    using add_sound [OF assms _ ws, of cs _ _ ld] stash_sound [OF assms w, of ld cs] calm_sound [OF calm_refl] calm_sound [OF calm_tables(4)]
    by (simp add: ac_consensus_handle_block_def Some bn Let_def split: option.split)
qed (simp add: ac_consensus_handle_block_def calm_sound calm_refl)

lemma handle_vote_sound:
  assumes "sodium_ok S" "io_ok io"
  shows "sound S ld cs (ac_consensus_handle_vote S ld io cs buf)"
proof (cases "vote_decode buf")
  case (Some v)
  then have "wf_vote v" by (rule vote.dec_good)
  show ?thesis
  proof (cases "pending_find (co_pending cs) (vo_block_hash v)")
    case None
    then show ?thesis using calm_sound [OF calm_refl] by (simp add: ac_consensus_handle_vote_def Some)
  next
    case k: (Some k)
    let ?p = "co_pending cs ! k"
    obtain seed c where e: "ac_chain_epoch_seed S (co_chain cs) (ac_epoch_of (pd_slot ?p)) = (seed, c)" by fastforce
    have c: "calm S ld cs (cs\<lparr>co_chain := c\<rparr>)" using calm_seed [OF assms(1), of ld cs "ac_epoch_of (pd_slot ?p)"] by (simp add: e)
    have "list_all wf_signer [\<lparr>cs_signer = vo_signer v, cs_sig = vo_sig v, cs_vrf_proof = vo_proof v\<rparr>]"
      using \<open>wf_vote v\<close> by (simp add: wf_vote_def wf_signer_def)
    from calm_then_sound [OF c add_sound [OF assms _ this, of "cs\<lparr>co_chain := c\<rparr>" "vo_block_hash v" k ld]]
    show ?thesis
      using k calm_sound [OF c] calm_sound [OF calm_refl]
      by (simp add: ac_consensus_handle_vote_def Some Let_def e split: option.split)
  qed
qed (simp add: ac_consensus_handle_vote_def calm_sound calm_refl)

lemma build_result:
  assumes "sodium_ok S" "chain_inv S c" "small_state (ch_state c)" "list_all wf_tx cands" "length cands \<le> AC_BLOCK_MAX_TXS"
    and "wf_addr (kp_pk kp)" "ac_chain_build_block S c slot kp cands = (r, c')"
  shows "same_but_cache c c'"
    and "r = Some b \<Longrightarrow> length q = 64 \<Longrightarrow> wf_block (b\<lparr>b_header := (b_header b)\<lparr>h_proposer_vrf_proof := q\<rparr>\<rparr>) \<and> h_slot (b_header b) = slot"
proof -
  have ok: "wf_state (ch_state c)" "cache_ok S c" "wf_hash (ch_tip_hash c)"
    using assms(2) inv_tip [OF assms(1,2)] by (simp_all add: chain_inv_defs)
  have "same_but_cache c c' \<and> wf_block (b\<lparr>b_header := (b_header b)\<lparr>h_proposer_vrf_proof := q\<rparr>\<rparr>) \<and> h_slot (b_header b) = slot"
    if r: "r = Some b" and q: "length q = 64" for b q
  proof -
    from ok(1) assms(3) ok(2) assms(4,6,7) [unfolded r] show ?thesis
    proof (cases rule: build_block_cases)
      case (1 kept s gas tips)
      have sub: "subseq kept cands" using build_txs_accept [OF 1(5)] by simp
      have "list_all wf_tx kept" "length kept \<le> 4096"
        using assms(4,5) sub list_emb_length [OF sub] by (auto simp: list_all_iff elim: list_emb_set)
      then show ?thesis
        using 1 ok(3) q assms(6) wf_state_root [OF assms(1)] wf_tx_root [OF assms(1)]
        by (simp add: wf_block_def wf_header_def unat_of_nat)
    qed
  qed
  then show "r = Some b \<Longrightarrow> length q = 64 \<Longrightarrow> wf_block (b\<lparr>b_header := (b_header b)\<lparr>h_proposer_vrf_proof := q\<rparr>\<rparr>) \<and> h_slot (b_header b) = slot"
    "same_but_cache c c'"
    using \<open>\<And>q b. r = Some b \<Longrightarrow> length q = 64 \<Longrightarrow> _\<close> [of _ "zeros 64"] assms(7)
    by (auto simp: ac_chain_build_block_def Let_def split_beta split: if_splits)
qed

text \<open>The proposer's own block enters the table as a received one does.\<close>

lemma propose_sound:
  assumes "sodium_ok S" "io_ok io" "pending_alloc io cs = (k, cs1)" "wf_block b" "b_signers b = []"
    and "ac_chain_epoch_seed S (co_chain cs1) e = (seed, c)" "length q = 16"
  defines "p \<equiv> (co_pending cs1 ! k)\<lparr>pd_height := h_height (b_header b), pd_slot := h_slot (b_header b),
      pd_block_hash := ac_block_hash S (b_header b), pd_block := b, pd_signers := [], pd_priority := q\<rparr>"
  shows "sound S ld cs (try_commit S ld io (record_priority (set_pending (cs1\<lparr>co_chain := c\<rparr>) k p) (h_slot (b_header b)) q) k)"
    "sound S ld cs (try_commit S ld io (bcast (record_priority (set_pending (cs1\<lparr>co_chain := c\<rparr>) k p) (h_slot (b_header b)) q) t enc) k)"
proof -
  have "sound S ld cs (try_commit S ld io (record_priority (set_pending (cs1\<lparr>co_chain := c\<rparr>) k p) (h_slot (b_header b)) q) k) \<and>
      sound S ld cs (try_commit S ld io (bcast (record_priority (set_pending (cs1\<lparr>co_chain := c\<rparr>) k p) (h_slot (b_header b)) q) t enc) k)"
    if True: "engine_ok S ld cs"
  proof -
    note al = alloc_set [OF assms(3)]
    have k: "k < AC_PENDING_MAX" "co_pending cs1 ! k = pending_zero\<lparr>pd_occupied := True, pd_first_seen_ms := io_now_ms io\<rparr>"
      using True al(5) by (simp_all add: engine_ok_def)
    have "calm S ld cs (cs\<lparr>co_chain := c\<rparr>)" using calm_seed [OF assms(1), of ld cs e] assms(6) by (simp add: al(3))
    also have "pending_ok S c p"
      using assms(4,7) k(2) by (simp add: pending_ok_def p_def pending_zero_def)
    then have "calm S ld (cs\<lparr>co_chain := c\<rparr>) (set_pending (cs1\<lparr>co_chain := c\<rparr>) k p)"
      using calm_set [of S ld "cs\<lparr>co_chain := c\<rparr>" p k] by (simp add: al(1))
    also note calm_tables(3)
    finally have "calm S ld cs (record_priority (set_pending (cs1\<lparr>co_chain := c\<rparr>) k p) (h_slot (b_header b)) q)" .
    then show ?thesis
      using calm_then_sound [OF _ try_sound(2) [OF assms(1,2) k(1)]] calm_trans [OF _ calm_tables(1)]
      by blast
  qed
  then show "sound S ld cs (try_commit S ld io (record_priority (set_pending (cs1\<lparr>co_chain := c\<rparr>) k p) (h_slot (b_header b)) q) k)"
    "sound S ld cs (try_commit S ld io (bcast (record_priority (set_pending (cs1\<lparr>co_chain := c\<rparr>) k p) (h_slot (b_header b)) q) t enc) k)"
    by (auto simp: sound_def)
qed

lemma leader_proof_length:
  assumes "sodium_ok S" "am_i_leader S ld cs slot = (Some q, cs')"
  shows "length q = 64"
  using assms length_ac_vrf_proof [OF assms(1)]
  by (auto simp: am_i_leader_def Let_def split_beta split: option.splits if_splits)

text \<open>Building a block gives back the chain and a well-formed block of the slot.\<close>

definition built_ok :: "u64 \<Rightarrow> ac_block option \<Rightarrow> bool" where
  "built_ok slot r \<longleftrightarrow> (\<forall>b q. r = Some b \<and> length q = 64 \<longrightarrow>
     wf_block (b\<lparr>b_header := (b_header b)\<lparr>h_proposer_vrf_proof := q\<rparr>\<rparr>) \<and> h_slot (b_header b) = slot \<and> b_signers b = [])"

lemma build_sound:
  assumes "sodium_ok S" "ac_chain_build_block S (co_chain cs) slot (co_kp cs) snap = (r, c)"
    and "list_all wf_tx snap" "length snap \<le> AC_BLOCK_MAX_TXS"
    and "built_ok slot r \<Longrightarrow> sound S ld (cs\<lparr>co_chain := c\<rparr>) cs'"
  shows "sound S ld cs cs'"
  unfolding sound_def
proof (intro impI)
  assume e: "engine_ok S ld cs \<and> small_state (ch_state (co_chain cs))"
  then have w: "chain_reach S ld (co_chain cs)" "wf_addr (kp_pk (co_kp cs))" by (simp_all add: engine_ok_def)
  note res = build_result [OF assms(1) reach_inv [OF w(1) assms(1)] conjunct2 [OF e] assms(3,4) w(2) assms(2)]
  have "b_signers b = []" if "r = Some b" for b
    using assms(2) that by (auto simp: ac_chain_build_block_def Let_def split_beta split: if_splits)
  then have "built_ok slot r" using res(2) by (auto simp: built_ok_def)
  moreover have "chain_reach S ld c" using chain_reach.build [OF w(1) conjunct2 [OF e] assms(3) w(2), of slot] assms(2) by simp
  then have "engine_ok S ld (cs\<lparr>co_chain := c\<rparr>)" using engine_ok_chain e same_cache_keeps [OF res(1)] by blast
  moreover have "small_state (ch_state c)" using same_but_cache_fields(1) [OF res(1)] e by simp
  ultimately show "engine_ok S ld cs' \<and> chain_keeps (co_chain cs) (co_chain cs')"
    using assms(5) chain_keeps_trans [OF same_cache_keeps [OF res(1)]] by (simp add: sound_def)
qed

lemma slot_sound:
  assumes "sodium_ok S" "io_ok io"
  shows "sound S ld cs (slot_routine S ld io cs slot)"
proof -
  obtain r cs1 where l: "am_i_leader S ld cs slot = (r, cs1)" by fastforce
  have c1: "calm S ld cs cs1" using calm_sortition(1) [OF assms(1), of ld cs slot] by (simp add: l)
  show ?thesis
  proof (cases "co_validator cs \<and> r \<noteq> None \<and> engine_ok S ld cs1")
    case False
    then have "slot_routine S ld io cs slot \<in> {cs, cs1} \<or> \<not> engine_ok S ld cs1" by (auto simp: slot_routine_def l)
    then show ?thesis using calm_sound [OF c1] calm_sound [OF calm_refl] c1 by (auto simp: sound_def calm_def)
  next
    case True
    then obtain lproof where lp: "r = Some lproof" "length lproof = 64" using leader_proof_length [OF assms(1)] l by blast
    define snap where "snap = ac_mempool_snapshot (co_mempool cs1) 256"
    define cs2 where "cs2 = cs1\<lparr>co_mempool := snd (ac_mempool_prune_expired (co_mempool cs1) slot)\<rparr>"
    obtain rb c where b: "ac_chain_build_block S (co_chain cs2) slot (co_kp cs2) snap = (rb, c)" by fastforce
    have sn: "list_all wf_tx snap" "length snap \<le> AC_BLOCK_MAX_TXS"
      using True by (auto simp: snap_def ac_mempool_snapshot_def engine_ok_def pool_wf_def list_all_iff dest: in_set_takeD)
    have c2: "calm S ld cs1 cs2" using pool_prune_wf by (simp add: calm_def cs2_def engine_ok_def)
    have "sound S ld cs2 (slot_routine S ld io cs slot)"
    proof (rule build_sound [OF assms(1) b sn])
      assume ok: "built_ok slot rb"
      obtain k cs3 where al: "pending_alloc io (cs2\<lparr>co_chain := c\<rparr>) = (k, cs3)" by fastforce
      obtain seed d where sd: "ac_chain_epoch_seed S (co_chain cs3) (ac_epoch_of slot) = (seed, d)" by fastforce
      show "sound S ld (cs2\<lparr>co_chain := c\<rparr>) (slot_routine S ld io cs slot)"
      proof (cases rb)
        case None
        then show ?thesis
          using True calm_sound [OF calm_refl] b by (simp add: slot_routine_def l lp Let_def cs2_def flip: snap_def)
      next
        case (Some blk)
        define blk' where "blk' = blk\<lparr>b_header := (b_header blk)\<lparr>h_proposer_vrf_proof := take 64 lproof\<rparr>\<rparr>"
        have w: "wf_block blk'" "h_slot (b_header blk') = slot" "blk'\<lparr>b_signers := []\<rparr> = blk'" "b_signers blk' = []"
          using ok Some lp(2) by (cases blk; simp add: built_ok_def blk'_def)+
        show ?thesis
          using propose_sound [OF assms al w(1,4) sd length_priority, of ld] w(2,3) True b al
          by (simp add: slot_routine_def l lp Let_def Some sd cs2_def blk'_def flip: snap_def split: option.split)
      qed
    qed
    then show ?thesis using calm_then_sound calm_trans [OF c1 c2] by blast
  qed
qed

lemma locked_pending_Some: "locked_pending h bh ps = Some k \<Longrightarrow> k < length ps \<and> pd_occupied (ps ! k)"
  by (induction ps arbitrary: k) (auto split: if_splits)

lemma vote_phase_sound:
  assumes "sodium_ok S" "io_ok io"
  shows "sound S ld cs (vote_phase S ld io cs slot)"
proof -
  obtain i cs1 where sv: "slot_vote_for cs slot = (i, cs1)" by fastforce
  have c1: "calm S ld cs cs1" using calm_tables(2) [of S ld cs slot] by (simp add: sv)
  let ?h = "ch_height (co_chain cs1) + 1"
  have go: "sound S ld cs1 (try_commit S ld io (our_vote_now S ld cs1 k) k)"
    "sound S ld cs1 (try_commit S ld io ((our_vote_now S ld cs1 k)\<lparr>co_vote_height := h, co_vote_block := bh, co_vote_priority := q\<rparr>) k)"
    if "k < AC_PENDING_MAX" "pd_occupied (co_pending cs1 ! k)" for k h bh q
    using calm_then_sound [OF calm_our_vote [OF assms(1) that] try_sound(2) [OF assms that(1)]]
      calm_then_sound [OF calm_trans [OF calm_our_vote [OF assms(1) that] calm_tables(6)] try_sound(2) [OF assms that(1)]] by blast+
  have "sound S ld cs1 (case best_pending ?h 0 None (co_pending cs1) of None \<Rightarrow> cs1
      | Some k \<Rightarrow> let best = co_pending cs1 ! k
          in if co_vote_height cs1 = ?h \<and> priority_cmp (pd_priority best) (co_vote_priority cs1) \<ge> 0 then
               (case locked_pending ?h (co_vote_block cs1) (co_pending cs1) of None \<Rightarrow> cs1
                | Some q \<Rightarrow> try_commit S ld io (our_vote_now S ld cs1 q) q)
             else try_commit S ld io ((our_vote_now S ld cs1 k)\<lparr>co_vote_height := ?h,
                    co_vote_block := pd_block_hash best, co_vote_priority := pd_priority best\<rparr>) k)" (is "sound S ld cs1 ?X")
  proof (cases "engine_ok S ld cs1")
    case True
    then have p: "\<forall>q\<in>set (co_pending cs1). length (pd_priority q) = 16" "length (co_pending cs1) = AC_PENDING_MAX"
      by (auto simp: engine_ok_def list_all_iff pending_ok_def)
    show ?thesis
      using best_pending_min(2) [OF p(1), of ?h] locked_pending_Some [of ?h "co_vote_block cs1" "co_pending cs1"] go p(2)
        calm_sound [OF calm_refl]
      by (simp add: Let_def votable_def split: option.split)
  qed (simp add: sound_def)
  then show ?thesis
    using calm_then_sound [OF c1] calm_sound [OF c1] calm_sound [OF calm_refl]
    by (simp add: vote_phase_def sv Let_def)
qed

section \<open>Runs\<close>

text \<open>
  One step of a validator: a message, a phase of a slot, one entry of the seal phase, a change of the pool,
  or a lookup by a client. Disk writes succeed, and the state has fewer than $2^{32}$ accounts and names.
\<close>

inductive engine_step :: "sodium \<Rightarrow> rounding \<Rightarrow> ac_consensus \<Rightarrow> ac_consensus \<Rightarrow> bool" for S ld cs where
  block: "io_ok io \<Longrightarrow> small_state (ch_state (co_chain cs)) \<Longrightarrow> engine_step S ld cs (ac_consensus_handle_block S ld io cs buf)"
| vote: "io_ok io \<Longrightarrow> small_state (ch_state (co_chain cs)) \<Longrightarrow> engine_step S ld cs (ac_consensus_handle_vote S ld io cs buf)"
| propose: "io_ok io \<Longrightarrow> small_state (ch_state (co_chain cs)) \<Longrightarrow> engine_step S ld cs (slot_routine S ld io cs slot)"
| choose: "io_ok io \<Longrightarrow> small_state (ch_state (co_chain cs)) \<Longrightarrow> engine_step S ld cs (vote_phase S ld io cs slot)"
| seal: "io_ok io \<Longrightarrow> small_state (ch_state (co_chain cs)) \<Longrightarrow> k < AC_PENDING_MAX \<Longrightarrow>
    engine_step S ld cs (try_commit_inner S ld io cs k True)"
| pool: "pool_wf mp \<Longrightarrow> engine_step S ld cs (cs\<lparr>co_mempool := mp\<rparr>)"
| find: "wf_hash h \<Longrightarrow> engine_step S ld cs (cs\<lparr>co_chain := snd (ac_chain_tx_find (co_chain cs) h)\<rparr>)"
| history: "engine_step S ld cs (cs\<lparr>co_chain := snd (ac_chain_addr_txs (co_chain cs) a cap)\<rparr>)"

lemma lookup_keeps:
  assumes "chain_inv S c"
  shows "chain_keeps c (snd (ac_chain_tx_find c h))" "chain_keeps c (snd (ac_chain_addr_txs c a cap))"
proof -
  have "index_ok c" using assms by (simp add: chain_inv_defs)
  moreover have "snd (ac_chain_tx_find c h) \<in> {c, tx_index_sort c}" "snd (ac_chain_addr_txs c a cap) \<in> {c, addr_index_sort c}"
    by (simp_all add: ac_chain_tx_find_def ac_chain_addr_txs_def Let_def)
  ultimately show "chain_keeps c (snd (ac_chain_tx_find c h))" "chain_keeps c (snd (ac_chain_addr_txs c a cap))"
    using same_index_keeps sort_both(1,2) by auto
qed

lemma step_ok:
  assumes "engine_step S ld cs cs'" "sodium_ok S" "engine_ok S ld cs"
  shows "engine_ok S ld cs' \<and> chain_keeps (co_chain cs) (co_chain cs')"
  using assms(1)
proof cases
  case (find h)
  have r: "chain_reach S ld (co_chain cs)" using assms(3) by (simp add: engine_ok_def)
  note k = lookup_keeps(1) [OF reach_inv [OF r assms(2)]]
  show ?thesis using engine_ok_chain [OF assms(3) chain_reach.find [OF r find(2)] k] k find(1) by simp
next
  case (history a cap)
  have r: "chain_reach S ld (co_chain cs)" using assms(3) by (simp add: engine_ok_def)
  note k = lookup_keeps(2) [OF reach_inv [OF r assms(2)]]
  show ?thesis using engine_ok_chain [OF assms(3) chain_reach.history [OF r] k] k history by simp
next
  case (pool mp)
  then show ?thesis using assms(3) by (simp add: engine_ok_def)
qed (use assms(2,3) handle_block_sound handle_vote_sound slot_sound vote_phase_sound try_sound(1) in \<open>auto simp: sound_def\<close>)

lemma run_ok:
  assumes "(engine_step S ld)\<^sup>*\<^sup>* cs cs'" "sodium_ok S" "engine_ok S ld cs"
  shows "engine_ok S ld cs' \<and> chain_keeps (co_chain cs) (co_chain cs')"
  using assms(1)
proof (induction rule: rtranclp_induct)
  case (step y z)
  then show ?case using step_ok [OF step.hyps(2) assms(2)] chain_keeps_trans by blast
qed (simp add: assms)

text \<open>What the node hands to a new engine.\<close>

definition wf_config :: "sodium \<Rightarrow> rounding \<Rightarrow> ac_consensus_config \<Rightarrow> bool" where
  "wf_config S ld cfg \<longleftrightarrow> chain_reach S ld (cf_chain cfg) \<and> pool_wf (cf_mempool cfg) \<and> wf_addr (kp_pk (cf_keypair cfg))"

lemma new_ok: "wf_config S ld cfg \<Longrightarrow> engine_ok S ld (ac_consensus_new cfg)"
  by (simp add: wf_config_def engine_ok_def ac_consensus_new_def pending_ok_def pending_zero_def wf AC_PENDING_MAX_def list_all_iff)

text \<open>
  Claim C5. Whatever blocks and votes a validator receives, in any order, its engine moves the chain only as
  block acceptance does: the chain stays one that is reachable from genesis. The tables keep their eight
  entries, every occupied entry holds a well-formed block with its own hash, height and slot and at most
  256 signers, and the block of every committed entry is on the chain at its height.
\<close>

theorem engine_run_invariant:
  assumes "sodium_ok S" "wf_config S ld cfg" "(engine_step S ld)\<^sup>*\<^sup>* (ac_consensus_new cfg) cs"
  shows "chain_reach S ld (co_chain cs) \<and> length (co_pending cs) = AC_PENDING_MAX \<and> length (co_slot_votes cs) = AC_PENDING_MAX \<and>
    (\<forall>p\<in>set (co_pending cs). pd_occupied p \<longrightarrow>
       wf_block (pd_block p) \<and> list_all wf_signer (pd_signers p) \<and> length (pd_signers p) \<le> AC_COMMITTEE_MAX \<and>
       pd_block_hash p = ac_block_hash S (b_header (pd_block p)) \<and> pd_height p = h_height (b_header (pd_block p)) \<and>
       pd_slot p = h_slot (b_header (pd_block p)) \<and>
       (pd_committed p \<and> pd_height p \<noteq> 0 \<longrightarrow> pd_height p \<le> ch_height (co_chain cs) \<and>
          (\<exists>b. block_read (co_chain cs) (pd_height p) = Some b \<and> ac_block_hash S (b_header b) = pd_block_hash p)))"
  using run_ok [OF assms(3,1) new_ok [OF assms(2)]]
  by (auto simp: engine_ok_def pending_ok_def on_chain_def list_all_iff)

lemma inv_blocks:
  assumes "chain_inv S c"
  shows "\<forall>h\<le>ch_height c. block_read c h \<noteq> None"
proof (intro allI impI)
  fix h assume "h \<le> ch_height c"
  then have "unat h \<le> unat (ch_height c)" by (simp add: word_le_nat_alt)
  then obtain b where "block_read c (of_nat (unat h)) = Some b" using assms by (auto simp: chain_inv_defs)
  then show "block_read c h \<noteq> None" by simp
qed

text \<open>
  Finality: once a validator has a block at some height, no later message and no later phase
  of its engine removes or replaces it, and the height never falls.
\<close>

theorem engine_final:
  assumes "sodium_ok S" "wf_config S ld cfg" "(engine_step S ld)\<^sup>*\<^sup>* (ac_consensus_new cfg) cs" "(engine_step S ld)\<^sup>*\<^sup>* cs cs'"
  shows "ch_height (co_chain cs) \<le> ch_height (co_chain cs') \<and>
    (\<forall>h\<le>ch_height (co_chain cs). block_read (co_chain cs') h = block_read (co_chain cs) h \<and> block_read (co_chain cs) h \<noteq> None)"
proof -
  have e: "engine_ok S ld cs" using run_ok [OF assms(3,1) new_ok [OF assms(2)]] by simp
  then have "chain_inv S (co_chain cs)" using reach_inv [of S ld "co_chain cs"] assms(1) by (simp add: engine_ok_def)
  from inv_blocks [OF this] show ?thesis using run_ok [OF assms(4,1) e] by (simp add: chain_keeps_def)
qed

section \<open>The slot thread\<close>

text \<open>The time before which a phase must not run.\<close>

fun due :: "u64 \<Rightarrow> loop_phase \<Rightarrow> nat" where
  "due genesis (Propose slot) = unat genesis + unat slot * 2000"
| "due genesis (Vote slot) = unat genesis + unat slot * 2000 + 1100"
| "due genesis (Seal slot) = unat genesis + unat slot * 2000 + 1400"
| "due genesis Stopped = 0"

fun phase_slot :: "loop_phase \<Rightarrow> nat" where
  "phase_slot (Propose slot) = unat slot"
| "phase_slot (Vote slot) = unat slot"
| "phase_slot (Seal slot) = unat slot"
| "phase_slot Stopped = 0"

lemma wait_until_due: "unat t64 \<le> unat now + unat (wait_until t64 now)"
  by (auto simp: wait_until_def word_less_nat_alt unat_sub word_le_nat_alt)

lemma unat_deadline:
  fixes genesis slot d :: u64
  assumes "unat genesis + unat slot * 2000 + unat d < 2 ^ 64"
  shows "unat (genesis + slot * 2000 + d) = unat genesis + unat slot * 2000 + unat d"
proof -
  have m: "unat (slot * 2000) = unat slot * 2000" using assms unat_mult_nowrap [of slot 2000] by simp
  then have g: "unat (genesis + slot * 2000) = unat genesis + unat slot * 2000"
    using assms unat_add_nowrap [of genesis "slot * 2000"] by simp
  then show ?thesis using assms unat_add_nowrap [of "genesis + slot * 2000" d] by simp
qed

lemma turn_due:
  assumes "slot_loop_turn S ld io running genesis now ph cs = (ph', w, cs')" "unat genesis + (phase_slot ph + 1) * 2000 < 2 ^ 64"
  shows "due genesis ph' \<le> unat now + unat w"
proof (cases ph)
  case (Propose slot)
  then show ?thesis
    using assms unat_deadline [of genesis slot 1100] wait_until_due [of "genesis + slot * 2000 + 1100" now]
    by (auto simp: AC_SLOT_DURATION_MS_def AC_VOTE_DELAY_MS_def split: if_splits)
next
  case (Vote slot)
  then show ?thesis
    using assms unat_deadline [of genesis slot 1400] wait_until_due [of "genesis + slot * 2000 + 1400" now]
    by (auto simp: AC_SLOT_DURATION_MS_def AC_VOTE_DELAY_MS_def AC_SEAL_GRACE_MS_def add.assoc split: if_splits)
next
  case (Seal slot)
  then have s: "unat (slot + 1) = unat slot + 1" using assms(2) unat_add_nowrap [of slot 1] by simp
  then show ?thesis
    using assms Seal unat_deadline [of genesis "slot + 1" 0] wait_until_due [of "genesis + (slot + 1) * 2000" now]
    by (auto simp: AC_SLOT_DURATION_MS_def split: if_splits)
next
  case Stopped
  then show ?thesis using assms(1) by simp
qed

lemma seal_steps:
  assumes "io_ok io" "\<forall>n\<le>AC_PENDING_MAX. small_state (ch_state (co_chain (seal_upto S ld io slot cs n)))" "n \<le> AC_PENDING_MAX"
  shows "(engine_step S ld)\<^sup>*\<^sup>* cs (seal_upto S ld io slot cs n)"
  using assms(3)
proof (induction n)
  case (Suc n)
  let ?c = "seal_upto S ld io slot cs n"
  have "seal_upto S ld io slot cs (Suc n) \<in> {?c, try_commit_inner S ld io ?c n True}"
    by (simp add: seal_upto_def Let_def)
  moreover have "engine_step S ld ?c (try_commit_inner S ld io ?c n True)"
    using assms(1,2) Suc.prems by (intro engine_step.seal) simp_all
  ultimately show ?case using Suc by (auto intro: rtranclp.rtrancl_into_rtrancl)
qed (simp add: seal_upto_def)

lemma turn_steps:
  assumes "slot_loop_turn S ld io running genesis now ph cs = (ph', w, cs')" "io_ok io"
    and "\<forall>n\<le>AC_PENDING_MAX. small_state (ch_state (co_chain (seal_upto S ld io (of_nat (phase_slot ph)) cs n)))"
  shows "(engine_step S ld)\<^sup>*\<^sup>* cs cs'"
proof -
  have "small_state (ch_state (co_chain cs))" using assms(3) by (auto simp: seal_upto_def dest: spec [of _ 0])
  then have "(engine_step S ld)\<^sup>*\<^sup>* cs (slot_routine S ld io cs slot)" "(engine_step S ld)\<^sup>*\<^sup>* cs (vote_phase S ld io cs slot)" for slot
    using engine_step.propose [OF assms(2)] engine_step.choose [OF assms(2)] by blast+
  moreover have "(engine_step S ld)\<^sup>*\<^sup>* cs (seal_phase S ld io cs slot)" if "ph = Seal slot" for slot
    using seal_steps [OF assms(2,3) order_refl] that by (simp add: seal_phase_def)
  ultimately show ?thesis using assms(1) by (cases ph) (auto simp: Let_def split: if_splits)
qed

text \<open>
  Every turn of the slot thread is a run of engine steps, and the sleep it asks for ends no
  earlier than the next phase is due: proposals at the start of the slot, votes 1100 ms and the seal
  1400 ms into it, the next proposal at the start of the next slot. The deadlines do not overflow.
\<close>

theorem slot_loop_turn_refines:
  assumes "slot_loop_turn S ld io running genesis now ph cs = (ph', w, cs')" "io_ok io"
    and "unat genesis + (phase_slot ph + 1) * 2000 < 2 ^ 64"
    and "\<forall>n\<le>AC_PENDING_MAX. small_state (ch_state (co_chain (seal_upto S ld io (of_nat (phase_slot ph)) cs n)))"
  shows "(engine_step S ld)\<^sup>*\<^sup>* cs cs' \<and> due genesis ph' \<le> unat now + unat w"
  using turn_steps [OF assms(1,2,4)] turn_due [OF assms(1,3)] by simp

section \<open>Signers are not checked when they are collected\<close>

lemma forged_rejected:
  assumes "sodium_ok S" "chain_reach S ld c" "small_state (ch_state c)" "wf_block b" "io_ok io"
    and "ch_height c < h_height (b_header b)" "x \<in> set (b_signers b)"
    and "\<not> ac_verify S (cs_sig x) (ac_vote_message (h_height (b_header b)) (ac_block_hash S (b_header b))) (cs_signer x)"
    and "ac_chain_accept_block S ld io c b = (r, c')"
  shows "r \<notin> {AC_ACCEPT_OK, AC_ACCEPT_DUP} \<and> same_but_cache c c'"
proof -
  have "accept_precheck S io c (b_header b) \<noteq> Some AC_ACCEPT_DUP"
    using assms(6) by (auto simp: accept_precheck_def Let_def split: if_splits)
  then have d: "r \<noteq> AC_ACCEPT_DUP" using accept_dup assms(9) by blast
  from inv_tip(3) [OF assms(1) reach_inv [OF assms(2,1)]] assms(3-5,9) show ?thesis
  proof (cases rule: accept_outcome)
    case same
    then show ?thesis using d by simp
  next
    case (extended s' c2 buf)
    then obtain w where "commit_signers S ld (ac_chain__pre_stake_lookup (pre_signers (ch_state c) (b_signers b)))
        (committee_alpha (compute_epoch_seed S c (ac_epoch_of (h_slot (b_header b)))) (h_slot (b_header b)))
        (ac_vote_message (h_height (b_header b)) (ac_block_hash S (b_header b)))
        (ac_chain_total_sqrt_stake c) (b_signers b) 0 = Some w" by (auto simp: block_valid_def Let_def)
    then show ?thesis using commit_signersD(2) assms(7,8) by blast
  qed
qed

text \<open>
  Claim C14. The signers that come with a block message are collected without checking their signatures.
  An entry that holds one signature that does not verify cannot be committed any more: every attempt is
  rejected, leaves the ledger as it was and keeps the forged signature. The true vote of the validator in
  whose name it was forged is then ignored as a duplicate.
\<close>

theorem forged_signer_blocks_commit:
  fixes force :: bool
  assumes "sodium_ok S" "io_ok io" "engine_ok S ld cs" "small_state (ch_state (co_chain cs))" "k < AC_PENDING_MAX"
  defines "p \<equiv> co_pending cs ! k" and "cs' \<equiv> try_commit_inner S ld io cs k force"
  assumes "pd_occupied p" "\<not> pd_committed p" "ch_height (co_chain cs) < pd_height p"
    and "x \<in> set (pd_signers p)" "\<not> ac_verify S (cs_sig x) (ac_vote_message (pd_height p) (pd_block_hash p)) (cs_signer x)"
  shows "same_but_cache (co_chain cs) (co_chain cs') \<and> \<not> pd_committed (co_pending cs' ! k) \<and>
    x \<in> set (pd_signers (co_pending cs' ! k)) \<and>
    (\<forall>buf v. vote_decode buf = Some v \<and> vo_signer v = cs_signer x \<and> pending_find (co_pending cs) (vo_block_hash v) = Some k \<longrightarrow>
       co_pending (ac_consensus_handle_vote S ld io cs buf) = co_pending cs)"
proof -
  have ok: "pending_ok S (co_chain cs) p" "k < length (co_pending cs)" "chain_reach S ld (co_chain cs)"
    using engine_ok_pending [OF assms(3,5)] assms(3) by (simp_all add: p_def engine_ok_def)
  define q where "q = (if pd_threshold_reached_ms p = 0 then p\<lparr>pd_threshold_reached_ms := io_now_ms io\<rparr> else p)"
  have q: "pd_block q = pd_block p" "pd_signers q = pd_signers p" "pd_committed q = pd_committed p" by (simp_all add: q_def)
  let ?blk = "(pd_block p)\<lparr>b_signers := pd_signers p\<rparr>" and ?c = "set_pending cs k q"
  have w: "wf_block ?blk" "ch_height (co_chain cs) < h_height (b_header ?blk)" "x \<in> set (b_signers ?blk)"
    "\<not> ac_verify S (cs_sig x) (ac_vote_message (h_height (b_header ?blk)) (ac_block_hash S (b_header ?blk))) (cs_signer x)"
    using ok(1) assms(8,10-12) by (simp_all add: pending_ok_def wf_block_def)
  obtain r c where a: "ac_chain_accept_block S ld io (co_chain cs) ?blk = (r, c)" by fastforce
  note rej = forged_rejected [OF assms(1) ok(3) assms(4) w(1) assms(2) w(2-4) a]
  have qk: "co_pending ?c ! k = q" "co_chain ?c = co_chain cs" using ok(2) by (simp_all add: set_pending_def)
  have "commit_block S ld io ?c k = set_pending (?c\<lparr>co_chain := c\<rparr>) k (q\<lparr>pd_block := (pd_block p)\<lparr>b_signers := []\<rparr>\<rparr>)"
    using rej by (simp add: commit_block_def Let_def qk q a)
  then have "cs' \<in> {cs, ?c, set_pending (?c\<lparr>co_chain := c\<rparr>) k (q\<lparr>pd_block := (pd_block p)\<lparr>b_signers := []\<rparr>\<rparr>)}"
    by (simp add: cs'_def try_commit_inner_def Let_def flip: p_def q_def)
  then have "same_but_cache (co_chain cs) (co_chain cs') \<and> \<not> pd_committed (co_pending cs' ! k) \<and> x \<in> set (pd_signers (co_pending cs' ! k))"
    using rej ok(2) assms(9,11) q by (auto simp: set_pending_def p_def)
  moreover have "co_pending (ac_consensus_handle_vote S ld io cs buf) = co_pending cs"
    if v: "vote_decode buf = Some v" "vo_signer v = cs_signer x" "pending_find (co_pending cs) (vo_block_hash v) = Some k" for buf v
  proof -
    have "wf_addr (vo_signer v)" using vote.dec_good [OF v(1)] by (simp add: wf_vote_def)
    then have "ac_addr_eq (cs_signer x) (vo_signer v)" using v(2) ac_addr_eq_iff by simp
    then have "list_ex (\<lambda>y. ac_addr_eq (cs_signer y) (vo_signer v)) (pd_signers p)" using assms(11) by (auto simp: list_ex_iff)
    then show ?thesis
      using v(1,3) by (auto simp: ac_consensus_handle_vote_def Let_def p_def split: prod.split option.split)
  qed
  ultimately show ?thesis by blast
qed

section \<open>A concrete engine\<close>

definition demo_config :: "ac_chain \<Rightarrow> ac_consensus_config" where
  "demo_config c = \<lparr>cf_chain = c, cf_mempool = ac_mempool_new 7, cf_keypair = demo_key 1, cf_broadcast = True, cf_validator = True\<rparr>"

lemma demo_config_ok: "chain_reach demo_sodium exact c \<Longrightarrow> wf_config demo_sodium exact (demo_config c)"
  by (simp add: wf_config_def demo_config_def pool_wf_def ac_mempool_new_def wf)

lemma demo_io_ok: "io_ok demo_io"
  by (simp add: io_ok_def demo_io_def)

lemma demo_steps:
  assumes "ch_state c = demo_validators"
  shows "(engine_step demo_sodium exact)\<^sup>*\<^sup>* (ac_consensus_new (demo_config c))
    (slot_routine demo_sodium exact demo_io (ac_consensus_new (demo_config c)) 1)"
  using engine_step.propose [OF demo_io_ok, of "ac_consensus_new (demo_config c)"] demo_chain_ok(2) assms
  by (auto simp: ac_consensus_new_def demo_config_def)

theorem engine_run_invariant_witness:
  "\<exists>c. ac_chain_open demo_sodium demo_io Map.empty None None (Some demo_genesis) = Some c \<and>
     (let cs = slot_routine demo_sodium exact demo_io (ac_consensus_new (demo_config c)) 1
      in chain_reach demo_sodium exact (co_chain cs) \<and> length (co_pending cs) = 8)"
proof -
  obtain c where c: "chain_reach demo_sodium exact c" "ch_state c = demo_validators"
      "ac_chain_open demo_sodium demo_io Map.empty None None (Some demo_genesis) = Some c" by (rule demo_reach)
  show ?thesis
    using engine_run_invariant [OF sodium_ok_demo demo_config_ok [OF c(1)] demo_steps [OF c(2)]] c(3)
    by (simp add: Let_def AC_PENDING_MAX_def)
qed

theorem engine_final_witness:
  "\<exists>c. ac_chain_open demo_sodium demo_io Map.empty None None (Some demo_genesis) = Some c \<and>
     block_read (co_chain (slot_routine demo_sodium exact demo_io (ac_consensus_new (demo_config c)) 1)) 0 = block_read c 0 \<and>
     block_read c 0 \<noteq> None"
proof -
  obtain c where c: "chain_reach demo_sodium exact c" "ch_state c = demo_validators"
      "ac_chain_open demo_sodium demo_io Map.empty None None (Some demo_genesis) = Some c" by (rule demo_reach)
  show ?thesis
    using engine_final [OF sodium_ok_demo demo_config_ok [OF c(1)] rtranclp.rtrancl_refl demo_steps [OF c(2)]] c(3)
    by (auto simp: ac_consensus_new_def demo_config_def)
qed

definition demo_forged :: ac_commit_signer where
  "demo_forged = \<lparr>cs_signer = 2 # zeros 31, cs_sig = zeros 64, cs_vrf_proof = zeros 64\<rparr>"

definition demo_poisoned :: "ac_chain \<Rightarrow> ac_consensus" where
  "demo_poisoned c = (ac_consensus_new (demo_config c))\<lparr>co_pending := pending_zero\<lparr>pd_occupied := True, pd_height := 1, pd_slot := 1,
       pd_block_hash := ac_block_hash demo_sodium (demo_block_header 1 1), pd_block := demo_block 1 1 [],
       pd_signers := [demo_forged]\<rparr> # replicate 7 pending_zero\<rparr>"

lemma demo_poisoned_ok:
  assumes "chain_reach demo_sodium exact c"
  shows "engine_ok demo_sodium exact (demo_poisoned c)"
proof -
  have "wf_signer demo_forged" by (simp add: demo_forged_def wf_signer_def wf)
  then have p: "pending_ok demo_sodium c (pending_zero\<lparr>pd_occupied := True, pd_height := 1, pd_slot := 1,
       pd_block_hash := ac_block_hash demo_sodium (demo_block_header 1 1), pd_block := demo_block 1 1 [], pd_signers := [demo_forged]\<rparr>)"
    using demo_wf_block [of "[]" 1 1]
    by (simp add: pending_ok_def pending_zero_def demo_block_def) (simp add: demo_block_header_def)
  have "pending_ok demo_sodium c pending_zero" by (simp add: pending_ok_def pending_zero_def)
  then show ?thesis
    using p assms by (simp add: engine_ok_def demo_poisoned_def ac_consensus_new_def demo_config_def AC_PENDING_MAX_def
        pool_wf_def ac_mempool_new_def wf list_all_iff)
qed

lemma demo_forged_bad:
  "\<not> ac_verify demo_sodium (zeros 64) (ac_vote_message 1 (ac_block_hash demo_sodium (demo_block_header 1 1))) (2 # zeros 31)"
  by code_simp

lemma demo_genesis_height:
  "map_option ch_height (ac_chain_open demo_sodium demo_io Map.empty None None (Some demo_genesis)) = Some 0"
  by code_simp

theorem forged_signer_blocks_commit_witness:
  "\<exists>c. ac_chain_open demo_sodium demo_io Map.empty None None (Some demo_genesis) = Some c \<and>
     \<not> pd_committed (co_pending (try_commit_inner demo_sodium exact demo_io (demo_poisoned c) 0 True) ! 0)"
proof -
  obtain c where c: "chain_reach demo_sodium exact c" "ch_state c = demo_validators"
      "ac_chain_open demo_sodium demo_io Map.empty None None (Some demo_genesis) = Some c" by (rule demo_reach)
  have "ch_height c = 0" using demo_genesis_height c(3) by simp
  then show ?thesis
    using forged_signer_blocks_commit [OF sodium_ok_demo demo_io_ok demo_poisoned_ok [OF c(1)], of 0 demo_forged True]
      c(2,3) demo_chain_ok(2) demo_forged_bad
    by (simp add: demo_poisoned_def ac_consensus_new_def demo_config_def AC_PENDING_MAX_def pending_zero_def demo_forged_def)
qed

theorem slot_loop_turn_refines_witness:
  "\<exists>c cs'. ac_chain_open demo_sodium demo_io Map.empty None None (Some demo_genesis) = Some c \<and>
     slot_loop_turn demo_sodium exact demo_io True 0 2000 (Propose 1) (ac_consensus_new (demo_config c)) = (Vote 1, 1100, cs') \<and>
     (engine_step demo_sodium exact)\<^sup>*\<^sup>* (ac_consensus_new (demo_config c)) cs'"
proof -
  obtain c where c: "ch_state c = demo_validators"
      "ac_chain_open demo_sodium demo_io Map.empty None None (Some demo_genesis) = Some c" by (rule demo_reach)
  let ?cs = "ac_consensus_new (demo_config c)"
  have idle: "seal_upto demo_sodium exact demo_io 1 ?cs n = ?cs" if "n \<le> AC_PENDING_MAX" for n
    using that by (induction n) (auto simp: seal_upto_def ac_consensus_new_def pending_zero_def nth_replicate)
  have t: "slot_loop_turn demo_sodium exact demo_io True 0 2000 (Propose 1) ?cs =
      (Vote 1, 1100, slot_routine demo_sodium exact demo_io ?cs 1)"
    by (simp add: wait_until_def AC_SLOT_DURATION_MS_def AC_VOTE_DELAY_MS_def)
  have "co_chain ?cs = c" by (simp add: ac_consensus_new_def demo_config_def)
  then have s: "\<forall>n\<le>AC_PENDING_MAX. small_state (ch_state (co_chain (seal_upto demo_sodium exact demo_io (of_nat (phase_slot (Propose 1))) ?cs n)))"
    using idle demo_chain_ok(2) c(1) by simp
  have "unat (0 :: u64) + (phase_slot (Propose 1) + 1) * 2000 < 2 ^ 64" by simp
  from slot_loop_turn_refines [OF t demo_io_ok this s] show ?thesis using t c(2) by blast
qed

end
