(* ===== verification/Net_Rules.thy ===== *)
theory Net_Rules
  imports Net "HOL-Library.Sublist"
begin

text \<open>
  Properties of the transport: frames survive any fragmentation of the stream, the ring of seen messages
  is a window over the history, queues are first in first out and bounded, HELLO messages are parsed inside
  their buffer and back to what was sent, and the routing table.
\<close>

section \<open>Frames\<close>

definition frame_bytes :: "u8 \<times> bytes \<Rightarrow> bytes" where
  "frame_bytes m = ac_be32 (of_nat (length (snd m) + 2)) @ [AC_FRAME_VERSION, fst m] @ snd m"

definition frame_fits :: "u8 \<times> bytes \<Rightarrow> bool" where
  "frame_fits m \<longleftrightarrow> length (snd m) \<le> AC_FRAME_MAX_BYTES - 2"

text \<open>A stream without errors, cut into pieces and interrupted anywhere, and the bytes it carries.\<close>

definition open_stream :: "recv_event list \<Rightarrow> bool" where
  "open_stream es \<longleftrightarrow> list_all (\<lambda>e. e \<noteq> Recv_fail \<and> e \<noteq> Chunk []) es"

fun chunk :: "recv_event \<Rightarrow> bytes" where
  "chunk (Chunk b) = b"
| "chunk Recv_intr = []"
| "chunk Recv_fail = []"

definition stream_bytes :: "recv_event list \<Rightarrow> bytes" where
  "stream_bytes es = concat (map chunk es)"

lemma stream_simps [simp]:
  "stream_bytes [] = []" "stream_bytes (e # es) = chunk e @ stream_bytes es"
  "open_stream []" "open_stream (e # es) \<longleftrightarrow> e \<noteq> Recv_fail \<and> e \<noteq> Chunk [] \<and> open_stream es"
  by (simp_all add: stream_bytes_def open_stream_def)

lemma read_full_stream:
  assumes "open_stream es" "len \<le> length (stream_bytes es)"
  shows "\<exists>es'. read_full len es = (Some (take len (stream_bytes es)), es') \<and> open_stream es' \<and>
    stream_bytes es' = drop len (stream_bytes es)"
  using assms
proof (induction es arbitrary: len)
  case (Cons e es)
  show ?case
  proof (cases "len = 0 \<or> length (chunk e) > len")
    case True
    then show ?thesis using Cons.prems by (cases e) auto
  next
    case False
    have len: "len - length (chunk e) \<le> length (stream_bytes es)" "open_stream es" using Cons.prems by auto
    show ?thesis using Cons.IH [OF len(2,1)] False Cons.prems by (cases e) auto
  qed
qed simp

lemma frame_header:
  assumes "frame_fits (ty, p)"
  shows "unat (of_nat (length p + 2) :: u32) = length p + 2"
  using assms by (simp only: unat_of_nat) (simp add: frame_fits_def AC_FRAME_MAX_BYTES_def)

lemma frame_recv_stream:
  assumes "open_stream es" "stream_bytes es = frame_bytes (ty, p) @ rest" "frame_fits (ty, p)"
  obtains es' where "frame_recv es = (Some (ty, p), es')" "open_stream es'" "stream_bytes es' = rest"
proof -
  let ?t = "of_nat (length p + 2) :: u32"
  obtain es1 where h: "read_full 6 es = (Some (take 6 (stream_bytes es)), es1)" "open_stream es1"
      "stream_bytes es1 = drop 6 (stream_bytes es)"
    using read_full_stream [OF assms(1), of 6] assms(2) by (auto simp: frame_bytes_def)
  have t: "take 6 (stream_bytes es) = ac_be32 ?t @ [AC_FRAME_VERSION, ty]" "stream_bytes es1 = p @ rest"
    using assms(2) h(3) by (simp_all add: frame_bytes_def)
  have n: "ac_rd32 (ac_be32 ?t @ xs) = ?t" "(ac_be32 ?t @ xs) ! 4 = xs ! 0" "(ac_be32 ?t @ xs) ! 5 = xs ! 1" for xs
    by (simp_all add: nth_append)
  note u = frame_header [OF assms(3)]
  have b: "\<not> ?t < 2" "\<not> length p + 2 > AC_FRAME_MAX_BYTES"
    using u assms(3) by (simp_all add: word_less_nat_alt frame_fits_def AC_FRAME_MAX_BYTES_def)
  obtain es2 where r: "read_full (length p) es1 = (Some p, es2)" "open_stream es2" "stream_bytes es2 = rest"
    using read_full_stream [OF h(2), of "length p"] t(2) by auto
  have "p = [] \<Longrightarrow> read_full 0 es1 = (Some [], es1)" by (cases es1) simp_all
  then have "p = [] \<Longrightarrow> es2 = es1" using r(1) by simp
  then have "frame_recv es = (Some (ty, p), es2)"
    unfolding frame_recv_def h(1) t(1) Let_def prod.case option.case n u using b r(1) by auto
  then show ?thesis using that r(2,3) by blast
qed

fun recv_frames :: "nat \<Rightarrow> recv_event list \<Rightarrow> (u8 \<times> bytes) list" where
  "recv_frames 0 es = []"
| "recv_frames (Suc k) es = (case frame_recv es of (None, es) \<Rightarrow> [] | (Some m, es) \<Rightarrow> m # recv_frames k es)"

lemma recv_frames_stream:
  assumes "open_stream es" "stream_bytes es = concat (map frame_bytes ms) @ rest" "list_all frame_fits ms"
  shows "recv_frames (length ms) es = ms"
  using assms
proof (induction ms arbitrary: es)
  case (Cons m ms)
  obtain ty p where m: "m = (ty, p)" by fastforce
  obtain es' where "frame_recv es = (Some (ty, p), es')" "open_stream es'" "stream_bytes es' = concat (map frame_bytes ms) @ rest"
    using frame_recv_stream [OF Cons.prems(1), of ty p] Cons.prems(2,3) m by auto
  then show ?case using Cons.IH Cons.prems(3) m by simp
qed simp

lemma write_full_out: "write_full buf es = (ok, es', out) \<Longrightarrow> (ok \<longrightarrow> out = buf) \<and> prefix out buf"
proof (induction es arbitrary: buf ok es' out)
  case (Cons e es)
  have "(ok \<longrightarrow> take n buf @ o2 = buf) \<and> prefix (take n buf @ o2) buf" if "write_full (drop n buf) es = (ok, es', o2)" for n o2
    using Cons.IH [OF that] by (metis append_take_drop_id same_prefix_prefix)
  then show ?case
    using Cons.prems Cons.IH [of buf ok es' out] by (auto split: if_splits send_event.splits prod.splits)
qed auto

lemma frame_send_out:
  assumes "frame_send ty p es = (True, es', out)"
  shows "out = frame_bytes (ty, p) \<and> frame_fits (ty, p)"
  using assms
  by (auto simp: frame_send_def frame_bytes_def frame_fits_def Let_def split: if_splits prod.splits bool.splits
      dest!: write_full_out)

fun send_frames :: "(u8 \<times> bytes) list \<Rightarrow> send_event list \<Rightarrow> bool \<times> bytes" where
  "send_frames [] es = (True, [])"
| "send_frames (m # ms) es =
     (case frame_send (fst m) (snd m) es of
        (False, es, out) \<Rightarrow> (False, out)
      | (True, es, out) \<Rightarrow> (case send_frames ms es of (ok, out') \<Rightarrow> (ok, out @ out')))"

lemma send_frames_out: "send_frames ms es = (True, out) \<Longrightarrow> out = concat (map frame_bytes ms) \<and> list_all frame_fits ms"
  by (induction ms arbitrary: es out) (auto split: prod.splits bool.splits dest!: frame_send_out)

text \<open>
  Claim C20. What one peer sends is what the other receives: if the writes of a sequence of messages succeed,
  then a receiver whose socket delivers the written bytes in pieces of any size, with interrupts anywhere,
  reads exactly the same messages in the same order.
\<close>

theorem frames_delivered:
  assumes "send_frames ms es = (True, wire)" "open_stream rs" "stream_bytes rs = wire @ rest"
  shows "recv_frames (length ms) rs = ms"
  using send_frames_out [OF assms(1)] recv_frames_stream [OF assms(2)] assms(3) by simp

theorem frames_delivered_witness:
  "recv_frames 2 [Chunk [0, 0], Recv_intr, Chunk [0, 4, 1], Chunk [7, 9], Chunk [8, 0, 0, 0, 2, 1], Recv_intr, Chunk [11]] =
     [(7, [9, 8]), (11, [])]"
proof -
  have "send_frames [(7, [9, 8]), (11, [])] [Sent 3, Send_intr, Sent 9, Sent 5, Sent 1, Sent 6] =
      (True, [0, 0, 0, 4, 1, 7, 9, 8, 0, 0, 0, 2, 1, 11])"
    by (simp add: frame_send_def AC_FRAME_MAX_BYTES_def AC_FRAME_VERSION_def ac_be32_def)
  from frames_delivered [OF this, of "[Chunk [0, 0], Recv_intr, Chunk [0, 4, 1], Chunk [7, 9], Chunk [8, 0, 0, 0, 2, 1], Recv_intr, Chunk [11]]" "[]"]
  show ?thesis by (simp add: numeral_2_eq_2 del: recv_frames.simps)
qed

section \<open>The window of seen messages\<close>

text \<open>After the hashes \<open>hs\<close>, oldest first, position \<open>i mod 256\<close> of the ring holds the i-th of the last 256.\<close>

definition ring_ok :: "ac_net \<Rightarrow> ac_hash list \<Rightarrow> bool" where
  "ring_ok n hs \<longleftrightarrow> length (ne_dedup n) = 256 \<and> ne_dedup_n n = min (length hs) 256 \<and> ne_dedup_pos n = length hs mod 256 \<and>
     (\<forall>i<length hs. length hs \<le> i + 256 \<longrightarrow> ne_dedup n ! (i mod 256) = hs ! i)"

lemma mod_window:
  fixes i L :: nat
  assumes "i < L" "L < i + 256"
  shows "i mod 256 \<noteq> L mod 256"
proof
  assume "i mod 256 = L mod 256"
  then have "256 dvd L - i" using assms(1) by (metis mod_eq_dvd_iff_nat less_imp_le)
  then show False using assms by (auto dest: dvd_imp_le)
qed

lemma ring_remember:
  assumes "ring_ok n hs"
  shows "ring_ok (dedup_remember n h) (hs @ [h])"
proof -
  let ?L = "length hs"
  have "ne_dedup (dedup_remember n h) ! (i mod 256) = (hs @ [h]) ! i" if i: "i < Suc ?L" "Suc ?L \<le> i + 256" for i
  proof (cases "i = ?L")
    case False
    then have "i < ?L" "i mod 256 \<noteq> ?L mod 256" using i mod_window [of i ?L] by auto
    then show ?thesis using assms i by (simp add: ring_ok_def dedup_remember_def nth_append)
  qed (use assms in \<open>simp add: ring_ok_def dedup_remember_def\<close>)
  moreover have "ne_dedup_pos (dedup_remember n h) = Suc ?L mod 256"
    using assms by (simp add: ring_ok_def dedup_remember_def AC_DEDUP_CAP_def mod_Suc_eq)
  moreover have "length (ne_dedup (dedup_remember n h)) = 256" "ne_dedup_n (dedup_remember n h) = min (Suc ?L) 256"
    using assms by (auto simp: ring_ok_def dedup_remember_def AC_DEDUP_CAP_def)
  ultimately show ?thesis by (simp add: ring_ok_def)
qed

lemma set_drop_nth: "set (drop k xs) = {xs ! i | i. k \<le> i \<and> i < length xs}"
proof -
  have "\<exists>j<length xs - k. xs ! i = xs ! (k + j)" if "k \<le> i" "i < length xs" for i
    using that by (intro exI [of _ "i - k"]) auto
  then show ?thesis by (auto simp: set_conv_nth) (metis le_add1 less_diff_conv add.commute)
qed

lemma ring_set:
  assumes "ring_ok n hs"
  shows "set (take (ne_dedup_n n) (ne_dedup n)) = set (drop (length hs - 256) hs)"
proof -
  let ?L = "length hs"
  have at: "\<And>i. i < ?L \<Longrightarrow> ?L \<le> i + 256 \<Longrightarrow> ne_dedup n ! (i mod 256) = hs ! i" and n: "ne_dedup_n n = min ?L 256" "length (ne_dedup n) = 256"
    using assms by (auto simp: ring_ok_def)
  have "\<exists>i. i < ?L \<and> ?L \<le> i + 256 \<and> i mod 256 = j" if "j < min ?L 256" for j
  proof -
    define m where "m = ?L - 256"
    define i where "i = m + (j + 256 - m mod 256) mod 256"
    have "m mod 256 + (j + 256 - m mod 256) = j + 256" using mod_less_divisor [of 256 m] by linarith
    moreover have "i mod 256 = (m mod 256 + (j + 256 - m mod 256)) mod 256"
      unfolding i_def by (simp only: mod_add_right_eq mod_add_left_eq)
    ultimately have im: "i mod 256 = j" using that by simp
    have "i < m + 256" "m \<le> i" unfolding i_def by simp_all
    then show ?thesis
    proof (cases "256 \<le> ?L")
      case True
      then show ?thesis using im \<open>i < m + 256\<close> \<open>m \<le> i\<close> by (intro exI [of _ i]) (simp add: m_def)
    next
      case False
      then show ?thesis using that by (intro exI [of _ j]) simp
    qed
  qed
  then have "ne_dedup n ! j \<in> set (drop (?L - 256) hs)" if "j < min ?L 256" for j
    using at that unfolding set_drop_nth by (metis (mono_tags, lifting) le_diff_conv mem_Collect_eq)
  moreover have "hs ! i \<in> set (take (ne_dedup_n n) (ne_dedup n))" if i: "i < ?L" "?L \<le> i + 256" for i
  proof -
    have "i mod 256 < min ?L 256" using le_less_trans [OF mod_less_eq_dividend i(1)] by simp
    then show ?thesis using at [OF i] n nth_mem [of "i mod 256" "take (ne_dedup_n n) (ne_dedup n)"] by simp
  qed
  ultimately show ?thesis
    using n unfolding set_drop_nth by (auto simp: in_set_conv_nth le_diff_conv)
qed

text \<open>
  Claim C35. The ring of seen messages is a window over the history: a hash is found exactly if it is among the
  last 256 that were remembered.
\<close>

theorem dedup_window:
  assumes "list_all wf_hash hs" "wf_hash h"
  shows "dedup_has (foldl dedup_remember (ac_net_new cfg) hs) h \<longleftrightarrow> h \<in> set (drop (length hs - 256) hs)"
proof -
  have "ring_ok (foldl dedup_remember (ac_net_new cfg) hs) hs"
  proof (induction hs rule: rev_induct)
    case Nil
    then show ?case by (simp add: ring_ok_def ac_net_new_def AC_DEDUP_CAP_def)
  qed (simp add: ring_remember)
  note set = ring_set [OF this]
  have "ac_hash_eq x h \<longleftrightarrow> x = h" if "x \<in> set (drop (length hs - 256) hs)" for x
    using that assms ac_hash_eq_iff [of x h] by (auto simp: list_all_iff dest: in_set_dropD)
  then show ?thesis unfolding dedup_has_def list_ex_iff set by blast
qed

definition demo_net :: ac_net where
  "demo_net = ac_net_new \<lparr>nc_listen_port = 30303, nc_listen_host = [], nc_external_host = cstr ''a.example'', nc_chain_id = 7,
     nc_keypair = ac_keypair_from_seed demo_sodium (1 # zeros 31), nc_seed_peers = [], nc_target_outbound = 8\<rparr>"

theorem dedup_window_witness:
  "dedup_has (foldl dedup_remember demo_net [replicate 32 1, replicate 32 2]) (replicate 32 1)"
  unfolding demo_net_def by (subst dedup_window) (simp_all add: wf)

section \<open>HELLO\<close>

lemma rd_at_Some: "pos + len \<le> length buf \<Longrightarrow> rd_at buf pos len = Some (take len (drop pos buf))"
  by (simp add: rd_at_def)

lemma parse_gossip_bounds: "parse_gossip buf pos kept k \<noteq> None"
proof (induction k arbitrary: pos kept)
  case (Suc k)
  then show ?case by (simp add: rd_at_Some Let_def bind_eq_None_conv del: not_None_eq)
qed simp

text \<open>
  Claim C36. Whatever bytes a peer sends as its HELLO, the parser never reads outside the received buffer.
\<close>

theorem parse_hello_in_bounds: "parse_hello buf \<noteq> None"
proof (cases "length buf < 43")
  case True
  then show ?thesis by (simp add: parse_hello_def)
next
  case False
  define hl where "hl = unat (hd (take 1 (drop 42 buf)))"
  have rd: "rd_at buf 0 8 = Some (take 8 (drop 0 buf))" "rd_at buf 8 32 = Some (take 32 (drop 8 buf))"
    "rd_at buf 40 2 = Some (take 2 (drop 40 buf))" "rd_at buf 42 1 = Some (take 1 (drop 42 buf))"
    using False by (simp_all only: rd_at_def) simp_all
  have host: "rd_at buf 43 (if hl < 128 - 1 then hl else 128 - 1) \<noteq> None" if "\<not> 43 + hl > length buf"
    using that by (simp add: rd_at_def)
  have np: "rd_at buf (43 + hl) 1 \<noteq> None" if "\<not> 43 + hl \<ge> length buf" using that by (simp add: rd_at_def)
  have "\<not> length buf < 8 + AC_PUBKEY_SIZE + 2 + 1" using False by simp
  then show ?thesis
    using host np parse_gossip_bounds [of buf]
    unfolding parse_hello_def AC_PUBKEY_SIZE_def rd bind.bind_lunit Let_def hl_def [symmetric]
    by (auto simp: bind_eq_None_conv simp del: not_None_eq)
qed

text \<open>Hosts fit the fields they are stored in; identities have their size.\<close>

definition host_ok :: "bytes \<Rightarrow> bool" where
  "host_ok h \<longleftrightarrow> length h \<le> 127 \<and> 0 \<notin> set h"

definition peers_wf :: "peer list \<Rightarrow> bool" where
  "peers_wf ps \<longleftrightarrow> list_all (\<lambda>q. wf_addr (pe_peer_id q) \<and> host_ok (pe_host q)) ps"

definition advertised :: "peer \<Rightarrow> bool" where
  "advertised q \<longleftrightarrow> pe_in_use q \<and> pe_peer_id_known q \<and> pe_host q \<noteq> [] \<and> pe_port q \<noteq> 0"

definition peer_entry :: "peer \<Rightarrow> bytes" where
  "peer_entry q = pe_peer_id q @ ac_be16 (pe_port q) @ [of_nat (length (pe_host q))] @ pe_host q"

definition peer_told :: "peer \<Rightarrow> hello_peer" where
  "peer_told q = \<lparr>hp_peer_id = pe_peer_id q, hp_port = pe_port q, hp_host = pe_host q\<rparr>"

lemma length_peer_entry: "length (pe_peer_id q) = 32 \<Longrightarrow> length (peer_entry q) = 35 + length (pe_host q)"
  by (simp add: peer_entry_def)

lemma hello_gossip_step:
  assumes "k < 8" "advertised q" "length (pe_peer_id q) = 32" "length (pe_host q) \<le> 127" "pos + length (peer_entry q) + 32 \<le> 1500"
    and "hello_gossip qs (pos + length (peer_entry q)) (Suc k) = (g, k')"
  shows "hello_gossip (q # qs) pos k = (peer_entry q @ g, k')"
proof -
  have e: "take AC_PUBKEY_SIZE (pe_peer_id q) @ ac_be16 (pe_port q) @ [of_nat (length (pe_host q))] @ pe_host q = peer_entry q"
    using assms(3) by (simp add: peer_entry_def)
  have "\<not> pos + AC_PUBKEY_SIZE + 2 + 1 + length (pe_host q) + 32 > 1500" using assms(5) length_peer_entry [OF assms(3)] by simp
  then show ?thesis
    using assms by (simp only: hello_gossip.simps e Let_def AC_HELLO_PEER_MAX_def) (simp add: advertised_def)
qed

text \<open>Eight entries always fit into the buffer, so its size never cuts the list short.\<close>

lemma hello_gossip_spec:
  assumes "peers_wf qs" "k \<le> 8" "pos \<le> 171 + 162 * k"
  shows "hello_gossip qs pos k = (concat (map peer_entry (take (8 - k) (filter advertised qs))),
    k + length (take (8 - k) (filter advertised qs)))"
  using assms
proof (induction qs arbitrary: pos k)
  case (Cons q qs)
  have q: "length (pe_peer_id q) = 32" "length (pe_host q) \<le> 127" "peers_wf qs"
    using Cons.prems(1) by (simp_all add: peers_wf_def wf host_ok_def)
  consider (full) "k = 8" | (skip) "k < 8" "\<not> advertised q" | (add) "k < 8" "advertised q" using Cons.prems(2) by linarith
  then show ?case
  proof cases
    case full
    then show ?thesis by (simp add: AC_HELLO_PEER_MAX_def)
  next
    case skip
    then have "hello_gossip (q # qs) pos k = hello_gossip qs pos k"
      by (simp only: hello_gossip.simps advertised_def AC_HELLO_PEER_MAX_def) simp
    then show ?thesis using Cons.IH [OF q(3) Cons.prems(2,3)] skip(2) by simp
  next
    case add
    have k: "k < 8" "8 - k = Suc (7 - k)" using add(1) by auto
    have p: "pos + length (peer_entry q) \<le> 171 + 162 * Suc k" "pos + length (peer_entry q) + 32 \<le> 1500"
      using q(2) Cons.prems(3) k(1) length_peer_entry [OF q(1)] by simp_all
    have "hello_gossip qs (pos + length (peer_entry q)) (Suc k) = (concat (map peer_entry (take (7 - k) (filter advertised qs))),
        Suc k + length (take (7 - k) (filter advertised qs)))"
      using Cons.IH [OF q(3) _ p(1)] k(1) by simp
    from hello_gossip_step [OF k(1) add(2) q(1,2) p(2) this] show ?thesis using add(2) k(2) by simp
  qed
qed simp

lemma c_string_ok: "host_ok h \<Longrightarrow> c_string h = h"
  by (auto simp: c_string_def host_ok_def takeWhile_eq_all_conv)

lemma parse_gossip_step:
  assumes "rd_at buf pos 32 = Some pid" "rd_at buf (pos + 32) 2 = Some pp" "rd_at buf (pos + 34) 1 = Some [l]"
    and "pos + 35 + unat l \<le> length buf" "unat l \<le> 127" "kept < 8" "rd_at buf (pos + 35) (unat l) = Some host"
    and "parse_gossip buf (pos + 35 + unat l) (Suc kept) k = Some gs"
  shows "parse_gossip buf pos kept (Suc k) = Some (\<lparr>hp_peer_id = pid, hp_port = ac_rd16 pp, hp_host = c_string host\<rparr> # gs)"
proof -
  have "(if unat l < 128 - 1 then unat l else 128 - 1) = unat l" using assms(5) by simp
  then show ?thesis using assms by (simp add: AC_HELLO_PEER_MAX_def)
qed

lemma parse_gossip_spec:
  assumes "peers_wf qs" "kept + length qs \<le> 8"
  shows "parse_gossip (pre @ concat (map peer_entry qs) @ rest) (length pre) kept (length qs) = Some (map peer_told qs)"
  using assms
proof (induction qs arbitrary: pre kept)
  case (Cons q qs)
  let ?buf = "pre @ concat (map peer_entry (q # qs)) @ rest"
  have q: "length (pe_peer_id q) = 32" "host_ok (pe_host q)" "peers_wf qs"
    using Cons.prems(1) by (simp_all add: peers_wf_def wf)
  then have h: "length (pe_host q) \<le> 127" "unat (of_nat (length (pe_host q)) :: byte) = length (pe_host q)"
    by (simp_all add: host_ok_def unat_of_nat)
  have rd: "rd_at ?buf (length pre) 32 = Some (pe_peer_id q)" "rd_at ?buf (length pre + 32) 2 = Some (ac_be16 (pe_port q))"
    "rd_at ?buf (length pre + 34) 1 = Some [of_nat (length (pe_host q))]"
    "rd_at ?buf (length pre + 35) (length (pe_host q)) = Some (pe_host q)"
    using q(1) by (simp_all add: rd_at_def peer_entry_def)
  have "parse_gossip ((pre @ peer_entry q) @ concat (map peer_entry qs) @ rest) (length (pre @ peer_entry q)) (Suc kept) (length qs) =
      Some (map peer_told qs)" using Cons.IH [OF q(3), of "Suc kept" "pre @ peer_entry q"] Cons.prems(2) by simp
  then have "parse_gossip ?buf (length pre + 35 + length (pe_host q)) (Suc kept) (length qs) = Some (map peer_told qs)"
    using q(1) by (simp add: peer_entry_def add.assoc)
  moreover have "length pre + 35 + length (pe_host q) \<le> length ?buf" using length_peer_entry [OF q(1)] by simp
  moreover have "ac_rd16 (ac_be16 (pe_port q)) = pe_port q" using rd16_be16 [of "pe_port q" "[]"] by simp
  ultimately show ?case
    using parse_gossip_step [OF rd(1-3), of kept "pe_host q" "length qs" "map peer_told qs"] rd(4) h Cons.prems(2) c_string_ok [OF q(2)]
    by (simp add: peer_told_def)
qed simp

lemma parse_hello_step:
  assumes "rd_at buf 0 8 = Some cid" "rd_at buf 8 32 = Some pid" "rd_at buf 40 2 = Some pp" "rd_at buf 42 1 = Some [l]"
    and "unat l \<le> 127" "rd_at buf 43 (unat l) = Some host" "rd_at buf (43 + unat l) 1 = Some [np]" "unat np \<le> 8"
    and "parse_gossip buf (43 + unat l + 1) 0 (unat np) = Some gs"
  shows "parse_hello buf = Some (Some \<lparr>he_chain_id = ac_rd64 cid, he_peer_id = pid, he_port = ac_rd16 pp,
    he_host = c_string host, he_gossip = gs\<rparr>)"
proof -
  have b: "\<not> length buf < 8 + AC_PUBKEY_SIZE + 2 + 1" "\<not> 43 + unat l > length buf" "\<not> 43 + unat l \<ge> length buf"
    using assms(4,7) by (auto simp: rd_at_def split: if_splits)
  have i: "(if unat l < 128 - 1 then unat l else 128 - 1) = unat l" "(if unat np > AC_HELLO_PEER_MAX then AC_HELLO_PEER_MAX else unat np) = unat np"
    using assms(5,8) by (auto simp: AC_HELLO_PEER_MAX_def)
  show ?thesis
    unfolding parse_hello_def using b
    by (simp only: AC_PUBKEY_SIZE_def assms bind.bind_lunit Let_def list.sel i if_False) simp
qed

text \<open>
  A HELLO message tells the receiver what the sender knows: parsing the payload that a node sends
  gives back its chain, key, port and host, and the first eight peers it knows with an address, none cut
  off. The payload fits the 1500 bytes of its buffer.
\<close>

theorem hello_roundtrip:
  fixes n :: ac_net
  defines "cfg \<equiv> ne_cfg n"
  assumes "wf_addr (kp_pk (nc_keypair cfg))" "host_ok (nc_external_host cfg)" "peers_wf (ne_peers n)"
  shows "parse_hello (hello_payload n) = Some (Some \<lparr>he_chain_id = nc_chain_id cfg, he_peer_id = kp_pk (nc_keypair cfg),
      he_port = nc_listen_port cfg, he_host = nc_external_host cfg,
      he_gossip = map peer_told (take 8 (filter advertised (ne_peers n)))\<rparr>) \<and>
    length (hello_payload n) \<le> 1500"
proof -
  let ?pk = "kp_pk (nc_keypair cfg)" and ?h = "nc_external_host cfg" and ?qs = "take 8 (filter advertised (ne_peers n))"
  define l :: byte where "l = of_nat (length ?h)"
  define np :: byte where "np = of_nat (length ?qs)"
  define pre where "pre = (ac_be64 (nc_chain_id cfg) @ ?pk @ ac_be16 (nc_listen_port cfg) @ [l] @ ?h) @ [np]"
  have pk: "length ?pk = 32" and h: "length ?h \<le> 127" using assms(2,3) by (simp_all add: wf host_ok_def)
  have l: "unat l = length ?h" and np: "unat np = length ?qs" using h by (simp_all add: l_def np_def unat_of_nat)
  have lp: "length pre = 44 + length ?h" using pk by (simp add: pre_def)
  have "hello_gossip (ne_peers n) (44 + length ?h) 0 = (concat (map peer_entry ?qs), length ?qs)"
    using hello_gossip_spec [OF assms(4), of 0 "44 + length ?h"] h by simp
  then have pay: "hello_payload n = pre @ concat (map peer_entry ?qs)"
    using pk h by (simp add: hello_payload_def Let_def pre_def l_def np_def min_absorb1 flip: cfg_def)
  have ok: "peers_wf ?qs" using assms(4) by (auto simp: peers_wf_def list_all_iff dest: in_set_takeD)
  have g: "parse_gossip (hello_payload n) (43 + unat l + 1) 0 (unat np) = Some (map peer_told ?qs)"
    using parse_gossip_spec [OF ok, of 0 pre "[]"] by (simp add: pay lp l np add.commute)
  have rd: "rd_at (hello_payload n) 0 8 = Some (ac_be64 (nc_chain_id cfg))" "rd_at (hello_payload n) 8 32 = Some ?pk"
    "rd_at (hello_payload n) 40 2 = Some (ac_be16 (nc_listen_port cfg))" "rd_at (hello_payload n) 42 1 = Some [l]"
    "rd_at (hello_payload n) 43 (unat l) = Some ?h" "rd_at (hello_payload n) (43 + unat l) 1 = Some [np]"
    unfolding pay pre_def using pk by (simp_all add: rd_at_def l)
  have "ac_rd64 (ac_be64 (nc_chain_id cfg)) = nc_chain_id cfg" "ac_rd16 (ac_be16 (nc_listen_port cfg)) = nc_listen_port cfg"
    using rd64_be64 [of _ "[]"] rd16_be16 [of _ "[]"] by simp_all
  then have "parse_hello (hello_payload n) = Some (Some \<lparr>he_chain_id = nc_chain_id cfg, he_peer_id = ?pk,
      he_port = nc_listen_port cfg, he_host = ?h, he_gossip = map peer_told ?qs\<rparr>)"
    using parse_hello_step [OF rd(1-4) _ rd(5,6) _ g] h l np c_string_ok [OF assms(3)] by simp
  moreover have "length (concat (map peer_entry qs)) \<le> 162 * length qs" if "peers_wf qs" for qs
    using that by (induction qs) (auto simp: peers_wf_def wf host_ok_def length_peer_entry)
  then have "length (hello_payload n) \<le> 44 + 127 + 162 * length ?qs" using ok h by (fastforce simp: pay lp)
  then have "length (hello_payload n) \<le> 1500" by simp
  ultimately show ?thesis by simp
qed

theorem hello_roundtrip_witness:
  "\<exists>he. parse_hello (hello_payload demo_net) = Some (Some he) \<and> he_chain_id he = 7 \<and> he_host he = cstr ''a.example''"
proof -
  have "host_ok (cstr ''a.example'')" by (simp add: host_ok_def cstr_def)
  moreover have "peers_wf (ne_peers demo_net)" by (simp add: demo_net_def ac_net_new_def peers_wf_def peer_zero_def wf host_ok_def list_all_iff)
  moreover have "wf_addr (kp_pk (ac_keypair_from_seed demo_sodium (1 # zeros 31)))"
    using sodium_ok_keypair(1) [OF sodium_ok_demo, of "1 # zeros 31"] by (simp add: wf)
  ultimately show ?thesis using hello_roundtrip [of demo_net] by (simp add: demo_net_def ac_net_new_def)
qed

section \<open>Queues\<close>

text \<open>What a bounded queue promises to those who put messages in and take them out.\<close>

locale fifo =
  fixes content :: "'q \<Rightarrow> 'a list"
    and put :: "'q \<Rightarrow> 'a \<Rightarrow> bool \<times> 'q"
    and get :: "'q \<Rightarrow> ('a \<times> 'q) option"
    and good :: "'q \<Rightarrow> bool"
  assumes put_yes: "good q \<Longrightarrow> put q x = (True, q') \<Longrightarrow> content q' = content q @ [x] \<and> good q'"
    and put_no: "put q x = (False, q') \<Longrightarrow> q' = q"
    and get_none: "get q = None \<longleftrightarrow> content q = []"
    and get_some: "good q \<Longrightarrow> get q = Some (x, q') \<Longrightarrow> content q = x # content q' \<and> good q'"

datatype 'a queue_op = Put 'a | Get

text \<open>The messages accepted, the messages taken and the queue after a sequence of operations.\<close>

fun queue_run ::
  "('q \<Rightarrow> 'a \<Rightarrow> bool \<times> 'q) \<Rightarrow> ('q \<Rightarrow> ('a \<times> 'q) option) \<Rightarrow> 'a queue_op list \<Rightarrow> 'q \<Rightarrow> 'a list \<times> 'a list \<times> 'q" where
  "queue_run put get [] q = ([], [], q)"
| "queue_run put get (Put x # os) q =
     (case put q x of (ok, q) \<Rightarrow> case queue_run put get os q of (ins, outs, q) \<Rightarrow> (if ok then x # ins else ins, outs, q))"
| "queue_run put get (Get # os) q =
     (case get q of
        None \<Rightarrow> queue_run put get os q
      | Some (x, q) \<Rightarrow> case queue_run put get os q of (ins, outs, q) \<Rightarrow> (ins, x # outs, q))"

context fifo
begin

lemma in_order:
  assumes "good q" "queue_run put get os q = (ins, outs, q')"
  shows "content q @ ins = outs @ content q' \<and> good q'"
  using assms
proof (induction os arbitrary: q ins outs)
  case (Cons a os)
  show ?case
  proof (cases a)
    case (Put x)
    obtain ok q1 ins1 where p: "put q x = (ok, q1)" "queue_run put get os q1 = (ins1, outs, q')" "ins = (if ok then x # ins1 else ins1)"
      using Cons.prems(2) Put by (auto split: prod.splits)
    show ?thesis
    proof (cases ok)
      case True
      then show ?thesis using Cons.IH [OF _ p(2)] put_yes [OF Cons.prems(1)] p by fastforce
    next
      case False
      then show ?thesis using Cons.IH [OF _ p(2)] put_no Cons.prems(1) p by fastforce
    qed
  next
    case Get
    then show ?thesis
      using Cons.prems Cons.IH get_some [OF Cons.prems(1)] by (fastforce split: option.splits prod.splits)
  qed
qed simp

end

definition outbox :: "peer \<Rightarrow> (u8 \<times> bytes) list" where
  "outbox p = map (\<lambda>m. (om_type m, om_payload m)) (pe_out p)"

definition outbox_put :: "peer \<Rightarrow> u8 \<times> bytes \<Rightarrow> bool \<times> peer" where
  "outbox_put p m = peer_enqueue p (fst m) (snd m)"

definition outbox_get :: "peer \<Rightarrow> ((u8 \<times> bytes) \<times> peer) option" where
  "outbox_get p = map_option (\<lambda>(m, p). ((om_type m, om_payload m), p)) (out_pop p)"

text \<open>The counters are those of the queue, and the queue is within its limits.\<close>

definition outbox_ok :: "peer \<Rightarrow> bool" where
  "outbox_ok p \<longleftrightarrow> pe_out_msgs p = length (pe_out p) \<and> pe_out_bytes p = sum_list (map (length \<circ> om_payload) (pe_out p)) \<and>
     pe_out_msgs p \<le> AC_OUT_QUEUE_MAX_MSGS \<and> pe_out_bytes p \<le> AC_OUT_QUEUE_MAX_BYTES \<and>
     list_all (\<lambda>m. frame_fits (om_type m, om_payload m)) (pe_out p)"

interpretation out: fifo outbox outbox_put outbox_get outbox_ok
proof
  fix q x q'
  assume g: "outbox_ok q"
  show "outbox_put q x = (True, q') \<Longrightarrow> outbox q' = outbox q @ [x] \<and> outbox_ok q'"
    using g by (auto simp: outbox_put_def peer_enqueue_def outbox_def outbox_ok_def frame_fits_def split: if_splits)
  show "outbox_get q = Some (x, q') \<Longrightarrow> outbox q = x # outbox q' \<and> outbox_ok q'"
    using g by (auto simp: outbox_get_def out_pop_def outbox_def outbox_ok_def split: list.splits)
next
  fix q x q'
  show "outbox_put q x = (False, q') \<Longrightarrow> q' = q"
    by (auto simp: outbox_put_def peer_enqueue_def split: if_splits)
  show "outbox_get q = None \<longleftrightarrow> outbox q = []"
    by (simp add: outbox_get_def out_pop_def outbox_def split: list.split)
qed

text \<open>
  Messages to a peer leave in the order in which they were accepted. However the enqueuing threads
  and the writer interleave, the messages written followed by those still queued are the messages queued
  before followed by those accepted; the two counters stay exact and the queue never exceeds 2048 messages
  or 4 MiB.
\<close>

theorem outbox_in_order:
  assumes "outbox_ok p" "queue_run outbox_put outbox_get os p = (ins, outs, p')"
  shows "outbox p @ ins = outs @ outbox p' \<and> pe_out_msgs p' = length (outbox p') \<and>
    pe_out_bytes p' = sum_list (map (length \<circ> snd) (outbox p')) \<and> length (outbox p') \<le> 2048 \<and> pe_out_bytes p' \<le> 4194304"
  using out.in_order [OF assms]
  by (simp add: outbox_ok_def outbox_def AC_OUT_QUEUE_MAX_MSGS_def AC_OUT_QUEUE_MAX_BYTES_def comp_def)

theorem outbox_in_order_witness:
  "\<exists>p'. queue_run outbox_put outbox_get [Put (8, [1]), Get, Put (6, [2, 3])] peer_zero = ([(8, [1]), (6, [2, 3])], [(8, [1])], p') \<and>
     outbox p' = [(6, [2, 3])]"
proof -
  have "outbox_ok peer_zero" by (simp add: outbox_ok_def peer_zero_def)
  moreover obtain p' where "queue_run outbox_put outbox_get [Put (8, [1]), Get, Put (6, [2, 3])] peer_zero =
      ([(8, [1]), (6, [2, 3])], [(8, [1])], p')"
    by (simp add: outbox_put_def outbox_get_def peer_enqueue_def out_pop_def peer_zero_def AC_FRAME_MAX_BYTES_def
        AC_OUT_QUEUE_MAX_MSGS_def AC_OUT_QUEUE_MAX_BYTES_def)
  ultimately show ?thesis using outbox_in_order by (fastforce simp: outbox_def peer_zero_def)
qed

section \<open>Sweeps over the table of peers\<close>

text \<open>A loop over the table whose body changes only the slot it looks at.\<close>

locale slot_sweep =
  fixes step :: "ac_net \<Rightarrow> nat \<Rightarrow> ac_net"
    and upd :: "nat \<Rightarrow> peer \<Rightarrow> peer"
  assumes step_peers: "ne_peers (step n i) = (ne_peers n)[i := upd i (ne_peers n ! i)]"
begin

lemma sweep_length: "length (ne_peers (foldl step n [0..<m])) = length (ne_peers n)"
  by (induction m) (simp_all add: step_peers)

lemma sweep_slot:
  assumes "j < length (ne_peers n)"
  shows "ne_peers (foldl step n [0..<m]) ! j = (if j < m then upd j (ne_peers n ! j) else ne_peers n ! j)"
proof (induction m)
  case (Suc m)
  then show ?case using assms sweep_length [of n m] by (cases "j = m") (simp_all add: step_peers less_Suc_eq)
qed simp

end

lemma shut_peers [simp]: "ne_peers (sock_shutdown n fd) = ne_peers n"
  by (simp add: sock_shutdown_def)

lemma list_update_same: "xs[i := xs ! i] = xs"
  by (simp add: list_update_id)

definition routed :: "peer \<Rightarrow> bool" where
  "routed p \<longleftrightarrow> pe_in_use p \<and> pe_peer_id_known p \<and> pe_fd p \<ge> 0"

definition addressed :: "ac_addr option \<Rightarrow> peer \<Rightarrow> bool" where
  "addressed exclude p \<longleftrightarrow> routed p \<and> (\<forall>x. exclude = Some x \<longrightarrow> \<not> ac_addr_eq (pe_peer_id p) x)"

interpretation bcst: slot_sweep "broadcast_peer ty payload exclude"
  "\<lambda>i p. if addressed exclude p then snd (peer_enqueue p ty payload) else p" for ty payload exclude
  by unfold_locales
    (auto simp: broadcast_peer_def addressed_def routed_def Let_def set_peer_def list_update_same split: prod.splits bool.splits option.splits)

interpretation evic: slot_sweep "evict_peer i their_id"
  "\<lambda>j p. if j \<noteq> i \<and> pe_in_use p \<and> pe_peer_id_known p \<and> memcmp (take AC_PUBKEY_SIZE (pe_peer_id p)) (take AC_PUBKEY_SIZE their_id) = 0
     then p\<lparr>pe_peer_id_known := False, pe_out_closing := True\<rparr> else p" for i their_id
  by unfold_locales (auto simp: evict_peer_def Let_def set_peer_def list_update_same)

interpretation reap: slot_sweep reap_slot
  "\<lambda>i p. if pe_in_use p \<and> pe_fd p < 0 \<and> (pe_reader_started p \<or> pe_writer_started p)
     then (if pe_writer_started p then writer_exit p else p)\<lparr>pe_reader_started := False, pe_writer_started := False, pe_in_use := False\<rparr> else p"
  by unfold_locales (auto simp: reap_slot_def Let_def set_peer_def list_update_same)

lemma shut_after: "\<exists>fds. ne_shut (broadcast_peer ty payload exclude n i) = ne_shut n @ fds \<and>
    (set fds = (if addressed exclude (ne_peers n ! i) \<and> \<not> fst (peer_enqueue (ne_peers n ! i) ty payload) then {pe_fd (ne_peers n ! i)} else {}))"
  by (auto simp: broadcast_peer_def addressed_def routed_def Let_def set_peer_def sock_shutdown_def peer_enqueue_def
      split: prod.splits bool.splits option.splits)

text \<open>
  A broadcast reaches every connected peer but the excluded one: the message is appended to the queue
  of each peer that is identified, connected and not excluded, if it fits; a peer whose queue is full keeps
  its queue. No other slot changes.
\<close>

theorem broadcast_reaches:
  fixes ty :: u8 and payload :: bytes and exclude :: "ac_addr option"
  assumes "j < length (ne_peers n)" "length (ne_peers n) = AC_MAX_PEERS"
  defines "p \<equiv> ne_peers n ! j" and "p' \<equiv> ne_peers (ac_net_broadcast n ty payload exclude) ! j"
  shows "(\<not> addressed exclude p \<longrightarrow> p' = p) \<and>
    (addressed exclude p \<and> fst (peer_enqueue p ty payload) \<longrightarrow>
       outbox p' = outbox p @ [(ty, payload)] \<and> p' = p\<lparr>pe_out := pe_out p', pe_out_msgs := pe_out_msgs p', pe_out_bytes := pe_out_bytes p'\<rparr>) \<and>
    (addressed exclude p \<and> \<not> fst (peer_enqueue p ty payload) \<longrightarrow> p' = p)"
proof -
  have "p' = (if addressed exclude p then snd (peer_enqueue p ty payload) else p)"
    using bcst.sweep_slot [OF assms(1), of ty payload exclude AC_MAX_PEERS] assms(1,2) by (simp add: ac_net_broadcast_def p_def p'_def)
  then show ?thesis by (auto simp: peer_enqueue_def outbox_def split: if_splits)
qed

theorem broadcast_reaches_witness:
  "ne_peers (ac_net_broadcast demo_net 6 [1, 2] None) ! 0 = peer_zero"
proof -
  have "ne_peers demo_net ! 0 = peer_zero" "length (ne_peers demo_net) = AC_MAX_PEERS"
    by (simp_all add: demo_net_def ac_net_new_def AC_MAX_PEERS_def)
  moreover from this have "0 < length (ne_peers demo_net)" by (simp add: AC_MAX_PEERS_def)
  ultimately show ?thesis
    using broadcast_reaches [of 0 demo_net None 6 "[1, 2]"] by (simp add: addressed_def routed_def peer_zero_def)
qed

section \<open>The newest connection of a peer\<close>

lemma route_find_Some:
  assumes "i < length ps" "routed (ps ! i)" "ac_addr_eq (pe_peer_id (ps ! i)) a"
    and "\<forall>j<i. \<not> (pe_in_use (ps ! j) \<and> pe_peer_id_known (ps ! j) \<and> ac_addr_eq (pe_peer_id (ps ! j)) a)"
  shows "route_find a k ps = Some (k + i)"
  using assms
proof (induction ps arbitrary: i k)
  case (Cons p ps)
  show ?case
  proof (cases i)
    case 0
    then show ?thesis using Cons.prems by (simp add: routed_def)
  next
    case (Suc j)
    have "\<not> (pe_in_use p \<and> pe_peer_id_known p \<and> ac_addr_eq (pe_peer_id p) a)" using Cons.prems(4) Suc by force
    moreover have "route_find a (Suc k) ps = Some (Suc k + j)"
      using Cons.prems Suc by (intro Cons.IH) auto
    ultimately show ?thesis using Suc by auto
  qed
qed simp

text \<open>
  The newest connection wins: once a peer that says HELLO on a new connection has been registered,
  messages to it go to the new slot, and no other slot carries its identity any more.
\<close>

theorem newest_connection_wins:
  fixes now :: u64 and he :: hello
  assumes "length (ne_peers n) = AC_MAX_PEERS" "i < AC_MAX_PEERS" "pe_in_use (ne_peers n ! i)" "pe_fd (ne_peers n ! i) \<ge> 0"
    and "wf_addr (he_peer_id he)" "peers_wf (ne_peers n)"
  defines "n' \<equiv> reader_register (reader_evict n i (he_peer_id he)) i he now"
  shows "route_find (he_peer_id he) 0 (ne_peers n') = Some i \<and>
    (\<forall>j<AC_MAX_PEERS. j \<noteq> i \<longrightarrow> \<not> (pe_in_use (ne_peers n' ! j) \<and> pe_peer_id_known (ne_peers n' ! j) \<and>
       pe_peer_id (ne_peers n' ! j) = he_peer_id he))"
proof -
  let ?e = "reader_evict n i (he_peer_id he)"
  have len: "length (ne_peers ?e) = AC_MAX_PEERS" "length (ne_peers n') = AC_MAX_PEERS"
    using evic.sweep_length [of i "he_peer_id he" n AC_MAX_PEERS] assms(1)
    by (simp_all add: reader_evict_def n'_def reader_register_def Let_def set_peer_def)
  have slot: "ne_peers ?e ! j = (if j \<noteq> i \<and> pe_in_use (ne_peers n ! j) \<and> pe_peer_id_known (ne_peers n ! j) \<and>
        pe_peer_id (ne_peers n ! j) = he_peer_id he
      then (ne_peers n ! j)\<lparr>pe_peer_id_known := False, pe_out_closing := True\<rparr> else ne_peers n ! j)" if "j < AC_MAX_PEERS" for j
  proof -
    have "length (pe_peer_id (ne_peers n ! j)) = 32" using assms(1,6) that by (auto simp: peers_wf_def list_all_length wf)
    then have "memcmp (take AC_PUBKEY_SIZE (pe_peer_id (ne_peers n ! j))) (take AC_PUBKEY_SIZE (he_peer_id he)) = 0 \<longleftrightarrow>
        pe_peer_id (ne_peers n ! j) = he_peer_id he" using assms(5) by (simp add: memcmp_iffs wf)
    then show ?thesis using evic.sweep_slot [of j n i "he_peer_id he" AC_MAX_PEERS] that assms(1) by (simp add: reader_evict_def)
  qed
  have new: "ne_peers n' ! j = (if j = i then (ne_peers ?e ! i)\<lparr>pe_peer_id := he_peer_id he, pe_peer_id_known := True,
        pe_host := (if he_host he \<noteq> [] then take 127 (he_host he) else pe_host (ne_peers ?e ! i)), pe_port := he_port he,
        pe_last_seen_ms := now\<rparr> else ne_peers ?e ! j)" if "j < AC_MAX_PEERS" for j
    using that len(1) assms(2) by (simp add: n'_def reader_register_def Let_def set_peer_def)
  have others: "\<not> (pe_in_use (ne_peers n' ! j) \<and> pe_peer_id_known (ne_peers n' ! j) \<and> pe_peer_id (ne_peers n' ! j) = he_peer_id he)"
    if "j < AC_MAX_PEERS" "j \<noteq> i" for j
    using slot [OF that(1)] new [OF that(1)] that(2) by auto
  have "routed (ne_peers n' ! i)" "pe_peer_id (ne_peers n' ! i) = he_peer_id he"
    using new [OF assms(2)] slot [OF assms(2)] assms(3,4) by (simp_all add: routed_def)
  moreover have same: "pe_peer_id (ne_peers n' ! j) = he_peer_id he" if "j < AC_MAX_PEERS" "ac_addr_eq (pe_peer_id (ne_peers n' ! j)) (he_peer_id he)" for j
  proof -
    have "wf_addr (pe_peer_id (ne_peers n' ! j))"
      using slot [OF that(1)] new [OF that(1)] assms(1,5,6) that(1) by (auto simp: peers_wf_def list_all_length)
    then show ?thesis using that(2) ac_addr_eq_iff assms(5) by blast
  qed
  moreover have "\<not> (pe_in_use (ne_peers n' ! j) \<and> pe_peer_id_known (ne_peers n' ! j) \<and> ac_addr_eq (pe_peer_id (ne_peers n' ! j)) (he_peer_id he))"
    if "j < i" for j
    using others [of j] same [of j] that assms(2) by auto
  ultimately have "route_find (he_peer_id he) 0 (ne_peers n') = Some i"
    using route_find_Some [of i "ne_peers n'" "he_peer_id he" 0] assms(2,5) len(2) by (simp add: ac_addr_eq_iff)
  with others show ?thesis by blast
qed

text \<open>A table with a stale slot of the peer that connects again.\<close>

definition demo_table :: ac_net where
  "demo_table = set_peer (set_peer demo_net 0 (peer_zero\<lparr>pe_in_use := True, pe_fd := 5, pe_peer_id := 2 # zeros 31, pe_peer_id_known := True\<rparr>))
     1 (peer_zero\<lparr>pe_in_use := True, pe_fd := 6\<rparr>)"

definition demo_hello :: hello where
  "demo_hello = \<lparr>he_chain_id = 7, he_peer_id = 2 # zeros 31, he_port = 30303, he_host = [], he_gossip = []\<rparr>"

lemma demo_table_ok: "length (ne_peers demo_table) = AC_MAX_PEERS" "peers_wf (ne_peers demo_table)"
    "ne_peers demo_table ! 1 = peer_zero\<lparr>pe_in_use := True, pe_fd := 6\<rparr>"
proof -
  let ?ps = "ne_peers demo_net"
  have d: "?ps = replicate 64 peer_zero" by (simp add: demo_net_def ac_net_new_def AC_MAX_PEERS_def)
  have "set (?ps[0 := a, 1 := b]) \<subseteq> {peer_zero, a, b}" for a b
    using set_update_subset_insert [of "?ps[0 := a]" 1 b] set_update_subset_insert [of ?ps 0 a] by (auto simp: d)
  then show "peers_wf (ne_peers demo_table)"
    by (force simp: demo_table_def set_peer_def peers_wf_def list_all_iff peer_zero_def wf host_ok_def)
  show "length (ne_peers demo_table) = AC_MAX_PEERS" "ne_peers demo_table ! 1 = peer_zero\<lparr>pe_in_use := True, pe_fd := 6\<rparr>"
    by (simp_all add: demo_table_def set_peer_def d AC_MAX_PEERS_def)
qed

theorem newest_connection_wins_witness:
  "route_find (2 # zeros 31) 0 (ne_peers (reader_register (reader_evict demo_table 1 (2 # zeros 31)) 1 demo_hello 0)) = Some 1"
  using newest_connection_wins [OF demo_table_ok(1), of 1 demo_hello 0] demo_table_ok(2,3)
  by (simp add: demo_hello_def wf AC_MAX_PEERS_def peer_zero_def)

text \<open>
  The identity is written after the critical section that retires the older slots. When two connections of
  one peer interleave there, both stay registered.
\<close>

lemma hello_race:
  fixes he :: hello and t1 t2 :: u64
  assumes "i < length (ne_peers n)" "j < length (ne_peers n)" "i \<noteq> j"
  defines "n2 \<equiv> reader_evict (reader_evict n i (he_peer_id he)) j (he_peer_id he)"
  defines "n4 \<equiv> reader_register (reader_register n2 i he t1) j he t2"
  shows "pe_peer_id_known (ne_peers n4 ! i) \<and> pe_peer_id_known (ne_peers n4 ! j) \<and>
    pe_peer_id (ne_peers n4 ! i) = he_peer_id he \<and> pe_peer_id (ne_peers n4 ! j) = he_peer_id he"
proof -
  have "length (ne_peers n2) = length (ne_peers n)" by (simp add: n2_def reader_evict_def evic.sweep_length)
  then show ?thesis using assms(1-3) by (simp add: n4_def reader_register_def Let_def set_peer_def)
qed

section \<open>Addresses\<close>

lemma split_colon_append:
  assumes "0x3a \<notin> set d"
  shows "split_colon (h @ 0x3a # d) = Some (h, d)"
proof -
  have "takeWhile (\<lambda>b. b \<noteq> 0x3a) (rev d @ 0x3a # rev h) = rev d"
    using assms by (subst takeWhile_append2) auto
  then show ?thesis by (simp add: split_colon_def)
qed

text \<open>
  A peer that HELLO gossip names by host and port is dialled at just that host and port: the text
  built for it is taken apart again at its last colon, also when the host is an IPv6 literal.
\<close>

theorem dial_gossip_target:
  assumes "host_ok host" "host = [] \<or> hd host \<noteq> 0x5b" "port \<noteq> 0"
  shows "dial_target (host_port host port) = Some (host, unat port)"
proof -
  have u: "unat port < 65536" using unsigned_less [where w = port and 'a = nat] by simp
  then have p: "unat port < 10 ^ 5" by simp
  have "host_port host port = host @ 0x3a # decimal (unat port)"
    using assms(1) decimal_length [OF p] by (auto simp: host_port_def host_ok_def)
  moreover have "0x3a \<notin> set (decimal (unat port))"
    using decimal_is_digits [of "unat port"] digit_simps(4) by (auto simp: list_all_iff)
  ultimately have s: "split_colon (host_port host port) = Some (host, decimal (unat port))" using split_colon_append by simp
  have "strip_brackets host = host" using assms(2) by (auto simp: strip_brackets_def)
  moreover have "\<not> atoi (decimal k) \<le> 0" "\<not> atoi (decimal k) > 65535" "nat (atoi (decimal k)) = k" if "0 < k" "k < 65536" for k
    using that by (simp_all add: atoi_decimal)
  from this [of "unat port"] have "\<not> atoi (decimal (unat port)) \<le> 0" "\<not> atoi (decimal (unat port)) > 65535"
      "nat (atoi (decimal (unat port))) = unat port" using assms(3) u by (simp_all only: unat_gt_0 not_False_eq_True)
  ultimately show ?thesis using assms(1) s by (simp add: dial_target_def host_ok_def)
qed

theorem dial_gossip_target_witness:
  "dial_target (host_port (cstr ''fe80::1'') 30303) = Some (cstr ''fe80::1'', 30303)"
  using dial_gossip_target [of "cstr ''fe80::1''" 30303] by (simp add: host_ok_def cstr_def)

section \<open>Runs\<close>

text \<open>A slot that is in use holds an identity other than the node's own once it is known.\<close>

definition peer_ok :: "ac_net_config \<Rightarrow> peer \<Rightarrow> bool" where
  "peer_ok cfg p \<longleftrightarrow> wf_addr (pe_peer_id p) \<and> host_ok (pe_host p) \<and> outbox_ok p \<and>
     (pe_in_use p \<and> pe_peer_id_known p \<longrightarrow> pe_peer_id p \<noteq> kp_pk (nc_keypair cfg))"

definition net_ok :: "ac_net \<Rightarrow> bool" where
  "net_ok n \<longleftrightarrow> length (ne_peers n) = AC_MAX_PEERS \<and> list_all (peer_ok (ne_cfg n)) (ne_peers n) \<and>
     length (ne_dedup n) = AC_DEDUP_CAP \<and> ne_dedup_n n \<le> AC_DEDUP_CAP \<and> ne_dedup_pos n < AC_DEDUP_CAP \<and>
     wf_addr (kp_pk (nc_keypair (ne_cfg n)))"

text \<open>
  What the threads of the transport do, one critical section at a time. \<open>touch\<close> and \<open>answer\<close> are the parts
  of the dispatcher that write to the slot it reads from; seeds and resolved hosts are C strings.
\<close>

inductive net_step :: "ac_net \<Rightarrow> ac_net \<Rightarrow> bool" for n where
  accept: "0 \<notin> set host \<Longrightarrow> net_step n (listen_accept n fd host port)"
| dial: "0 \<notin> set hp \<Longrightarrow> net_step n (snd (dial_peer con n hp))"
| evict: "net_step n (reader_evict n i their_id)"
| register: "reader_hello n frame = Some he \<Longrightarrow> i < AC_MAX_PEERS \<Longrightarrow> net_step n (reader_register n i he now)"
| touch: "i < AC_MAX_PEERS \<Longrightarrow> net_step n (set_peer n i ((ne_peers n ! i)\<lparr>pe_last_seen_ms := now\<rparr>))"
| answer: "i < AC_MAX_PEERS \<Longrightarrow> net_step n (set_peer n i (snd (peer_enqueue (ne_peers n ! i) ty payload)))"
| remember: "net_step n (dedup_remember n h)"
| broadcast: "net_step n (ac_net_broadcast n ty payload exclude)"
| send_to: "net_step n (snd (ac_net_send_to n a ty payload))"
| writer: "i < AC_MAX_PEERS \<Longrightarrow> net_step n (fst (snd (writer_round n i es)))"
| close: "i < AC_MAX_PEERS \<Longrightarrow> net_step n (set_peer n i (peer_close_fd (ne_peers n ! i)))"
| reap: "net_step n (reap_dead_peers n)"
| stop: "net_step n (ac_net_stop n)"

lemma set_peer_ok: "net_ok n \<Longrightarrow> peer_ok (ne_cfg n) p \<Longrightarrow> net_ok (set_peer n i p)"
  using set_update_subset_insert [of "ne_peers n" i p] by (auto simp: net_ok_def set_peer_def list_all_iff)

lemma shutdown_ok: "net_ok n \<Longrightarrow> net_ok (sock_shutdown n fd)"
  by (simp add: net_ok_def sock_shutdown_def)

lemma net_ok_slot: "net_ok n \<Longrightarrow> i < AC_MAX_PEERS \<Longrightarrow> peer_ok (ne_cfg n) (ne_peers n ! i)"
  by (simp add: net_ok_def list_all_length)

lemma enqueue_ok: "peer_ok cfg p \<Longrightarrow> peer_ok cfg (snd (peer_enqueue p ty payload))"
  by (auto simp: peer_ok_def peer_enqueue_def outbox_ok_def frame_fits_def)

lemma exit_ok: "peer_ok cfg p \<Longrightarrow> peer_ok cfg (writer_exit p)"
  by (simp add: peer_ok_def writer_exit_def out_drop_all_locked_def outbox_ok_def)

lemma pop_ok: "peer_ok cfg p \<Longrightarrow> out_pop p = Some (m, p') \<Longrightarrow> peer_ok cfg p' \<and> pe_fd p' = pe_fd p"
  by (auto simp: peer_ok_def out_pop_def outbox_ok_def split: list.splits)

lemma writer_ok:
  assumes "net_ok n" "i < AC_MAX_PEERS"
  shows "net_ok (fst (snd (writer_round n i es)))"
  using assms net_ok_slot [OF assms] pop_ok [OF net_ok_slot [OF assms]]
  by (auto simp: writer_round_def Let_def exit_ok set_peer_ok shutdown_ok split: option.split prod.split bool.split)

lemma alloc_ok:
  assumes "net_ok n" "peer_alloc n = Some (i, n')"
  shows "net_ok n' \<and> ne_peers n' ! i = peer_zero\<lparr>pe_in_use := True, pe_fd := -1\<rparr> \<and> ne_cfg n' = ne_cfg n"
proof -
  have "peer_free k ps = Some i \<Longrightarrow> k \<le> i \<and> i < k + length ps" for k ps
    by (induction ps arbitrary: k) (fastforce split: if_splits)+
  then have "i < length (ne_peers n)" "n' = set_peer n i (peer_zero\<lparr>pe_in_use := True, pe_fd := -1\<rparr>)"
    using assms(2) by (fastforce simp: peer_alloc_def split: option.splits)+
  then show ?thesis
    using set_peer_ok [OF assms(1)] by (simp add: peer_ok_def peer_zero_def wf host_ok_def outbox_ok_def set_peer_def)
qed

lemma strip_sub: "set (strip_brackets h) \<subseteq> set h"
proof -
  have "set (tl h) \<subseteq> set h" by (cases h) auto
  then show ?thesis by (auto simp: strip_brackets_def dest: in_set_takeD)
qed

lemma dial_target_sub:
  assumes "dial_target hp = Some (host, port)"
  shows "set host \<subseteq> set hp"
proof -
  obtain h p where sc: "split_colon hp = Some (h, p)" and "host = strip_brackets h"
    using assms by (auto simp: dial_target_def split: option.splits if_splits)
  moreover from sc have "set h \<subseteq> set hp"
    using set_take_subset by (force simp: split_colon_def Let_def split: if_splits)
  ultimately show ?thesis using strip_sub by blast
qed

lemma take_host: "0 \<notin> set host \<Longrightarrow> host_ok (take 127 host)"
  by (auto simp: host_ok_def dest: in_set_takeD)

lemma fresh_ok:
  assumes "net_ok n" "peer_alloc n = Some (i, n')" "0 \<notin> set host"
  shows "net_ok (set_peer n' i ((ne_peers n' ! i)\<lparr>pe_fd := fd, pe_inbound := b, pe_host := take 127 host,
    pe_port := port, pe_writer_started := True, pe_reader_started := True\<rparr>))"
proof -
  note alloc_ok [OF assms(1,2)]
  then have "net_ok n'" and slot: "ne_peers n' ! i = peer_zero\<lparr>pe_in_use := True, pe_fd := -1\<rparr>" by simp_all
  moreover have "peer_ok cfg (peer_zero\<lparr>pe_in_use := True, pe_fd := fd, pe_inbound := b, pe_host := take 127 host,
      pe_port := port, pe_writer_started := True, pe_reader_started := True\<rparr>)" for cfg
    using take_host [OF assms(3)] by (simp add: peer_ok_def peer_zero_def wf outbox_ok_def)
  ultimately show ?thesis using set_peer_ok by simp
qed

lemma dial_ok:
  assumes "net_ok n" "0 \<notin> set hp"
  shows "net_ok (snd (dial_peer con n hp))"
proof (cases "dial_target hp")
  case (Some hpt)
  obtain host port where h: "hpt = (host, port)" by fastforce
  then have "0 \<notin> set host" using dial_target_sub Some assms(2) by blast
  from fresh_ok [OF assms(1) _ this] show ?thesis
    by (simp add: dial_peer_def Some h assms(1) split: option.split)
qed (simp add: dial_peer_def assms)

lemma accept_ok: "net_ok n \<Longrightarrow> 0 \<notin> set host \<Longrightarrow> net_ok (listen_accept n fd host port)"
  by (simp add: listen_accept_def fresh_ok split: option.split)

lemma sweep_ok:
  assumes "net_ok n" "\<And>n i. net_ok n \<Longrightarrow> i < m \<Longrightarrow> net_ok (f n i)"
  shows "net_ok (foldl f n [0..<m])"
  using assms(2) by (induction m) (simp_all add: assms(1))

lemma broadcast_ok: "net_ok n \<Longrightarrow> net_ok (ac_net_broadcast n ty payload exclude)"
  unfolding ac_net_broadcast_def
proof (erule sweep_ok)
  fix n i assume n: "net_ok n" "i < AC_MAX_PEERS"
  have "peer_enqueue (ne_peers n ! i) ty payload = (b, p) \<Longrightarrow> peer_ok (ne_cfg n) p" for b p
    using enqueue_ok [OF net_ok_slot [OF n], of ty payload] by simp
  then show "net_ok (broadcast_peer ty payload exclude n i)"
    using n by (auto simp: broadcast_peer_def Let_def set_peer_ok shutdown_ok split: prod.split bool.split)
qed

lemma send_ok:
  assumes n: "net_ok n"
  shows "net_ok (snd (ac_net_send_to n a ty payload))"
proof (cases "route_find a 0 (ne_peers n)")
  case (Some i)
  have "route_find a k ps = Some i \<Longrightarrow> k \<le> i \<and> i < k + length ps" for k ps
    by (induction ps arbitrary: k) (fastforce split: if_splits)+
  then have "i < AC_MAX_PEERS" using Some n by (fastforce simp: net_ok_def)
  then have "peer_enqueue (ne_peers n ! i) ty payload = (b, p) \<Longrightarrow> peer_ok (ne_cfg n) p" for b p
    using enqueue_ok [OF net_ok_slot [OF n], of i ty payload] by simp
  then show ?thesis using n Some by (auto simp: ac_net_send_to_def set_peer_ok shutdown_ok split: prod.split bool.split)
qed (simp add: ac_net_send_to_def n)

lemma evict_ok: "net_ok n \<Longrightarrow> net_ok (reader_evict n i a)"
  unfolding reader_evict_def
proof (erule sweep_ok)
  fix n j assume n: "net_ok n" "j < AC_MAX_PEERS"
  then show "net_ok (evict_peer i a n j)"
    using net_ok_slot [OF n]
    by (auto simp: evict_peer_def Let_def peer_ok_def outbox_ok_def intro!: set_peer_ok shutdown_ok)
qed

lemma reap_ok: "net_ok n \<Longrightarrow> net_ok (reap_dead_peers n)"
  unfolding reap_dead_peers_def
proof (erule sweep_ok)
  fix n i assume n: "net_ok n" "i < AC_MAX_PEERS"
  then show "net_ok (reap_slot n i)"
    using net_ok_slot [OF n] exit_ok [OF net_ok_slot [OF n]]
    by (auto simp: reap_slot_def Let_def peer_ok_def outbox_ok_def intro!: set_peer_ok)
qed

lemma stop_ok: "net_ok n \<Longrightarrow> net_ok (ac_net_stop n)"
  unfolding ac_net_stop_def
proof (rule sweep_ok)
  fix n i assume n: "net_ok n" "i < AC_MAX_PEERS"
  then have "peer_ok (ne_cfg n) (ne_peers n ! i)" "peer_ok (ne_cfg n) (writer_exit (ne_peers n ! i))"
    using net_ok_slot exit_ok by blast+
  moreover have "ne_cfg (sock_shutdown n fd) = ne_cfg n" for fd by (simp add: sock_shutdown_def)
  ultimately show "net_ok (stop_slot n i)"
    using n by (auto simp: stop_slot_def Let_def intro!: set_peer_ok shutdown_ok) (auto simp: peer_ok_def outbox_ok_def)
qed (simp add: net_ok_def)

lemma remember_ok: "net_ok n \<Longrightarrow> net_ok (dedup_remember n h)"
  by (simp add: net_ok_def dedup_remember_def AC_DEDUP_CAP_def)

lemma close_ok: "peer_ok cfg p \<Longrightarrow> peer_ok cfg (peer_close_fd p)"
  by (simp add: peer_ok_def peer_close_fd_def outbox_ok_def)

lemma parsed_hello:
  assumes "parse_hello buf = Some (Some he)"
  shows "wf_addr (he_peer_id he) \<and> 0 \<notin> set (he_host he)"
proof -
  have rd: "rd_at buf k l = Some bs \<Longrightarrow> length bs = l" for k l bs by (auto simp: rd_at_def split: if_splits)
  have "0 \<notin> set (c_string bs)" for bs by (auto simp: c_string_def dest: set_takeWhileD)
  then show ?thesis
    using assms unfolding parse_hello_def Let_def
    by (auto split: if_splits Option.bind_splits dest!: rd simp: wf)
qed

lemma register_ok:
  assumes n: "net_ok n" "i < AC_MAX_PEERS" and "reader_hello n frame = Some he"
  shows "net_ok (reader_register n i he now)"
proof -
  have he: "wf_addr (he_peer_id he)" "0 \<notin> set (he_host he)" and "he_peer_id he \<noteq> kp_pk (nc_keypair (ne_cfg n))"
    using assms(3) parsed_hello n(1)
    by (auto simp: reader_hello_def memcmp_eq_iff net_ok_def wf split: option.splits if_splits prod.splits)
  then show ?thesis
    using net_ok_slot [OF n] take_host [OF he(2)] n(1)
    by (auto simp: reader_register_def Let_def intro!: set_peer_ok) (auto simp: peer_ok_def outbox_ok_def)
qed

lemma touch_ok: "peer_ok cfg p \<Longrightarrow> peer_ok cfg (p\<lparr>pe_last_seen_ms := now\<rparr>)"
  by (simp add: peer_ok_def outbox_ok_def)

lemma net_step_ok: "net_step n n' \<Longrightarrow> net_ok n \<Longrightarrow> net_ok n'"
  by (induction rule: net_step.induct)
    (simp_all add: accept_ok dial_ok evict_ok register_ok remember_ok broadcast_ok send_ok writer_ok reap_ok stop_ok
      set_peer_ok touch_ok enqueue_ok close_ok net_ok_slot)

definition net_wf_config :: "ac_net_config \<Rightarrow> bool" where
  "net_wf_config cfg \<longleftrightarrow> wf_addr (kp_pk (nc_keypair cfg))"

lemma net_new_ok: "net_wf_config cfg \<Longrightarrow> net_ok ((ac_net_new cfg)\<lparr>ne_running := True\<rparr>)"
  by (simp add: net_ok_def ac_net_new_def net_wf_config_def peer_ok_def peer_zero_def wf host_ok_def outbox_ok_def AC_DEDUP_CAP_def
      list_all_length)

lemma net_run_ok: "net_step\<^sup>*\<^sup>* n n' \<Longrightarrow> net_ok n \<Longrightarrow> net_ok n'"
  by (induction rule: rtranclp_induct) (simp_all add: net_step_ok)

lemma queued_bound:
  assumes "net_ok n"
  shows "sum_list (map (\<lambda>p. sum_list (map (length \<circ> om_payload) (pe_out p))) (ne_peers n)) \<le> AC_MAX_PEERS * AC_OUT_QUEUE_MAX_BYTES"
proof -
  have "list_all (\<lambda>p. f p \<le> b) ps \<Longrightarrow> sum_list (map f ps) \<le> length ps * b" for f b and ps :: "peer list"
    by (induction ps) auto
  moreover have "list_all (\<lambda>p. sum_list (map (length \<circ> om_payload) (pe_out p)) \<le> AC_OUT_QUEUE_MAX_BYTES) (ne_peers n)"
    using assms by (auto simp: net_ok_def list_all_iff peer_ok_def outbox_ok_def)
  ultimately show ?thesis using assms by (fastforce simp: net_ok_def)
qed

text \<open>
  Claim C13. Whatever peers send and in whatever order the threads of the transport take the lock, the table keeps
  its 64 slots, every queue stays within its limits and its counters exact, no slot in use is ever registered
  under the node's own identity, and all queues together hold at most 64 times the limit of one.
\<close>

theorem net_run_invariant:
  assumes "net_wf_config cfg" "net_step\<^sup>*\<^sup>* ((ac_net_new cfg)\<lparr>ne_running := True\<rparr>) n"
  shows "net_ok n \<and> sum_list (map (\<lambda>p. sum_list (map (length \<circ> om_payload) (pe_out p))) (ne_peers n)) \<le> AC_MAX_PEERS * AC_OUT_QUEUE_MAX_BYTES"
  using net_run_ok [OF assms(2) net_new_ok [OF assms(1)]] queued_bound by blast

theorem net_run_invariant_witness:
  "net_ok (ac_net_broadcast (listen_accept (demo_net\<lparr>ne_running := True\<rparr>) 5 (cstr ''10.0.0.2'') 40000) AC_MSG_PING [] None)"
proof -
  let ?n0 = "demo_net\<lparr>ne_running := True\<rparr>"
  let ?n1 = "listen_accept ?n0 5 (cstr ''10.0.0.2'') 40000"
  have new: "(ac_net_new (ne_cfg demo_net))\<lparr>ne_running := True\<rparr> = ?n0" by (simp add: demo_net_def ac_net_new_def)
  have "wf_addr (kp_pk (ac_keypair_from_seed demo_sodium (1 # zeros 31)))"
    using sodium_ok_keypair(1) [OF sodium_ok_demo, of "1 # zeros 31"] by (simp add: wf)
  then have cfg: "net_wf_config (ne_cfg demo_net)" by (simp add: net_wf_config_def demo_net_def ac_net_new_def)
  have "net_step ?n0 ?n1" by (rule net_step.accept) (simp add: cstr_def)
  moreover have "net_step ?n1 (ac_net_broadcast ?n1 AC_MSG_PING [] None)" by (rule net_step.broadcast)
  ultimately have "net_step\<^sup>*\<^sup>* ?n0 (ac_net_broadcast ?n1 AC_MSG_PING [] None)"
    by (rule rtranclp.rtrancl_into_rtrancl [OF r_into_rtranclp])
  from net_run_invariant [OF cfg, unfolded new, OF this] show ?thesis by (rule conjunct1)
qed

end
