(* ===== verification/Node.thy ===== *)
theory Node
  imports Consensus_Run Net_Rules
begin

text \<open>
  The daemon of \<^verbatim>\<open>node.c\<close>: the key file, the genesis file, the callbacks that connect the transport, the engine,
  the pool and the chain, and the start of a node. A file is what the operating system shows of it. The
  broadcasts an engine handler makes are handed to the transport when the handler returns; the transport
  does not call back, so this is the order in which they are sent.
\<close>

section \<open>Key file\<close>

definition KEY_MAGIC :: bytes where "KEY_MAGIC = cstr ''AGCH:KEY:v1''"
definition KEY_VERSION :: u8 where "KEY_VERSION = 1"

datatype os_file = Absent | Unreadable | Content bytes

definition key_load :: "sodium \<Rightarrow> bytes \<Rightarrow> ac_keypair option" where
  "key_load S buf =
     (let len = length KEY_MAGIC
      in if length buf < len + 1 + AC_PUBKEY_SIZE + AC_SEED_SIZE then None
         else if memcmp (take len buf) KEY_MAGIC \<noteq> 0 then None
         else if buf ! len \<noteq> KEY_VERSION then None
         else let pk = take AC_PUBKEY_SIZE (drop (len + 1) buf);
                  seed = take AC_SEED_SIZE (drop (len + 1 + AC_PUBKEY_SIZE) buf);
                  out = ac_keypair_from_seed S seed
           in if memcmp (kp_pk out) pk \<noteq> 0 then None else Some out)"

definition key_file :: "ac_keypair \<Rightarrow> bytes" where
  "key_file kp = KEY_MAGIC @ [KEY_VERSION] @ kp_pk kp @ ac_keypair_seed kp"

text \<open>\<open>rnd\<close> is what the random generator gives, \<open>wr\<close> if the file can be written. The flag tells if the key is new.\<close>

definition ac_node_keypair_load_or_create ::
  "sodium \<Rightarrow> bytes \<Rightarrow> bool \<Rightarrow> os_file \<Rightarrow> (ac_keypair \<times> bool) option \<times> os_file" where
  "ac_node_keypair_load_or_create S rnd wr f =
     (case f of
        Content buf \<Rightarrow> (map_option (\<lambda>kp. (kp, False)) (key_load S buf), f)
      | Unreadable \<Rightarrow> (None, f)
      | Absent \<Rightarrow>
        let out = ac_keypair_random S rnd
        in if wr then (Some (out, True), Content (key_file out)) else (None, f))"

section \<open>Genesis file\<close>

definition blank :: "byte \<Rightarrow> bool" where
  "blank b \<longleftrightarrow> b = 0x20 \<or> b = 0x09"

definition line_end :: "byte \<Rightarrow> bool" where
  "line_end b \<longleftrightarrow> b = 0x0a \<or> b = 0x0d \<or> blank b"

definition trim :: "bytes \<Rightarrow> bytes" where
  "trim s = rev (dropWhile line_end (rev (dropWhile blank s)))"

text \<open>\<^verbatim>\<open>fgets\<close> into a buffer of \<open>cap\<close> bytes: the line with its end, or as much of it as fits, and the rest of the file.\<close>

definition fgets :: "nat \<Rightarrow> bytes \<Rightarrow> bytes \<times> bytes" where
  "fgets cap bs =
     (let k = min (cap - 1) (Suc (length (takeWhile (\<lambda>b. b \<noteq> 0x0a) bs)))
      in (take k bs, drop k bs))"

definition after_eq :: "bytes \<Rightarrow> bytes option" where
  "after_eq s = (case dropWhile (\<lambda>b. b \<noteq> 0x3d) s of [] \<Rightarrow> None | _ # r \<Rightarrow> Some r)"

definition account_line :: "bytes \<Rightarrow> ac_genesis_account option" where
  "account_line s =
     do { (hex, r) \<leftarrow> scan_s (2 * AC_PUBKEY_SIZE) (drop 7 s);
          (bal, r) \<leftarrow> scan_u64 r;
          (stk, r) \<leftarrow> scan_u64 r;
          addr \<leftarrow> ac_hex_decode AC_PUBKEY_SIZE (Some (chars hex));
          Some \<lparr>ga_addr = addr, ga_balance = bal, ga_stake = stk\<rparr> }"

definition genesis_line :: "ac_genesis \<Rightarrow> bytes \<Rightarrow> ac_genesis option" where
  "genesis_line g s =
     (if s = [] \<or> hd s = 0x23 then Some g
      else if prefix (cstr ''chain_id'') s then map_option (\<lambda>v. g\<lparr>g_chain_id := strtoull v\<rparr>) (after_eq s)
      else if prefix (cstr ''timestamp_ms'') s then map_option (\<lambda>v. g\<lparr>g_timestamp_ms := strtoull v\<rparr>) (after_eq s)
      else if prefix (cstr ''account'') s then map_option (\<lambda>a. g\<lparr>g_accounts := g_accounts g @ [a]\<rparr>) (account_line s)
      else if prefix (cstr ''name'') s then Some g
      else None)"

function genesis_lines :: "ac_genesis \<Rightarrow> bytes \<Rightarrow> ac_genesis option" where
  "genesis_lines g bs =
     (if bs = [] then Some g
      else let (line, rest) = fgets 512 bs
        in case genesis_line g (trim (c_string line)) of
             None \<Rightarrow> None
           | Some g \<Rightarrow> genesis_lines g rest)"
  by auto
termination
  by (relation "measure (length \<circ> snd)") (auto simp: fgets_def Let_def min_def split: if_splits)

declare genesis_lines.simps [simp del]

definition ac_node_load_genesis :: "os_file \<Rightarrow> ac_genesis option" where
  "ac_node_load_genesis f =
     (case f of
        Content bs \<Rightarrow>
          (case genesis_lines \<lparr>g_chain_id = 0, g_timestamp_ms = 0, g_accounts = []\<rparr> bs of
             None \<Rightarrow> None
           | Some g \<Rightarrow> if g_chain_id g = 0 \<or> g_timestamp_ms g = 0 then None else Some g)
      | _ \<Rightarrow> None)"

section \<open>Callbacks\<close>

definition consensus_broadcast_cb :: "ac_net \<Rightarrow> u8 \<times> bytes \<Rightarrow> ac_net" where
  "consensus_broadcast_cb n m = ac_net_broadcast n (fst m) (snd m) None"

definition rpc_broadcast_tx_cb :: "ac_net \<Rightarrow> bytes \<Rightarrow> ac_net" where
  "rpc_broadcast_tx_cb n bs = ac_net_broadcast n AC_MSG_TX_ANN bs None"

definition deliver :: "ac_consensus \<times> ac_net \<Rightarrow> ac_consensus \<times> ac_net" where
  "deliver w = (case w of (cs, n) \<Rightarrow> (cs\<lparr>co_out := []\<rparr>, foldl consensus_broadcast_cb n (co_out cs)))"

definition on_block_ann_cb :: "sodium \<Rightarrow> rounding \<Rightarrow> ac_io \<Rightarrow> bytes \<Rightarrow> ac_consensus \<times> ac_net \<Rightarrow> ac_consensus \<times> ac_net" where
  "on_block_ann_cb S ld io payload w = deliver (ac_consensus_handle_block S ld io (fst w) payload, snd w)"

definition on_commit_vote_cb :: "sodium \<Rightarrow> rounding \<Rightarrow> ac_io \<Rightarrow> bytes \<Rightarrow> ac_consensus \<times> ac_net \<Rightarrow> ac_consensus \<times> ac_net" where
  "on_commit_vote_cb S ld io payload w = deliver (ac_consensus_handle_vote S ld io (fst w) payload, snd w)"

definition on_tx_ann_cb :: "sodium \<Rightarrow> ac_io \<Rightarrow> bytes \<Rightarrow> ac_consensus \<times> ac_net \<Rightarrow> ac_consensus \<times> ac_net" where
  "on_tx_ann_cb S io payload w =
     (case ac_tx_decode payload of
        None \<Rightarrow> w
      | Some tx \<Rightarrow>
        let cs = fst w; slot = ac_chain_current_slot (co_chain cs) (io_now_ms io)
        in (cs\<lparr>co_mempool := snd (ac_mempool_add S (co_mempool cs) (ch_state (co_chain cs)) tx slot)\<rparr>, snd w))"

text \<open>How many blocks a request is answered with.\<close>

definition served_count :: "u64 \<Rightarrow> u64 \<Rightarrow> u32 \<Rightarrow> u32" where
  "served_count height from_height cnt =
     (if cnt = 0 then 0
      else let cnt = (if cnt > 256 then 256 else cnt)
        in if from_height > height then 0
           else if from_height + ucast cnt > height + 1 then ucast (height + 1 - from_height) else cnt)"

definition serve_block :: "ac_chain \<Rightarrow> u64 \<Rightarrow> ac_addr \<Rightarrow> ac_net \<Rightarrow> nat \<Rightarrow> ac_net" where
  "serve_block c from_height peer_id n i =
     (case ac_chain_get_block_by_height c (from_height + of_nat i) of
        None \<Rightarrow> n
      | Some b \<Rightarrow>
        (case ac_block_encode b of
           None \<Rightarrow> n
         | Some enc \<Rightarrow> snd (ac_net_send_to n peer_id AC_MSG_BLOCK_RES enc)))"

definition on_headers_req_cb :: "u64 \<Rightarrow> u32 \<Rightarrow> ac_addr \<Rightarrow> ac_consensus \<times> ac_net \<Rightarrow> ac_consensus \<times> ac_net" where
  "on_headers_req_cb from_height cnt peer_id w =
     (let c = co_chain (fst w)
      in (fst w, foldl (serve_block c from_height peer_id) (snd w) [0..<unat (served_count (ch_height c) from_height cnt)]))"

definition on_block_req_cb :: "u64 \<Rightarrow> ac_addr \<Rightarrow> ac_consensus \<times> ac_net \<Rightarrow> ac_consensus \<times> ac_net" where
  "on_block_req_cb height peer_id w = on_headers_req_cb height 1 peer_id w"

definition node_cb :: "sodium \<Rightarrow> rounding \<Rightarrow> ac_io \<Rightarrow> net_call \<Rightarrow> ac_consensus \<times> ac_net \<Rightarrow> ac_consensus \<times> ac_net" where
  "node_cb S ld io call =
     (case call of
        On_block_ann payload \<Rightarrow> on_block_ann_cb S ld io payload
      | On_tx_ann payload \<Rightarrow> on_tx_ann_cb S io payload
      | On_commit_vote payload \<Rightarrow> on_commit_vote_cb S ld io payload
      | On_headers_req from_height cnt peer_id \<Rightarrow> on_headers_req_cb from_height cnt peer_id
      | On_block_req height peer_id \<Rightarrow> on_block_req_cb height peer_id)"

section \<open>Start\<close>

record ac_node_config =
  nf_data_dir :: bytes
  nf_genesis_path :: bytes
  nf_listen_host :: bytes
  nf_listen_port :: u16
  nf_rpc_host :: bytes
  nf_rpc_port :: u16
  nf_external_host :: bytes
  nf_seed_peers :: "bytes list"
  nf_validator :: bool

definition net_config :: "ac_node_config \<Rightarrow> u64 \<Rightarrow> ac_keypair \<Rightarrow> ac_net_config" where
  "net_config cfg chain_id kp =
     \<lparr>nc_listen_port = nf_listen_port cfg,
      nc_listen_host = snprintf 64 (if nf_listen_host cfg \<noteq> [] then nf_listen_host cfg else cstr ''0.0.0.0''),
      nc_external_host = snprintf 128 (nf_external_host cfg), nc_chain_id = chain_id, nc_keypair = kp,
      nc_seed_peers = nf_seed_peers cfg, nc_target_outbound = 8\<rparr>"

text \<open>
  The data directory is the key file, the genesis file and the chain's blocks, state and meta file. \<open>up\<close> tells if
  the listeners of the transport and of the RPC server come up.
\<close>

definition ac_node_start ::
  "sodium \<Rightarrow> ac_io \<Rightarrow> bytes \<Rightarrow> bool \<Rightarrow> bool \<Rightarrow> ac_node_config \<Rightarrow> os_file \<Rightarrow> os_file \<Rightarrow> (u64 \<rightharpoonup> bytes) \<Rightarrow> bytes option \<Rightarrow> bytes option \<Rightarrow>
   (ac_consensus \<times> ac_net) option" where
  "ac_node_start S io rnd wr up cfg keyf genf blocks st mt =
     (case fst (ac_node_keypair_load_or_create S rnd wr keyf) of
        None \<Rightarrow> None
      | Some (kp, created) \<Rightarrow>
        let gen = (if nf_genesis_path cfg \<noteq> [] then ac_node_load_genesis genf else None)
        in case ac_chain_open S io blocks st mt gen of
             None \<Rightarrow> None
           | Some c \<Rightarrow>
             let cs = ac_consensus_new \<lparr>cf_chain = c, cf_mempool = ac_mempool_new (ch_chain_id c), cf_keypair = kp,
                        cf_broadcast = True, cf_validator = nf_validator cfg\<rparr>;
                 n = ac_net_new (net_config cfg (ch_chain_id c) kp)
             in if up then Some (cs, n\<lparr>ne_running := True\<rparr>) else None)"

end
