(* ===== verification/Rpc.thy ===== *)
theory Rpc
  imports Ledger Net
begin

text \<open>
  The JSON-RPC server of \<^verbatim>\<open>rpc.c\<close>: reading an HTTP request, finding the method, its id and its parameters, the
  twelve methods, and the text of every answer. The struct \<^verbatim>\<open>ac_rpc_s\<close> is the record \<open>ac_rpc\<close>; the chain, the
  pool and the transport it points to are fields; what the broadcast callback was called with is appended to
  \<open>rp_out\<close>. A handler gives back the server and the bytes of the answer. Allocation does not fail.
\<close>

section \<open>Reading JSON\<close>

definition quoted :: "bytes \<Rightarrow> bytes" where
  "quoted s = [0x22] @ s @ [0x22]"

definition json_sep :: "byte \<Rightarrow> bool" where
  "json_sep b \<longleftrightarrow> b = 0x20 \<or> b = 0x09 \<or> b = 0x3a"

text \<open>The text after a key and the separators that follow it.\<close>

definition json_key :: "bytes \<Rightarrow> bytes \<Rightarrow> bytes option" where
  "json_key body name =
     (let pattern = snprintf 64 (quoted name)
      in map_option (\<lambda>p. dropWhile json_sep (drop (length pattern) p)) (strstr pattern body))"

definition json_string :: "bytes \<Rightarrow> bytes \<Rightarrow> nat \<Rightarrow> bytes option" where
  "json_string body name cap =
     (case json_key body name of
        None \<Rightarrow> None
      | Some p \<Rightarrow>
        if p = [] \<or> hd p \<noteq> 0x22 then None
        else let p = tl p; out = take (cap - 1) (takeWhile (\<lambda>b. b \<noteq> 0x22) p); p = drop (length out) p
          in if p \<noteq> [] \<and> hd p = 0x22 then Some out else None)"

definition json_uint64 :: "bytes \<Rightarrow> bytes \<Rightarrow> u64 option" where
  "json_uint64 body name =
     (case json_key body name of
        None \<Rightarrow> None
      | Some p \<Rightarrow> if p = [] \<or> \<not> is_digit (hd p) then None else Some (strtoull p))"

section \<open>Answers\<close>

definition crlf :: bytes where "crlf = [0x0d, 0x0a]"

definition dec :: "'a::len word \<Rightarrow> bytes" where
  "dec x = decimal (unat x)"

definition hexb :: "bytes \<Rightarrow> bytes" where
  "hexb bs = cstr (ac_hex_encode bs)"

definition send_response :: "nat \<Rightarrow> bytes \<Rightarrow> bytes" where
  \<open>send_response status body =
     cstr ''HTTP/1.1 '' @ decimal status @ [0x20] @ (if status = 200 then cstr ''OK'' else cstr ''Error'') @ crlf @
     cstr ''Server: AgentChain-Engine'' @ crlf @ cstr ''Content-Type: application/json'' @ crlf @
     cstr ''Content-Length: '' @ decimal (length body) @ crlf @ cstr ''Connection: close'' @ crlf @ crlf @ body\<close>

definition rpc_result :: "bytes \<Rightarrow> bytes \<Rightarrow> bytes" where
  \<open>rpc_result id_value result_json =
     snprintf (length result_json + 128)
       (cstr ''{"jsonrpc":"2.0","id":'' @ (if id_value \<noteq> [] then id_value else cstr ''null'') @
        cstr '',"result":'' @ result_json @ cstr ''}'')\<close>

definition send_rpc_result :: "bytes \<Rightarrow> bytes \<Rightarrow> bytes" where
  "send_rpc_result id_value result_json = send_response 200 (rpc_result id_value result_json)"

definition send_rpc_error :: "bytes \<Rightarrow> nat \<Rightarrow> string \<Rightarrow> bytes" where
  \<comment> \<open>every code is negative; the argument is its absolute value\<close>
  \<open>send_rpc_error id_value code msg = send_response 200 (snprintf 1024
     (cstr ''{"jsonrpc":"2.0","id":'' @ (if id_value \<noteq> [] then id_value else cstr ''null'') @
      cstr '',"error":{"code":-'' @ decimal code @ cstr '',"message":"'' @ cstr msg @ cstr ''"}}''))\<close>

section \<open>State of the server\<close>

record ac_rpc =
  rp_chain :: ac_chain
  rp_mempool :: ac_mempool
  rp_net :: "ac_net option"
  rp_broadcast :: bool
  rp_out :: "bytes list"

section \<open>Methods\<close>

definition chain_info_json :: "ac_chain \<Rightarrow> bytes" where
  \<open>chain_info_json c = snprintf 512
     (cstr ''{"chain_id":'' @ dec (ch_chain_id c) @ cstr '',"height":'' @ dec (ch_height c) @
      cstr '',"tip_hash":"'' @ hexb (ch_tip_hash c) @ cstr ''","base_fee":'' @ dec (ch_base_fee c) @
      cstr '',"genesis_timestamp_ms":'' @ dec (ch_genesis_timestamp_ms c) @ cstr ''}'')\<close>

definition handle_chain_info :: "ac_rpc \<Rightarrow> bytes \<Rightarrow> ac_rpc \<times> bytes" where
  "handle_chain_info r idv = (r, send_rpc_result idv (chain_info_json (rp_chain r)))"

definition account_json :: "ac_account \<Rightarrow> bytes" where
  \<open>account_json acc = snprintf 256
     (cstr ''{"balance":'' @ dec (acc_balance acc) @ cstr '',"nonce":'' @ dec (acc_nonce acc) @
      cstr '',"stake":'' @ dec (acc_stake acc) @ cstr '',"unbond_at":'' @ dec (acc_unbond_at acc) @ cstr ''}'')\<close>

definition handle_account_get :: "ac_rpc \<Rightarrow> bytes \<Rightarrow> bytes \<Rightarrow> ac_rpc \<times> bytes" where
  "handle_account_get r idv params =
     (case json_string params (cstr ''address'') 256 of
        None \<Rightarrow> (r, send_rpc_error idv 32602 ''missing address'')
      | Some addr_hex \<Rightarrow>
        (case ac_hex_decode AC_PUBKEY_SIZE (Some (chars addr_hex)) of
           None \<Rightarrow> (r, send_rpc_error idv 32602 ''bad address hex'')
         | Some a \<Rightarrow> (r, send_rpc_result idv (account_json (snd (ac_state_get (ch_state (rp_chain r)) a))))))"

definition handle_name_lookup :: "ac_rpc \<Rightarrow> bytes \<Rightarrow> bytes \<Rightarrow> ac_rpc \<times> bytes" where
  \<open>handle_name_lookup r idv params =
     (case json_string params (cstr ''name'') 64 of
        None \<Rightarrow> (r, send_rpc_error idv 32602 ''missing name'')
      | Some name \<Rightarrow>
        (case ac_state_name_lookup (ch_state (rp_chain r)) name (length name) of
           None \<Rightarrow> (r, send_rpc_result idv (cstr ''null''))
         | Some a \<Rightarrow> (r, send_rpc_result idv (snprintf 128 (cstr ''{"address":"'' @ hexb a @ cstr ''"}'')))))\<close>

definition handle_tx_submit :: "sodium \<Rightarrow> ac_io \<Rightarrow> ac_rpc \<Rightarrow> bytes \<Rightarrow> bytes \<Rightarrow> ac_rpc \<times> bytes" where
  \<open>handle_tx_submit S io r idv params =
     (case json_string params (cstr ''tx_hex'') 4096 of
        None \<Rightarrow> (r, send_rpc_error idv 32602 ''missing tx_hex'')
      | Some hex \<Rightarrow>
        let bin_len = length hex div 2
        in if bin_len > AC_TX_MAX_BYTES then (r, send_rpc_error idv 32602 ''tx too large'')
           else case ac_hex_decode bin_len (Some (chars hex)) of
               None \<Rightarrow> (r, send_rpc_error idv 32602 ''bad hex'')
             | Some bin \<Rightarrow>
               (case ac_tx_decode bin of
                  None \<Rightarrow> (r, send_rpc_error idv 32602 ''tx decode failed'')
                | Some tx \<Rightarrow>
                  let slot = ac_chain_current_slot (rp_chain r) (io_now_ms io);
                      (rs, mp) = ac_mempool_add S (rp_mempool r) (ch_state (rp_chain r)) tx slot;
                      r = r\<lparr>rp_mempool := mp\<rparr>
                  in if rs \<noteq> AC_MP_ACCEPTED then (r, send_rpc_error idv 32000 (ac_mp_result_str rs))
                     else (r\<lparr>rp_out := rp_out r @ (if rp_broadcast r then [bin] else [])\<rparr>,
                           send_rpc_result idv (snprintf 128 (cstr ''{"hash":"'' @ hexb (ac_tx_hash S tx) @ cstr ''"}'')))))\<close>

definition handle_mempool_size :: "ac_rpc \<Rightarrow> bytes \<Rightarrow> ac_rpc \<times> bytes" where
  \<open>handle_mempool_size r idv =
     (r, send_rpc_result idv (snprintf 32 (cstr ''{"size":'' @ decimal (ac_mempool_size (rp_mempool r)) @ cstr ''}'')))\<close>

definition header_json :: "ac_block_header \<Rightarrow> bytes" where
  \<open>header_json h = snprintf 1024
     (cstr ''{"height":'' @ dec (h_height h) @ cstr '',"slot":'' @ dec (h_slot h) @
      cstr '',"timestamp_ms":'' @ dec (h_timestamp_ms h) @ cstr '',"parent_hash":"'' @ hexb (h_parent_hash h) @
      cstr ''","state_root":"'' @ hexb (h_state_root h) @ cstr ''","tx_root":"'' @ hexb (h_tx_root h) @
      cstr ''","proposer":"'' @ hexb (h_proposer h) @ cstr ''","base_fee":'' @ dec (h_base_fee h) @
      cstr '',"gas_used":'' @ dec (h_gas_used h) @ cstr '',"gas_limit":'' @ dec (h_gas_limit h) @
      cstr '',"tx_count":'' @ dec (h_tx_count h) @ cstr ''}'')\<close>

definition handle_block_get :: "ac_rpc \<Rightarrow> bytes \<Rightarrow> bytes \<Rightarrow> ac_rpc \<times> bytes" where
  "handle_block_get r idv params =
     (case json_uint64 params (cstr ''height'') of
        None \<Rightarrow> (r, send_rpc_error idv 32602 ''missing height'')
      | Some h \<Rightarrow>
        (case ac_chain_get_header_by_height (rp_chain r) h of
           None \<Rightarrow> (r, send_rpc_error idv 32004 ''block not found'')
         | Some hdr \<Rightarrow> (r, send_rpc_result idv (header_json hdr))))"

definition tx_json :: "bytes \<Rightarrow> u64 \<Rightarrow> u32 \<Rightarrow> ac_block_header \<Rightarrow> ac_tx \<Rightarrow> bytes" where
  \<open>tx_json hex height idx h t =
     snprintf (unat (tx_body_len t) * 2 + unat (tx_memo_len t) * 2 + 1024)
       (cstr ''{"hash":"'' @ hex @ cstr ''","height":'' @ dec height @ cstr '',"slot":'' @ dec (h_slot h) @
        cstr '',"tx_index":'' @ dec idx @ cstr '',"timestamp_ms":'' @ dec (h_timestamp_ms h) @
        cstr '',"version":'' @ dec (tx_version t) @ cstr '',"chain_id":'' @ dec (tx_chain_id t) @
        cstr '',"kind":'' @ dec (tx_kind t) @ cstr '',"sender":"'' @ hexb (tx_sender t) @
        cstr ''","nonce":'' @ dec (tx_nonce t) @ cstr '',"gas_limit":'' @ dec (tx_gas_limit t) @
        cstr '',"tip":'' @ dec (tx_tip t) @ cstr '',"valid_until":'' @ dec (tx_valid_until t) @
        cstr '',"body_hex":"'' @ hexb (take (unat (tx_body_len t)) (tx_body t)) @
        cstr ''","memo_hex":"'' @ hexb (take (unat (tx_memo_len t)) (tx_memo t)) @ cstr ''"}'')\<close>

definition handle_tx_get :: "ac_rpc \<Rightarrow> bytes \<Rightarrow> bytes \<Rightarrow> ac_rpc \<times> bytes" where
  "handle_tx_get r idv params =
     (case json_string params (cstr ''hash'') (2 * AC_HASH_SIZE + 1) of
        None \<Rightarrow> (r, send_rpc_error idv 32602 ''missing hash'')
      | Some hex \<Rightarrow>
        (case ac_hex_decode AC_HASH_SIZE (Some (chars hex)) of
           None \<Rightarrow> (r, send_rpc_error idv 32602 ''bad hex'')
         | Some th \<Rightarrow>
           (case ac_chain_tx_find (rp_chain r) th of
              (found, c) \<Rightarrow>
              let r = r\<lparr>rp_chain := c\<rparr>
              in case found of
                   None \<Rightarrow> (r, send_rpc_error idv 32004 ''tx not found'')
                 | Some (height, idx) \<Rightarrow>
                   (case ac_chain_get_block_by_height c height of
                      None \<Rightarrow> (r, send_rpc_error idv 32004 ''block missing'')
                    | Some b \<Rightarrow>
                      if unat idx \<ge> length (b_txs b) then (r, send_rpc_error idv 32004 ''tx index out of range'')
                      else (r, send_rpc_result idv (tx_json hex height idx (b_header b) (b_txs b ! unat idx)))))))"

section \<open>Lists\<close>

text \<open>
  A list is printed piece by piece into a buffer of \<open>need\<close> bytes. The state is the text in the buffer and the sum of
  what \<^verbatim>\<open>snprintf\<close> returned, which counts what would have been printed. The loop stops when less than
  \<open>room\<close> bytes are left. An element that is skipped still counts for the comma of the next.
\<close>

definition bprintf :: "nat \<Rightarrow> bytes \<Rightarrow> bytes \<times> nat \<Rightarrow> bytes \<times> nat" where
  "bprintf need s b = (case b of (out, pos) \<Rightarrow> (out @ snprintf (need - pos) s, pos + length s))"

fun list_loop :: "nat \<Rightarrow> nat \<Rightarrow> nat \<Rightarrow> bytes option list \<Rightarrow> bytes \<times> nat \<Rightarrow> bytes \<times> nat" where
  "list_loop need room i [] b = b"
| "list_loop need room i (e # es) b =
     (if snd b > 0 \<and> snd b + room < need then
        list_loop need room (Suc i) es
          (case e of None \<Rightarrow> b | Some t \<Rightarrow> bprintf need ((if i \<noteq> 0 then cstr '','' else []) @ t) b)
      else b)"

definition list_json :: "nat \<Rightarrow> nat \<Rightarrow> bytes \<Rightarrow> bytes option list \<Rightarrow> bytes" where
  "list_json need room start es =
     (let b = list_loop need room 0 es (bprintf need start ([], 0))
      in if snd b > 0 \<and> snd b + 2 < need then fst (bprintf need (cstr '']}'') b) else fst b)"

definition block_start_json :: "sodium \<Rightarrow> ac_block_header \<Rightarrow> bytes" where
  \<open>block_start_json S h =
     cstr ''{"height":'' @ dec (h_height h) @ cstr '',"hash":"'' @ hexb (ac_block_hash S h) @
     cstr ''","slot":'' @ dec (h_slot h) @ cstr '',"timestamp_ms":'' @ dec (h_timestamp_ms h) @
     cstr '',"parent_hash":"'' @ hexb (h_parent_hash h) @ cstr ''","state_root":"'' @ hexb (h_state_root h) @
     cstr ''","tx_root":"'' @ hexb (h_tx_root h) @ cstr ''","proposer":"'' @ hexb (h_proposer h) @
     cstr ''","base_fee":'' @ dec (h_base_fee h) @ cstr '',"gas_used":'' @ dec (h_gas_used h) @
     cstr '',"gas_limit":'' @ dec (h_gas_limit h) @ cstr '',"tx_count":'' @ dec (h_tx_count h) @
     cstr '',"tx_hashes":[''\<close>

definition handle_block_get_full :: "sodium \<Rightarrow> ac_rpc \<Rightarrow> bytes \<Rightarrow> bytes \<Rightarrow> ac_rpc \<times> bytes" where
  "handle_block_get_full S r idv params =
     (case json_uint64 params (cstr ''height'') of
        None \<Rightarrow> (r, send_rpc_error idv 32602 ''missing height'')
      | Some h \<Rightarrow>
        (case ac_chain_get_block_by_height (rp_chain r) h of
           None \<Rightarrow> (r, send_rpc_error idv 32004 ''block not found'')
         | Some b \<Rightarrow>
           (r, send_rpc_result idv (list_json (1024 + length (b_txs b) * (2 * AC_HASH_SIZE + 4)) 80
              (block_start_json S (b_header b)) (map (\<lambda>t. Some (quoted (hexb (ac_tx_hash S t)))) (b_txs b))))))"

definition list_limit :: "bytes \<Rightarrow> nat" where
  "list_limit params =
     (let limit_u = (case json_uint64 params (cstr ''limit'') of None \<Rightarrow> 0 | Some v \<Rightarrow> v);
          limit_u = (if limit_u = 0 then 100 else limit_u)
      in unat (if limit_u > 1000 then 1000 else limit_u))"

definition validator_json :: "ac_account \<Rightarrow> bytes" where
  \<open>validator_json a =
     cstr ''{"address":"'' @ hexb (acc_addr a) @ cstr ''","stake":'' @ dec (acc_stake a) @
     cstr '',"balance":'' @ dec (acc_balance a) @ cstr '',"nonce":'' @ dec (acc_nonce a) @ cstr ''}''\<close>

definition handle_validators_list :: "ac_rpc \<Rightarrow> bytes \<Rightarrow> bytes \<Rightarrow> ac_rpc \<times> bytes" where
  \<open>handle_validators_list r idv params =
     (let c = rp_chain r; arr = ac_chain_top_validators c (list_limit params)
      in (r, send_rpc_result idv (list_json (256 + length arr * 200) 200
           (cstr ''{"total_active":'' @ decimal (ac_chain_active_count c) @ cstr '',"total_sqrt_stake":'' @
            dec (ac_chain_total_sqrt_stake c) @ cstr '',"validators":['') (map (Some \<circ> validator_json) arr))))\<close>

definition top_json :: "ac_account \<Rightarrow> bytes" where
  \<open>top_json a =
     cstr ''{"address":"'' @ hexb (acc_addr a) @ cstr ''","balance":'' @ dec (acc_balance a) @
     cstr '',"stake":'' @ dec (acc_stake a) @ cstr '',"nonce":'' @ dec (acc_nonce a) @ cstr ''}''\<close>

definition handle_accounts_top :: "ac_rpc \<Rightarrow> bytes \<Rightarrow> bytes \<Rightarrow> ac_rpc \<times> bytes" where
  \<open>handle_accounts_top r idv params =
     (let c = rp_chain r; arr = ac_chain_top_accounts_by_balance c (list_limit params)
      in (r, send_rpc_result idv (list_json (256 + length arr * 220) 220
           (cstr ''{"total_accounts":'' @ decimal (ac_state_count (ch_state c)) @ cstr '',"accounts":['')
           (map (Some \<circ> top_json) arr))))\<close>

definition addr_tx_json :: "sodium \<Rightarrow> ac_chain \<Rightarrow> ac_addr_tx_entry \<Rightarrow> bytes option" where
  \<open>addr_tx_json S c e =
     (case ac_chain_get_block_by_height c (ae_height e) of
        None \<Rightarrow> None
      | Some b \<Rightarrow>
        if unat (ae_tx_idx e) \<ge> length (b_txs b) then None
        else let t = b_txs b ! unat (ae_tx_idx e)
          in Some (cstr ''{"hash":"'' @ hexb (ac_tx_hash S t) @ cstr ''","height":'' @ dec (ae_height e) @
               cstr '',"tx_index":'' @ dec (ae_tx_idx e) @ cstr '',"role":'' @ dec (ae_role e) @
               cstr '',"timestamp_ms":'' @ dec (h_timestamp_ms (b_header b)) @ cstr '',"kind":'' @ dec (tx_kind t) @
               cstr '',"sender":"'' @ hexb (tx_sender t) @ cstr ''","nonce":'' @ dec (tx_nonce t) @ cstr ''}''))\<close>

definition handle_address_txs :: "sodium \<Rightarrow> ac_rpc \<Rightarrow> bytes \<Rightarrow> bytes \<Rightarrow> ac_rpc \<times> bytes" where
  \<open>handle_address_txs S r idv params =
     (case json_string params (cstr ''address'') 256 of
        None \<Rightarrow> (r, send_rpc_error idv 32602 ''missing address'')
      | Some addr_hex \<Rightarrow>
        (case ac_hex_decode AC_PUBKEY_SIZE (Some (chars addr_hex)) of
           None \<Rightarrow> (r, send_rpc_error idv 32602 ''bad address hex'')
         | Some a \<Rightarrow>
           (case ac_chain_addr_txs (rp_chain r) a (list_limit params) of
              (entries, c) \<Rightarrow>
                (r\<lparr>rp_chain := c\<rparr>, send_rpc_result idv (list_json (256 + length entries * 320) 320
                   (cstr ''{"count":'' @ decimal (length entries) @ cstr '',"txs":['') (map (addr_tx_json S c) entries))))))\<close>

section \<open>Peers\<close>

record peer_acc =
  pa_out :: bytes
  pa_pos :: nat
  pa_count :: nat

definition peer_json :: "ac_addr \<Rightarrow> bytes \<Rightarrow> u16 \<Rightarrow> bool \<Rightarrow> bytes" where
  \<open>peer_json idv host port inbound =
     cstr ''{"pubkey":"'' @ hexb idv @ cstr ''","host":"'' @ host @ cstr ''","port":'' @ dec port @
     cstr '',"inbound":'' @ (if inbound then cstr ''true'' else cstr ''false'') @ cstr ''}''\<close>

definition peer_acc_cb :: "nat \<Rightarrow> ac_addr \<Rightarrow> bytes \<Rightarrow> u16 \<Rightarrow> bool \<Rightarrow> peer_acc \<Rightarrow> bool \<times> peer_acc" where
  "peer_acc_cb cap idv host port inbound a =
     (if pa_pos a + 250 \<ge> cap then (True, a)
      else let (out, pos) = bprintf cap ((if pa_count a \<noteq> 0 then cstr '','' else []) @ peer_json idv host port inbound) (pa_out a, pa_pos a)
        in (False, \<lparr>pa_out = out, pa_pos = pos, pa_count = pa_count a + 1\<rparr>))"

definition handle_peers_list :: "ac_rpc \<Rightarrow> bytes \<Rightarrow> ac_rpc \<times> bytes" where
  \<open>handle_peers_list r idv =
     (case rp_net r of
        None \<Rightarrow> (r, send_rpc_result idv (cstr ''{"connected":0,"node":null,"peers":[]}''))
      | Some n \<Rightarrow>
        let (self_id, self_host, self_port) = ac_net_self_info n 128;
            (out, pos) = bprintf 8192 (cstr ''{"connected":'' @ decimal (ac_net_peer_count n) @ cstr '',"node":{"pubkey":"'' @
              hexb self_id @ cstr ''","host":"'' @ self_host @ cstr ''","port":'' @ dec self_port @
              cstr '',"self":true},"peers":['') ([], 0);
            a = ac_net_each_peer n (peer_acc_cb 8192) \<lparr>pa_out = out, pa_pos = pos, pa_count = 0\<rparr>
        in (r, send_rpc_result idv
             (if pa_pos a + 2 < 8192 then fst (bprintf 8192 (cstr '']}'') (pa_out a, pa_pos a)) else pa_out a)))\<close>

section \<open>Requests\<close>

definition REQ_BUF :: nat where "REQ_BUF = 65536"

text \<open>Reading up to the end of the header: the bytes so far and the position after the empty line.\<close>

fun read_head :: "recv_event list \<Rightarrow> bytes \<Rightarrow> bytes \<times> nat option \<times> recv_event list" where
  "read_head [] buf = (buf, None, [])"
| "read_head (e # es) buf =
     (if length buf \<ge> REQ_BUF - 1 then (buf, None, e # es)
      else case e of
          Chunk b \<Rightarrow>
            if b = [] then (buf, None, es)
            else let room = REQ_BUF - 1 - length buf; buf = buf @ take room b; text = c_string buf
              in (case strstr (crlf @ crlf) text of
                    Some p \<Rightarrow> (buf, Some (length text - length p + 4), (if length b > room then Chunk (drop room b) # es else es))
                  | None \<Rightarrow> if length b > room then (buf, None, Chunk (drop room b) # es) else read_head es buf)
        | _ \<Rightarrow> (buf, None, es))"

definition tolower :: "byte \<Rightarrow> byte" where
  "tolower b = (if 0x41 \<le> b \<and> b \<le> 0x5a then b + 0x20 else b)"

definition NEEDLE :: bytes where "NEEDLE = cstr ''content-length:''"

function content_length :: "bytes \<Rightarrow> u64" where
  "content_length p =
     (case strstr crlf p of
        None \<Rightarrow> 0
      | Some eol \<Rightarrow>
        let llen = length p - length eol
        in if llen \<ge> length NEEDLE \<and> llen < 64 \<and> map tolower (take (length NEEDLE) p) = NEEDLE
           then strtoull (drop (length NEEDLE) p)
           else content_length (drop 2 eol))"
  by auto
termination
proof (relation "measure length")
  show "(drop 2 eol, p) \<in> measure length" if "strstr crlf p = Some eol" for p eol
    using strstr_suffix [OF that] suffix_length_le [of eol p] prefix_length_le [of crlf eol] by (auto simp: crlf_def)
qed simp

declare content_length.simps [simp del]

fun read_body :: "nat \<Rightarrow> recv_event list \<Rightarrow> bytes \<Rightarrow> bytes" where
  "read_body target [] buf = buf"
| "read_body target (e # es) buf =
     (if length buf < target \<and> length buf < REQ_BUF - 1 then
        (case e of
           Chunk b \<Rightarrow> if b = [] then buf else read_body target es (buf @ take (REQ_BUF - 1 - length buf) b)
         | _ \<Rightarrow> buf)
      else buf)"

definition id_literal :: "bytes \<Rightarrow> bytes" where
  "id_literal body =
     (case strstr (quoted (cstr ''id'')) body of
        None \<Rightarrow> cstr ''null''
      | Some idp \<Rightarrow>
        let idp = dropWhile json_sep (drop 4 idp);
            lit = take 31 (takeWhile (\<lambda>b. b \<noteq> 0x2c \<and> b \<noteq> 0x7d) idp)
        in rev (dropWhile (\<lambda>b. b = 0x20 \<or> b = 0x09) (rev lit)))"

definition rpc_method :: "sodium \<Rightarrow> ac_io \<Rightarrow> ac_rpc \<Rightarrow> bytes \<Rightarrow> bytes \<Rightarrow> bytes \<Rightarrow> ac_rpc \<times> bytes" where
  "rpc_method S io r m idv params =
     (if m = cstr ''chain_info'' then handle_chain_info r idv
      else if m = cstr ''account_get'' then handle_account_get r idv params
      else if m = cstr ''name_lookup'' then handle_name_lookup r idv params
      else if m = cstr ''tx_submit'' then handle_tx_submit S io r idv params
      else if m = cstr ''mempool_size'' then handle_mempool_size r idv
      else if m = cstr ''block_get'' then handle_block_get r idv params
      else if m = cstr ''block_get_full'' then handle_block_get_full S r idv params
      else if m = cstr ''tx_get'' then handle_tx_get r idv params
      else if m = cstr ''validators_list'' then handle_validators_list r idv params
      else if m = cstr ''accounts_top'' then handle_accounts_top r idv params
      else if m = cstr ''peers_list'' then handle_peers_list r idv
      else if m = cstr ''address_txs'' then handle_address_txs S r idv params
      else (r, send_rpc_error idv 32601 ''method not found''))"

definition rpc_body :: "sodium \<Rightarrow> ac_io \<Rightarrow> ac_rpc \<Rightarrow> bytes \<Rightarrow> ac_rpc \<times> bytes" where
  "rpc_body S io r body =
     (case json_string body (cstr ''method'') 64 of
        None \<Rightarrow> (r, send_rpc_error (cstr ''null'') 32600 ''missing method'')
      | Some m \<Rightarrow>
        let params = (case strstr (quoted (cstr ''params'')) body of None \<Rightarrow> body | Some p \<Rightarrow> p)
        in rpc_method S io r m (id_literal body) params)"

text \<open>The sum of the header's end and the announced length is a \<^verbatim>\<open>size_t\<close>.\<close>

definition handle_client :: "sodium \<Rightarrow> ac_io \<Rightarrow> ac_rpc \<Rightarrow> recv_event list \<Rightarrow> ac_rpc \<times> bytes" where
  \<open>handle_client S io r es =
     (case read_head es [] of
        (buf, None, es) \<Rightarrow> (r, send_response 400 (cstr ''{"error":"bad request"}''))
      | (buf, Some header_end, es) \<Rightarrow>
        let buf = read_body (unat (of_nat header_end + content_length (c_string buf))) es buf
        in if \<not> prefix (cstr ''POST'') (c_string buf) then (r, send_response 405 (cstr ''{"error":"method not allowed"}''))
           else rpc_body S io r (c_string (drop header_end buf)))\<close>

end
