(* ===== verification/Cli.thy ===== *)
theory Cli
  imports Node Rpc
begin

text \<open>
  The command line of \<^verbatim>\<open>main.c\<close>: options, the RPC client, the wallet commands that sign and submit transactions, the
  genesis writer, and the configuration of a node. \<open>argv\<close> is the argument vector of a command, its name first. The
  network is a parameter: what a server answers to a request. Usage texts are left out.
\<close>

section \<open>Options and paths\<close>

fun opt_scan :: "bytes list \<Rightarrow> bytes \<Rightarrow> bytes option" where
  "opt_scan (a # b # r) name = (if a = name then Some b else opt_scan (b # r) name)"
| "opt_scan _ name = None"

definition get_opt :: "bytes list \<Rightarrow> string \<Rightarrow> bytes option" where
  "get_opt argv name = opt_scan (tl argv) (cstr name)"

definition has_flag :: "bytes list \<Rightarrow> string \<Rightarrow> bool" where
  "has_flag argv name = list_ex (\<lambda>a. a = cstr name) (tl argv)"

definition or_default :: "bytes option \<Rightarrow> bytes \<Rightarrow> bytes" where
  "or_default v d = (case v of None \<Rightarrow> d | Some s \<Rightarrow> s)"

text \<open>The argument is the value of the environment variable.\<close>

definition home_dir :: "bytes option \<Rightarrow> bytes" where
  "home_dir h = (case h of None \<Rightarrow> cstr ''.'' | Some d \<Rightarrow> if d = [] then cstr ''.'' else d)"

definition default_data_dir :: "bytes option \<Rightarrow> nat \<Rightarrow> bytes" where
  "default_data_dir h cap = snprintf cap (home_dir h @ cstr ''/.agentchain'')"

definition default_key_path :: "bytes option \<Rightarrow> nat \<Rightarrow> bytes" where
  "default_key_path h cap = snprintf cap (home_dir h @ cstr ''/.agentchain/node.key'')"

section \<open>RPC client\<close>

definition AC_MAINNET_RPC :: bytes where "AC_MAINNET_RPC = cstr ''https://api.agentchain.noesisai.it''"

definition parse_host_port :: "bytes \<Rightarrow> nat \<Rightarrow> (bytes \<times> u16) option" where
  "parse_host_port hp host_cap =
     (case split_colon hp of
        None \<Rightarrow> None
      | Some (host, port) \<Rightarrow>
        if length host \<ge> host_cap then None
        else if atoi port \<le> 0 \<or> atoi port > 65535 then None
        else Some (host, word_of_int (atoi port)))"

text \<open>
  The header of a request, printed into 256 bytes. It is sent with the length that \<^verbatim>\<open>snprintf\<close> returned: \<open>None\<close> if that
  reaches outside the buffer; at its very end is the terminating zero. \<open>ua\<close> is the user agent, which the build generates.
\<close>

definition http_header_text :: "bytes \<Rightarrow> bytes \<Rightarrow> bytes \<Rightarrow> bytes" where
  "http_header_text ua host body =
     cstr ''POST / HTTP/1.1'' @ crlf @ cstr ''Host: '' @ host @ crlf @ cstr ''Content-Type: application/json'' @ crlf @
     cstr ''User-Agent: '' @ ua @ crlf @ cstr ''Content-Length: '' @ decimal (length body) @ crlf @
     cstr ''Connection: close'' @ crlf @ crlf"

definition http_header :: "bytes \<Rightarrow> bytes \<Rightarrow> bytes \<Rightarrow> bytes option" where
  "http_header ua host body =
     (let text = http_header_text ua host body
      in if length text < 256 then Some text else if length text = 256 then Some (take 255 text @ [0]) else None)"

definition http_body :: "bytes \<Rightarrow> bytes" where
  "http_body resp =
     (let text = c_string resp
      in case strstr (crlf @ crlf) text of
           None \<Rightarrow> text
         | Some p \<Rightarrow> c_string (drop (length text - length p + 4) resp))"

text \<open>
  \<open>net host port\<close> is \<open>None\<close> without a connection; else it gives what the server sends before it closes, or \<open>None\<close> if the
  request cannot be sent. \<open>curl url body\<close> is
  the output of \<^verbatim>\<open>curl\<close>, or \<open>None\<close> if it fails. Both may change the world \<open>'w\<close>. The outer option of a result is
  \<open>None\<close> if the client read outside a buffer.
\<close>

definition http_post_native ::
  "bytes \<Rightarrow> (bytes \<Rightarrow> u16 \<Rightarrow> (bytes \<Rightarrow> 'w \<Rightarrow> bytes option \<times> 'w) option) \<Rightarrow> bytes \<Rightarrow> u16 \<Rightarrow> bytes \<Rightarrow> nat \<Rightarrow> 'w \<Rightarrow> (bytes option \<times> 'w) option" where
  "http_post_native ua net host port body resp_cap w =
     (case net host port of
        None \<Rightarrow> Some (None, w)
      | Some send \<Rightarrow>
        (case http_header ua host body of
           None \<Rightarrow> None
         | Some header \<Rightarrow>
           (case send (header @ body) w of
              (resp, w) \<Rightarrow> Some (map_option (\<lambda>r. http_body (take (resp_cap - 1) r)) resp, w))))"

definition strip_scheme :: "bytes \<Rightarrow> bytes" where
  "strip_scheme url = (if prefix (cstr ''http://'') url then drop 7 url else url)"

definition rpc_host :: "bytes \<Rightarrow> bytes \<times> u16" where
  "rpc_host url =
     (let hp = takeWhile (\<lambda>b. b \<noteq> 0x2f) (snprintf 256 url)
      in case parse_host_port hp 256 of None \<Rightarrow> (hp, 30304) | Some hp \<Rightarrow> hp)"

definition rpc_call ::
  "bytes \<Rightarrow> (bytes \<Rightarrow> u16 \<Rightarrow> (bytes \<Rightarrow> 'w \<Rightarrow> bytes option \<times> 'w) option) \<Rightarrow> (bytes \<Rightarrow> bytes \<Rightarrow> 'w \<Rightarrow> bytes option \<times> 'w) \<Rightarrow>
   bytes \<Rightarrow> bytes \<Rightarrow> nat \<Rightarrow> 'w \<Rightarrow> (bytes option \<times> 'w) option" where
  "rpc_call ua net curl url body resp_cap w =
     (if prefix (cstr ''https://'') url then
        (case curl url body w of (resp, w) \<Rightarrow> Some (map_option (\<lambda>r. c_string (take (resp_cap - 1) r)) resp, w))
      else let (host, port) = rpc_host (strip_scheme url) in http_post_native ua net host port body resp_cap w)"

definition json_get_uint64 :: "bytes \<Rightarrow> string \<Rightarrow> u64 option" where
  "json_get_uint64 body key =
     (let pattern = snprintf 64 (quoted (cstr key))
      in case strstr pattern body of
           None \<Rightarrow> None
         | Some p \<Rightarrow>
           let p = dropWhile json_sep (drop (length pattern) p)
           in if p = [] \<or> \<not> is_digit (hd p) then None else Some (strtoull p))"

definition json_get_hex :: "bytes \<Rightarrow> string \<Rightarrow> nat \<Rightarrow> bytes option" where
  "json_get_hex body key cap =
     (let pattern = snprintf 64 (quoted (cstr key))
      in case strstr pattern body of
           None \<Rightarrow> None
         | Some p \<Rightarrow>
           let p = dropWhile (\<lambda>b. json_sep b \<or> b = 0x22) (drop (length pattern) p)
           in Some (take (cap - 1) (takeWhile (\<lambda>b. b \<noteq> 0x22) p)))"

section \<open>Submitting a transaction\<close>

record tx_submit_opts =
  so_rpc :: "bytes option"
  so_key_file :: "bytes option"
  so_tip_s :: "bytes option"
  so_memo :: "bytes option"
  so_valid_s :: "bytes option"

definition parse_submit_opts :: "bytes list \<Rightarrow> tx_submit_opts" where
  "parse_submit_opts argv =
     \<lparr>so_rpc = get_opt argv ''--rpc'', so_key_file = get_opt argv ''--from-key'', so_tip_s = get_opt argv ''--tip'',
      so_memo = get_opt argv ''--memo'', so_valid_s = get_opt argv ''--valid-slots''\<rparr>"

definition chain_info_req :: bytes where
  \<open>chain_info_req = cstr ''{"jsonrpc":"2.0","id":1,"method":"chain_info"}''\<close>

definition account_req :: "bytes \<Rightarrow> bytes" where
  \<open>account_req addr = cstr ''{"jsonrpc":"2.0","id":1,"method":"account_get","params":{"address":"'' @ addr @ cstr ''"}}''\<close>

definition submit_req :: "bytes \<Rightarrow> bytes" where
  \<open>submit_req tx_hex = cstr ''{"jsonrpc":"2.0","id":1,"method":"tx_submit","params":{"tx_hex":"'' @ tx_hex @ cstr ''"}}''\<close>

text \<open>The transaction before it is signed; a number that is missing from an answer stays 0.\<close>

definition tx_build ::
  "ac_keypair \<Rightarrow> tx_submit_opts \<Rightarrow> u64 \<Rightarrow> u64 \<Rightarrow> u64 \<Rightarrow> u64 \<Rightarrow> u8 \<Rightarrow> bytes \<Rightarrow> u32 \<Rightarrow> ac_tx" where
  "tx_build kp opts chain_id genesis_ts nonce now kind body gas_limit =
     (let current_slot = (now - genesis_ts) div AC_SLOT_DURATION_MS;
          valid_window = (case so_valid_s opts of None \<Rightarrow> 600 | Some s \<Rightarrow> strtoull s);
          memo = (case so_memo opts of None \<Rightarrow> [] | Some m \<Rightarrow> take AC_MEMO_MAX m)
      in \<lparr>tx_version = AC_TX_VERSION, tx_chain_id = chain_id, tx_kind = kind, tx_sender = kp_pk kp, tx_nonce = nonce,
          tx_gas_limit = gas_limit, tx_tip = (case so_tip_s opts of None \<Rightarrow> 0 | Some s \<Rightarrow> strtoull s),
          tx_valid_until = current_slot + valid_window,
          tx_body_len = of_nat (length body), tx_body = memcpy_into (zeros AC_TX_BODY_MAX) body,
          tx_memo_len = of_nat (length memo), tx_memo = memcpy_into (zeros AC_MEMO_MAX) memo, tx_sig = zeros AC_SIG_SIZE\<rparr>)"

definition u64_or_0 :: "u64 option \<Rightarrow> u64" where
  "u64_or_0 v = (case v of None \<Rightarrow> 0 | Some v \<Rightarrow> v)"

text \<open>
  \<open>call url cap\<close> is \<^verbatim>\<open>rpc_call\<close> with a buffer of \<open>cap\<close> bytes, \<open>key\<close> what the key file holds. The results are the exit
  code or the hash that is printed. Each step ends the command if a call fails or leaves its buffer.
\<close>

datatype outcome = Exit nat | Printed bytes

definition submit_tx ::
  "sodium \<Rightarrow> (bytes \<Rightarrow> nat \<Rightarrow> bytes \<Rightarrow> 'w \<Rightarrow> (bytes option \<times> 'w) option) \<Rightarrow> os_file \<Rightarrow> u64 \<Rightarrow> tx_submit_opts \<Rightarrow> u8 \<Rightarrow> bytes \<Rightarrow> u32 \<Rightarrow> 'w \<Rightarrow> (outcome \<times> 'w) option" where
  "submit_tx S call key now opts kind body gas_limit w =
     (if key = Absent then Some (Exit 2, w)
      else case fst (ac_node_keypair_load_or_create S [] False key) of
          None \<Rightarrow> Some (Exit 1, w)
        | Some (kp, _) \<Rightarrow>
          let rpc = or_default (so_rpc opts) AC_MAINNET_RPC
          in do { (resp, w) \<leftarrow> call rpc 8192 chain_info_req w;
               case resp of
                 None \<Rightarrow> Some (Exit 1, w)
               | Some resp \<Rightarrow>
                 let chain_id = u64_or_0 (json_get_uint64 resp ''chain_id'');
                     genesis_ts = u64_or_0 (json_get_uint64 resp ''genesis_timestamp_ms'')
                 in do { (resp, w) \<leftarrow> call rpc 8192 (snprintf 512 (account_req (hexb (kp_pk kp)))) w;
                      case resp of
                        None \<Rightarrow> Some (Exit 1, w)
                      | Some resp \<Rightarrow>
                        let nonce = u64_or_0 (json_get_uint64 resp ''nonce'')
                        in if length body > AC_TX_BODY_MAX then Some (Exit 1, w)
                           else case ac_tx_sign S (tx_build kp opts chain_id genesis_ts nonce now kind body gas_limit) kp of
                               None \<Rightarrow> Some (Exit 1, w)
                             | Some tx \<Rightarrow>
                               (case ac_tx_encode AC_TX_MAX_BYTES tx of
                                  None \<Rightarrow> Some (Exit 1, w)
                                | Some bin \<Rightarrow>
                                  do { (resp, w) \<leftarrow> call rpc 8192 (snprintf (length (hexb bin) + 256) (submit_req (hexb bin))) w;
                                       case resp of
                                         None \<Rightarrow> Some (Exit 1, w)
                                       | Some resp \<Rightarrow>
                                         (case json_get_hex resp ''hash'' (2 * AC_HASH_SIZE + 1) of
                                            None \<Rightarrow> Some (Exit 1, w)
                                          | Some hash \<Rightarrow> Some (if hash \<noteq> [] then Printed hash else Exit 1, w)) }) } })"

section \<open>Queries\<close>

text \<open>The unit of amounts, with its sign in UTF-8.\<close>

definition micro_crd :: bytes where "micro_crd = [0xc2, 0xb5] @ cstr ''CRD''"

definition line :: "string \<Rightarrow> bytes \<Rightarrow> bytes" where
  "line label v = cstr label @ v @ [0x0a]"

definition info_text :: "bytes \<Rightarrow> bytes \<Rightarrow> bytes" where
  "info_text rpc resp =
     (case (json_get_uint64 resp ''chain_id'', json_get_uint64 resp ''height'') of
        (Some cid, Some height) \<Rightarrow>
          line ''rpc:       '' rpc @ line ''chain_id:  '' (dec cid) @ line ''height:    '' (dec height) @
          line ''tip_hash:  '' (or_default (json_get_hex resp ''tip_hash'' 128) []) @
          line ''base_fee:  '' (dec (u64_or_0 (json_get_uint64 resp ''base_fee'')) @ [0x20] @ micro_crd @ cstr ''/gas'') @
          line ''genesis:   '' (dec (u64_or_0 (json_get_uint64 resp ''genesis_timestamp_ms'')) @ cstr '' ms'')
      | _ \<Rightarrow> resp @ [0x0a])"

definition cmd_info :: "(bytes \<Rightarrow> nat \<Rightarrow> bytes \<Rightarrow> 'w \<Rightarrow> (bytes option \<times> 'w) option) \<Rightarrow> bytes list \<Rightarrow> 'w \<Rightarrow> (outcome \<times> 'w) option" where
  "cmd_info call argv w =
     (let rpc = or_default (get_opt argv ''--rpc'') AC_MAINNET_RPC
      in do { (resp, w) \<leftarrow> call rpc 8192 chain_info_req w;
              Some (case resp of None \<Rightarrow> Exit 1 | Some resp \<Rightarrow> Printed (info_text rpc resp), w) })"

definition balance_text :: "bytes \<Rightarrow> bytes \<Rightarrow> bytes" where
  "balance_text addr resp =
     (case (json_get_uint64 resp ''balance'', json_get_uint64 resp ''nonce'', json_get_uint64 resp ''stake'') of
        (Some bal, Some nonce, Some stake) \<Rightarrow>
          let unbond_at = u64_or_0 (json_get_uint64 resp ''unbond_at'')
          in line ''address: '' addr @ line ''balance: '' (dec bal @ [0x20] @ micro_crd) @ line ''nonce:   '' (dec nonce) @
             line ''stake:   '' (dec stake @ [0x20] @ micro_crd @ (if stake \<ge> AC_MIN_STAKE_UCRD then cstr '' (active validator)'' else [])) @
             (if unbond_at \<noteq> 0 then line ''unbond_at: slot '' (dec unbond_at) else [])
      | _ \<Rightarrow> resp @ [0x0a])"

definition cmd_balance ::
  "sodium \<Rightarrow> (bytes \<Rightarrow> nat \<Rightarrow> bytes \<Rightarrow> 'w \<Rightarrow> (bytes option \<times> 'w) option) \<Rightarrow> os_file \<Rightarrow> bytes list \<Rightarrow> 'w \<Rightarrow> (outcome \<times> 'w) option" where
  "cmd_balance S call key argv w =
     (let rpc = or_default (get_opt argv ''--rpc'') AC_MAINNET_RPC;
          addr = (case get_opt argv ''--address'' of
                    Some a \<Rightarrow> Inr a
                  | None \<Rightarrow>
                    if key = Absent then Inl 2
                    else case fst (ac_node_keypair_load_or_create S [] False key) of
                        None \<Rightarrow> Inl 1
                      | Some (kp, _) \<Rightarrow> Inr (hexb (kp_pk kp)))
      in case addr of
           Inl rc \<Rightarrow> Some (Exit rc, w)
         | Inr addr \<Rightarrow>
           do { (resp, w) \<leftarrow> call rpc 4096 (snprintf 256 (account_req addr)) w;
                Some (case resp of None \<Rightarrow> Exit 1 | Some resp \<Rightarrow> Printed (balance_text addr resp), w) })"

section \<open>Wallet commands\<close>

definition cmd_send ::
  "sodium \<Rightarrow> (bytes \<Rightarrow> nat \<Rightarrow> bytes \<Rightarrow> 'w \<Rightarrow> (bytes option \<times> 'w) option) \<Rightarrow> os_file \<Rightarrow> u64 \<Rightarrow> bytes list \<Rightarrow> 'w \<Rightarrow> (outcome \<times> 'w) option" where
  "cmd_send S call key now argv w =
     (case (get_opt argv ''--to'', get_opt argv ''--amount'') of
        (Some to_hex, Some amount_s) \<Rightarrow>
          (case ac_hex_decode AC_PUBKEY_SIZE (Some (chars to_hex)) of
             None \<Rightarrow> Some (Exit 2, w)
           | Some recipient \<Rightarrow>
             (case ac_body_transfer_encode AC_TX_BODY_MAX \<lparr>bt_recipient = recipient, bt_amount = strtoull amount_s\<rparr> of
                None \<Rightarrow> Some (Exit 1, w)
              | Some body \<Rightarrow> submit_tx S call key now (parse_submit_opts argv) AC_TX_TRANSFER body 1000 w))
      | _ \<Rightarrow> Some (Exit 2, w))"

definition cmd_bond ::
  "sodium \<Rightarrow> (bytes \<Rightarrow> nat \<Rightarrow> bytes \<Rightarrow> 'w \<Rightarrow> (bytes option \<times> 'w) option) \<Rightarrow> os_file \<Rightarrow> u64 \<Rightarrow> bytes list \<Rightarrow> 'w \<Rightarrow> (outcome \<times> 'w) option" where
  "cmd_bond S call key now argv w =
     (case get_opt argv ''--amount'' of
        None \<Rightarrow> Some (Exit 2, w)
      | Some amount_s \<Rightarrow>
        (case ac_body_stake_encode AC_TX_BODY_MAX \<lparr>bs_amount = strtoull amount_s\<rparr> of
           None \<Rightarrow> Some (Exit 1, w)
         | Some body \<Rightarrow> submit_tx S call key now (parse_submit_opts argv) AC_TX_STAKE_BOND body 1000 w))"

definition cmd_unbond ::
  "sodium \<Rightarrow> (bytes \<Rightarrow> nat \<Rightarrow> bytes \<Rightarrow> 'w \<Rightarrow> (bytes option \<times> 'w) option) \<Rightarrow> os_file \<Rightarrow> u64 \<Rightarrow> bytes list \<Rightarrow> 'w \<Rightarrow> (outcome \<times> 'w) option" where
  "cmd_unbond S call key now argv w =
     (case get_opt argv ''--amount'' of
        None \<Rightarrow> Some (Exit 2, w)
      | Some amount_s \<Rightarrow>
        (case ac_body_stake_encode AC_TX_BODY_MAX \<lparr>bs_amount = strtoull amount_s\<rparr> of
           None \<Rightarrow> Some (Exit 1, w)
         | Some body \<Rightarrow> submit_tx S call key now (parse_submit_opts argv) AC_TX_STAKE_UNBOND body 1000 w))"

text \<open>\<open>keygen\<close> never touches a file that exists; \<open>pubkey\<close> only reads. Both print the address.\<close>

definition cmd_keygen :: "sodium \<Rightarrow> bytes \<Rightarrow> bool \<Rightarrow> os_file \<Rightarrow> outcome \<times> os_file" where
  "cmd_keygen S rnd wr f =
     (if f \<noteq> Absent then (Exit 1, f)
      else case ac_node_keypair_load_or_create S rnd wr f of
          (None, f) \<Rightarrow> (Exit 1, f)
        | (Some (kp, _), f) \<Rightarrow> (Printed (hexb (kp_pk kp)), f))"

definition cmd_pubkey :: "sodium \<Rightarrow> os_file \<Rightarrow> outcome" where
  "cmd_pubkey S f =
     (if f = Absent then Exit 1
      else case fst (ac_node_keypair_load_or_create S [] False f) of
          None \<Rightarrow> Exit 1
        | Some (kp, _) \<Rightarrow> Printed (hexb (kp_pk kp)))"

section \<open>Writing a genesis file\<close>

definition account_spec :: "bytes \<Rightarrow> (bytes \<times> u64 \<times> u64) option" where
  "account_spec spec =
     (let hex = take 127 (takeWhile (\<lambda>b. b \<noteq> 0x3a) spec); r = drop (length hex) spec
      in if hex = [] \<or> r = [] \<or> hd r \<noteq> 0x3a then None
         else do { (bal, r) \<leftarrow> scan_u64 (tl r);
                   if r = [] \<or> hd r \<noteq> 0x3a then None
                   else do { (stake, r) \<leftarrow> scan_u64 (tl r); Some (hex, bal, stake) } })"

definition account_text :: "bytes \<times> u64 \<times> u64 \<Rightarrow> bytes" where
  "account_text a = (case a of (hex, bal, stake) \<Rightarrow>
     cstr ''account '' @ hex @ [0x20] @ dec bal @ [0x20] @ dec stake @ [0x0a])"

text \<open>The lines for the \<open>--account\<close> options; the flag is false after one that cannot be read.\<close>

fun account_lines :: "bytes list \<Rightarrow> bool \<times> bytes" where
  "account_lines (a # spec # r) =
     (if a \<noteq> cstr ''--account'' then account_lines (spec # r)
      else case account_spec spec of
          None \<Rightarrow> (False, [])
        | Some s \<Rightarrow> (case account_lines (spec # r) of (ok, t) \<Rightarrow> (ok, account_text s @ t)))"
| "account_lines _ = (True, [])"

definition genesis_head :: "u64 \<Rightarrow> u64 \<Rightarrow> bytes" where
  "genesis_head cid ts =
     cstr ''# AgentChain genesis configuration'' @ [0x0a] @ cstr ''chain_id     = '' @ dec cid @ [0x0a] @
     cstr ''timestamp_ms = '' @ dec ts @ [0x0a, 0x0a]"

text \<open>The exit code and the file, if it could be opened for writing.\<close>

definition cmd_genesis :: "u64 \<Rightarrow> bool \<Rightarrow> bytes list \<Rightarrow> nat \<times> bytes option" where
  "cmd_genesis now wr argv =
     (case (get_opt argv ''--chain-id'', get_opt argv ''--out'') of
        (Some cid_s, Some out) \<Rightarrow>
          let ts = (case get_opt argv ''--timestamp-ms'' of None \<Rightarrow> now | Some ts_s \<Rightarrow> strtoull ts_s)
          in if \<not> wr then (1, None)
             else (case account_lines (tl argv) of
                     (ok, lines) \<Rightarrow> (if ok then 0 else 2, Some (genesis_head (strtoull cid_s) ts @ lines)))
      | _ \<Rightarrow> (2, None))"

section \<open>Running a node\<close>

definition AC_MAINNET_SEEDS :: bytes where
  "AC_MAINNET_SEEDS = cstr ''34.61.207.49:30303,18.192.176.100:30303,16.171.43.222:30303''"

definition AC_MAINNET_GENESIS :: bytes where
  "AC_MAINNET_GENESIS =
     cstr ''# AgentChain genesis configuration'' @ [0x0a] @ cstr ''chain_id     = 1'' @ [0x0a] @
     cstr ''timestamp_ms = 1779397200000'' @ [0x0a] @ [0x0a] @
     cstr ''account 4bfe9fb5ea49f00bf3c78fb9e979223ee5fa630743befc5c1f5686ac923bf79a 39997000000000 1000000000'' @ [0x0a] @
     cstr ''account 69f02a87d94d8e1ba76ea4ee374b5358ea4782d6f4249fbd8731e9b4ac863a9e 500000000 500000000'' @ [0x0a] @
     cstr ''account 89dfe243a931659dd4f0d71b68110711262af7dcb58a053a9e9135ea454fa4fd 500000000 500000000'' @ [0x0a]"

primrec split_on :: "byte \<Rightarrow> bytes \<Rightarrow> bytes list" where
  "split_on c [] = [[]]"
| "split_on c (b # bs) = (if b = c then [] # split_on c bs else (b # hd (split_on c bs)) # tl (split_on c bs))"

definition seed_list :: "bytes option \<Rightarrow> bytes list" where
  "seed_list seeds_s =
     (let seeds_eff = (case seeds_s of None \<Rightarrow> AC_MAINNET_SEEDS | Some s \<Rightarrow> if s \<noteq> [] then s else AC_MAINNET_SEEDS)
      in map (dropWhile (\<lambda>b. b = 0x20)) (filter (\<lambda>t. t \<noteq> []) (split_on 0x2c seeds_eff)))"

definition port_or :: "bytes option \<Rightarrow> u16 \<Rightarrow> u16" where
  "port_or v d = (case v of None \<Rightarrow> d | Some s \<Rightarrow> word_of_int (atoi s))"

definition node_config :: "bytes option \<Rightarrow> bytes list \<Rightarrow> ac_node_config" where
  "node_config home argv =
     (let dd = or_default (get_opt argv ''--data-dir'') (default_data_dir home 1024)
      in \<lparr>nf_data_dir = snprintf 512 dd,
          nf_genesis_path = snprintf 512 (or_default (get_opt argv ''--genesis'') (snprintf 1024 (dd @ cstr ''/genesis.txt''))),
          nf_listen_host = snprintf 64 (or_default (get_opt argv ''--host'') (cstr ''0.0.0.0'')),
          nf_listen_port = port_or (get_opt argv ''--port'') 30303,
          nf_rpc_host = snprintf 64 (or_default (get_opt argv ''--rpc-host'') (cstr ''127.0.0.1'')),
          nf_rpc_port = port_or (get_opt argv ''--rpc-port'') 30304,
          nf_external_host = snprintf 128 (or_default (get_opt argv ''--external-host'') []),
          nf_seed_peers = seed_list (get_opt argv ''--seeds''), nf_validator = has_flag argv ''--validator''\<rparr>)"

text \<open>The genesis file a node reads: the one that is there, or the one it writes for the main network.\<close>

definition node_genesis :: "bytes list \<Rightarrow> bool \<Rightarrow> os_file \<Rightarrow> os_file option" where
  "node_genesis argv wr f =
     (if get_opt argv ''--genesis'' \<noteq> None then Some f
      else if f \<noteq> Absent then Some f
      else if wr then Some (Content AC_MAINNET_GENESIS) else None)"

definition cmd_node ::
  "sodium \<Rightarrow> ac_io \<Rightarrow> bytes \<Rightarrow> bool \<Rightarrow> bool \<Rightarrow> bytes option \<Rightarrow> bytes list \<Rightarrow> os_file \<Rightarrow> os_file \<Rightarrow> (u64 \<rightharpoonup> bytes) \<Rightarrow> bytes option \<Rightarrow> bytes option \<Rightarrow>
   (ac_consensus \<times> ac_net) option" where
  "cmd_node S io rnd wr up home argv keyf genf blocks st mt =
     (case node_genesis argv wr genf of
        None \<Rightarrow> None
      | Some genf \<Rightarrow> ac_node_start S io rnd wr up (node_config home argv) keyf genf blocks st mt)"

end
