(* ===== verification/Rpc_Rules.thy ===== *)
theory Rpc_Rules
  imports Rpc Net_Rules Consensus_Run
begin

text \<open>
  Properties of the RPC server: a request is found in any fragmentation of the stream, lists are printed completely,
  the methods change nothing but indexes and the pool, and what the answers show.
\<close>

section \<open>Text\<close>

lemma unat_lt: "unat (x :: 'a::len word) < 2 ^ LENGTH('a)"
  by (rule unsigned_less)

lemma c_string_all: "0 \<notin> set s \<Longrightarrow> c_string s = s"
  by (auto simp: c_string_def takeWhile_eq_all_conv)

lemma decimal_chars: "b \<in> set (decimal k) \<Longrightarrow> is_digit b"
  using decimal_is_digits [of k] by (simp add: list_all_iff)

lemma digit_not [simp]:
  "\<not> is_digit 0" "\<not> is_digit 0x22" "\<not> is_digit 0x0d" "\<not> is_digit 0x2c" "\<not> is_digit 0x7d" "\<not> is_digit 0x20" "\<not> is_digit 0x0a"
  by (simp_all add: is_digit_def)

lemma decimal_free [simp]:
  "0 \<notin> set (decimal k)" "0x22 \<notin> set (decimal k)" "0x0d \<notin> set (decimal k)"
  "0 \<notin> set (dec x)" "0x22 \<notin> set (dec x)" "0x0d \<notin> set (dec x)"
  by (auto simp: dec_def dest: decimal_chars)

definition hex_digit :: "byte \<Rightarrow> bool" where
  "hex_digit b \<longleftrightarrow> is_digit b \<or> (0x61 \<le> b \<and> b \<le> 0x66)"

lemma HEX_DIGITS_hex:
  assumes "i < 16"
  shows "hex_digit (of_char (HEX_DIGITS ! i))"
proof -
  have "\<forall>c\<in>set HEX_DIGITS. hex_digit (of_char c)" by (simp add: HEX_DIGITS_def hex_digit_def is_digit_def)
  moreover have "HEX_DIGITS ! i \<in> set HEX_DIGITS" using assms by (intro nth_mem) (simp add: HEX_DIGITS_def)
  ultimately show ?thesis by (rule bspec)
qed

lemma hexb_chars: "b \<in> set (hexb bs) \<Longrightarrow> hex_digit b"
proof -
  have "unat (drop_bit 4 x) < 16" "unat (x AND 15) < 16" for x :: byte
  proof -
    have "unat (drop_bit 4 x) = unat x div 16" by (simp add: drop_bit_eq_div unat_div)
    then show "unat (drop_bit 4 x) < 16" using unat_lt [of x] by simp
    have "x AND 15 = take_bit 4 x" by (simp add: take_bit_eq_mask mask_eq_exp_minus_1)
    then have "unat (x AND 15) = unat x mod 16" by (simp add: take_bit_eq_mod unat_mod)
    then show "unat (x AND 15) < 16" by simp
  qed
  then show "b \<in> set (hexb bs) \<Longrightarrow> hex_digit b"
    by (auto simp: hexb_def ac_hex_encode_def cstr_def intro: HEX_DIGITS_hex)
qed

lemma length_hexb [simp]: "length (hexb bs) = 2 * length bs"
  by (simp add: hexb_def cstr_def)

lemma hexb_free [simp]: "0 \<notin> set (hexb bs)" "0x22 \<notin> set (hexb bs)" "0x0d \<notin> set (hexb bs)"
  using hexb_chars by (auto simp: hex_digit_def dest!: hexb_chars)

lemma chars_cstr [simp]: "chars (cstr s) = s"
proof -
  have "char_of (unat (of_char c :: byte)) = c" for c
  proof -
    have "unat (of_nat (of_char c) :: byte) = of_char c" using nat_of_char_less_256 [of c] by (subst unat_of_nat) simp
    then show ?thesis by (simp only: of_nat_of_char char_of_char)
  qed
  then show ?thesis by (simp add: chars_def cstr_def comp_def)
qed

lemma chars_hexb [simp]: "chars (hexb bs) = ac_hex_encode bs"
  by (simp add: hexb_def)

lemma dec_length: "length (dec (x :: u64)) \<le> 20" "length (dec (y :: u32)) \<le> 10" "length (dec (z :: u16)) \<le> 5" "length (dec (b :: byte)) \<le> 3"
proof -
  have "unat x < 10 ^ 20" using unat_u64_less [of x] by simp
  then show "length (dec x) \<le> 20" unfolding dec_def by (rule decimal_length) simp
  have "unat y < 10 ^ 10" using unat_u32_less [of y] by simp
  then show "length (dec y) \<le> 10" unfolding dec_def by (rule decimal_length) simp
  have "unat z < 10 ^ 5" using unat_lt [of z] by simp
  then show "length (dec z) \<le> 5" unfolding dec_def by (rule decimal_length) simp
  have "unat b < 10 ^ 3" using unat_lt [of b] by simp
  then show "length (dec b) \<le> 3" unfolding dec_def by (rule decimal_length) simp
qed

section \<open>Requests\<close>

lemma strstr_append: "strstr pat s = Some r \<Longrightarrow> strstr pat (s @ x) = Some (r @ x)"
proof (induction s)
  case Nil
  then show ?case using strstr_here [of "[]" x] by (auto split: if_splits)
next
  case (Cons a s)
  show ?case
  proof (cases "prefix pat (a # s)")
    case True
    then have "prefix pat (a # s @ x)" using prefix_prefix [of pat "a # s" x] by simp
    moreover have "r = a # s" using Cons.prems True by simp
    ultimately show ?thesis by simp
  next
    case False
    then have r: "strstr pat s = Some r" using Cons.prems by simp
    then have "length pat \<le> length s" using strstr_suffix [OF r] by (meson prefix_length_le suffix_length_le le_trans)
    then have "\<not> prefix pat (a # s @ x)" using False prefix_length_prefix [of pat "(a # s) @ x" "a # s"] by auto
    then show ?thesis using Cons.IH [OF r] by simp
  qed
qed

text \<open>
  A header that a client sends: its only empty line is at its end, and its length field is \<open>n\<close>, whatever follows it.
\<close>

definition head_ok :: "bytes \<Rightarrow> nat \<Rightarrow> bool" where
  "head_ok h n \<longleftrightarrow> 0 \<notin> set h \<and> prefix (cstr ''POST'') h \<and> (\<forall>x. strstr (crlf @ crlf) (h @ x) = Some (crlf @ crlf @ x)) \<and>
     (\<forall>x. content_length (h @ x) = of_nat n)"

lemma head_not_early:
  assumes "\<forall>x. strstr (crlf @ crlf) (h @ x) = Some (crlf @ crlf @ x)" "h = s @ x" "x \<noteq> []"
  shows "strstr (crlf @ crlf) s = None"
proof (rule ccontr)
  assume "strstr (crlf @ crlf) s \<noteq> None"
  then obtain r where r: "strstr (crlf @ crlf) s = Some r" by auto
  then have "r @ x = crlf @ crlf" using assms(1,2) strstr_append [OF r, of x] by (metis append_Nil2 option.inject)
  moreover have "length (crlf @ crlf) \<le> length r" using strstr_suffix [OF r] prefix_length_le by blast
  ultimately show False using assms(3) by (metis length_append le_add_same_cancel1 add_le_same_cancel1 le_zero_eq length_0_conv)
qed

text \<open>Pieces of a stream.\<close>

definition pieces :: "bytes list \<Rightarrow> recv_event list" where
  "pieces = map Chunk"

lemma read_body_pieces:
  assumes "list_all (\<lambda>b. b \<noteq> []) bs" "length buf + length (concat bs) = n" "n < REQ_BUF"
  shows "read_body n (pieces bs) buf = buf @ concat bs"
  using assms
proof (induction bs arbitrary: buf)
  case (Cons b bs)
  have "take (REQ_BUF - 1 - length buf) b = b" using Cons.prems by simp
  moreover have "read_body n (pieces bs) (buf @ b) = (buf @ b) @ concat bs" using Cons.prems by (intro Cons.IH) auto
  ultimately show ?case using Cons.prems by (cases b) (auto simp: pieces_def)
qed (simp add: pieces_def)

lemma read_head_pieces:
  assumes "list_all (\<lambda>b. b \<noteq> []) bs" "buf @ concat bs = h @ body" "length buf < length h" "length (h @ body) < REQ_BUF"
    and h: "0 \<notin> set (h @ body)" "\<forall>x. strstr (crlf @ crlf) (h @ x) = Some (crlf @ crlf @ x)"
  shows "\<exists>bs'. list_all (\<lambda>b. b \<noteq> []) bs' \<and> (\<exists>x. read_head (pieces bs) buf = (h @ x, Some (length h), pieces bs') \<and> x @ concat bs' = body)"
  using assms(1-4)
proof (induction bs arbitrary: buf)
  case Nil
  then show ?case by simp
next
  case (Cons b bs)
  let ?t = "buf @ b"
  have t: "?t @ concat bs = h @ body" using Cons.prems(2) by simp
  have len: "length ?t + length (concat bs) = length (h @ body)" using t by (metis length_append)
  then have room: "take (REQ_BUF - 1 - length buf) b = b" "\<not> length b > REQ_BUF - 1 - length buf" "\<not> length buf \<ge> REQ_BUF - 1"
    using Cons.prems by (auto simp: neq_Nil_conv)
  have "set ?t \<subseteq> set (h @ body)" using t by (metis set_append Un_upper1)
  then have c: "c_string ?t = ?t" using h(1) by (intro c_string_all) blast
  show ?case
  proof (cases "length ?t < length h")
    case True
    have "take (length ?t) (?t @ concat bs) = ?t" by (rule append_eq_conv_conj [THEN iffD1, THEN conjunct1, symmetric]) (rule refl)
    then have "take (length ?t) h = ?t" unfolding t using True by simp
    then have "h = ?t @ drop (length ?t) h" "drop (length ?t) h \<noteq> []" using True append_take_drop_id [of "length ?t" h] by auto
    then have "strstr (crlf @ crlf) ?t = None" by (rule head_not_early [OF h(2)])
    then show ?thesis using Cons.IH [OF _ t True] Cons.prems room c by (auto simp: pieces_def Let_def)
  next
    case False
    define x where "x = drop (length h) ?t"
    have "take (length h) ?t = h" using arg_cong [OF t, of "take (length h)"] False by simp
    then have x: "?t = h @ x" using append_take_drop_id [of "length h" ?t] by (simp add: x_def)
    have "x @ concat bs = body" using t unfolding x by simp
    note x = x this
    have "strstr (crlf @ crlf) h = Some (crlf @ crlf)" using h(2) [rule_format, of "[]"] by simp
    from suffix_length_le [OF conjunct1 [OF strstr_suffix [OF this]]] have "4 \<le> length h" by (simp add: crlf_def)
    then have "read_head (pieces (b # bs)) buf = (h @ x, Some (length h), pieces bs)" using x Cons.prems room c h(2) by (simp add: pieces_def Let_def crlf_def)
    then show ?thesis using x(2) Cons.prems(1) by auto
  qed
qed

lemma request_found:
  assumes "head_ok h (length body)" "0 \<notin> set body" "length (h @ body) < REQ_BUF"
    and "list_all (\<lambda>b. b \<noteq> []) bs" "concat bs = h @ body"
  shows "handle_client S io r (pieces bs) = rpc_body S io r body"
proof -
  have h: "0 \<notin> set (h @ body)" "\<forall>x. strstr (crlf @ crlf) (h @ x) = Some (crlf @ crlf @ x)" "\<And>x. content_length (h @ x) = of_nat (length body)"
    using assms(1,2) by (auto simp: head_ok_def)
  have "h \<noteq> []" using assms(1) by (auto simp: head_ok_def cstr_def)
  then obtain bs' x where r: "list_all (\<lambda>b. b \<noteq> []) bs'" "read_head (pieces bs) [] = (h @ x, Some (length h), pieces bs')" "x @ concat bs' = body"
    using read_head_pieces [OF assms(4) _ _ assms(3) h(1,2), of "[]"] assms(5) by auto
  have len: "length (h @ body) < 2 ^ 64" using assms(3) by (simp add: REQ_BUF_def)
  have "set (h @ x) \<subseteq> set (h @ body)" using r(3) by auto
  then have c: "c_string (h @ x) = h @ x" "c_string (h @ body) = h @ body" "c_string body = body"
    using h(1) c_string_all by (blast, blast, simp add: c_string_all assms(2))
  have "unat (of_nat (length h) + of_nat (length body) :: u64) = length (h @ body)"
    using len by (simp add: unat_of_nat flip: of_nat_add)
  moreover have "read_body (length (h @ body)) (pieces bs') (h @ x) = h @ body"
    using read_body_pieces [OF r(1), of "h @ x" "length (h @ body)"] r(3) assms(3) by auto
  moreover have "prefix (cstr ''POST'') (h @ body)" using assms(1) by (simp add: head_ok_def prefix_append)
  ultimately show ?thesis by (simp add: handle_client_def r(2) c h(3) Let_def del: length_append)
qed

text \<open>
  Claim C23. A request is understood however the network cuts it: for every way to split the bytes of a header with a
  correct length and of a body into pieces, the server answers the body, all of it and nothing else.
\<close>

theorem request_delivered:
  assumes "head_ok h (length body)" "0 \<notin> set body" "length (h @ body) < REQ_BUF"
    and "list_all (\<lambda>b. b \<noteq> []) bs" "concat bs = h @ body"
  shows "handle_client S io r (pieces bs) = rpc_body S io r body"
  using assms by (rule request_found)

definition demo_head :: bytes where
  "demo_head = cstr ''POST / HTTP/1.1'' @ crlf @ cstr ''Content-Length: 2'' @ crlf @ crlf"

lemma strstr_line: "0x0d \<notin> set l \<Longrightarrow> strstr crlf (l @ crlf @ x) = Some (crlf @ x)"
  using strstr_skip [of "0x0d" l "[0x0a]" "crlf @ x"] strstr_here [of crlf x] by (simp add: crlf_def)

text \<open>A line of a header: the length field ends the search, another line is skipped.\<close>

lemma content_length_line:
  assumes "0x0d \<notin> set l"
  shows "content_length (l @ crlf @ x) =
    (if length NEEDLE \<le> length l \<and> length l < 64 \<and> map tolower (take (length NEEDLE) l) = NEEDLE
     then strtoull (drop (length NEEDLE) l @ crlf @ x) else content_length x)"
proof -
  have "length crlf = 2" "drop 2 (crlf @ x) = x" by (simp_all add: crlf_def)
  then show ?thesis by (subst content_length.simps) (auto simp: strstr_line [OF assms] Let_def)
qed

lemma empty_line_skip:
  assumes "0x0d \<notin> set l" "l \<noteq> []"
  shows "strstr (crlf @ crlf) (crlf @ l @ crlf @ x) = strstr (crlf @ crlf) (crlf @ x)"
    and "strstr (crlf @ crlf) (l @ crlf @ x) = strstr (crlf @ crlf) (crlf @ x)"
proof -
  show l: "strstr (crlf @ crlf) (l @ crlf @ x) = strstr (crlf @ crlf) (crlf @ x)"
    using strstr_skip [OF assms(1), of "[0x0a, 0x0d, 0x0a]" "crlf @ x"] by (simp add: crlf_def)
  obtain b m where "l = b # m" "b \<noteq> 0x0d" using assms by (cases l) auto
  then have "strstr (crlf @ crlf) (crlf @ l @ crlf @ x) = strstr (crlf @ crlf) (l @ crlf @ x)" by (simp add: crlf_def)
  then show "strstr (crlf @ crlf) (crlf @ l @ crlf @ x) = strstr (crlf @ crlf) (crlf @ x)" using l by simp
qed

lemma demo_head_ok: "head_ok demo_head 2"
proof -
  let ?p = "cstr ''POST / HTTP/1.1''" and ?c = "cstr ''Content-Length: 2''"
  have l: "0x0d \<notin> set ?p" "?p \<noteq> []" "0x0d \<notin> set ?c" "?c \<noteq> []" by (simp_all add: cstr_def)
  have "content_length (demo_head @ x) = 2" for x
  proof -
    have "\<not> map tolower (take (length NEEDLE) ?p) = NEEDLE" by (simp add: NEEDLE_def cstr_def tolower_def)
    moreover have "map tolower (take (length NEEDLE) ?c) = NEEDLE" "length NEEDLE \<le> length ?c" "length ?c < 64"
      by (simp_all add: NEEDLE_def cstr_def tolower_def word_le_nat_alt)
    moreover have "drop (length NEEDLE) ?c = 0x20 # decimal (unat (2 :: u64)) @ []"
      by (simp add: NEEDLE_def cstr_def decimal.simps)
    ultimately show ?thesis
      using content_length_line [OF l(1)] content_length_line [OF l(3), of "crlf @ x"] strtoull_decimal(2) [of "crlf @ crlf @ x" 2]
      by (simp add: demo_head_def) (simp add: crlf_def is_digit_def)
  qed
  moreover have "strstr (crlf @ crlf) (demo_head @ x) = Some (crlf @ crlf @ x)" for x
    using empty_line_skip(2) [OF l(1,2)] empty_line_skip(1) [OF l(3,4)] strstr_here [of "crlf @ crlf" x] by (simp add: demo_head_def)
  moreover have "0 \<notin> set demo_head" "prefix (cstr ''POST'') demo_head" by (simp_all add: demo_head_def cstr_def crlf_def)
  ultimately show ?thesis by (simp add: head_ok_def)
qed

definition demo_rpc :: ac_rpc where
  "demo_rpc = \<lparr>rp_chain = demo_chain, rp_mempool = ac_mempool_new 7, rp_net = None, rp_broadcast = True, rp_out = []\<rparr>"

theorem request_delivered_witness:
  "handle_client demo_sodium demo_io demo_rpc (pieces [demo_head, [0x7b], [0x7d]]) = rpc_body demo_sodium demo_io demo_rpc [0x7b, 0x7d]"
proof -
  have "head_ok demo_head (length [0x7b, 0x7d :: byte])" using demo_head_ok by (simp add: numeral_2_eq_2)
  moreover have "demo_head \<noteq> []" "length demo_head < 100" by (simp_all add: demo_head_def cstr_def crlf_def)
  ultimately show ?thesis
    by (intro request_delivered [where h = demo_head]) (auto simp: REQ_BUF_def)
qed

section \<open>Lists\<close>

fun joined :: "nat \<Rightarrow> bytes option list \<Rightarrow> bytes" where
  "joined i [] = []"
| "joined i (None # es) = joined (Suc i) es"
| "joined i (Some t # es) = (if i \<noteq> 0 then cstr '','' else []) @ t @ joined (Suc i) es"

text \<open>If every element has at most \<open>m\<close> bytes with its comma, and there is room for the last one, all are printed.\<close>

lemma list_loop_full:
  assumes "list_all (\<lambda>e. case e of None \<Rightarrow> True | Some t \<Rightarrow> length t + 1 \<le> m) es" "m + 2 \<le> room"
    and "fst b \<noteq> []" "snd b = length (fst b)" "es \<noteq> [] \<longrightarrow> snd b + m * (length es - 1) + room < need"
  shows "list_loop need room i es b = (fst b @ joined i es, length (fst b) + length (joined i es)) \<and> length (joined i es) \<le> m * length es"
  using assms
proof (induction es arbitrary: i b)
  case (Cons e es)
  let ?b = "case e of None \<Rightarrow> b | Some t \<Rightarrow> bprintf need ((if i \<noteq> 0 then cstr '','' else []) @ t) b"
  let ?t = "case e of None \<Rightarrow> [] | Some t \<Rightarrow> (if i \<noteq> 0 then cstr '','' else []) @ t"
  have t: "length ?t \<le> m" using Cons.prems(1) by (auto simp: cstr_def split: option.splits)
  have go: "snd b > 0" "snd b + room < need" using Cons.prems(3-5) by auto
  have b: "?b = (fst b @ ?t, snd b + length ?t)"
    using t go Cons.prems(2) by (cases b) (auto simp: bprintf_def snprintf_def split: option.splits)
  have "list_loop need room (Suc i) es ?b = (fst ?b @ joined (Suc i) es, length (fst ?b) + length (joined (Suc i) es)) \<and>
      length (joined (Suc i) es) \<le> m * length es"
    using Cons.prems t unfolding b by (intro Cons.IH) (cases es; auto)+
  moreover have "list_loop need room i (e # es) b = list_loop need room (Suc i) es ?b" using go by simp
  moreover have "joined i (e # es) = ?t @ joined (Suc i) es" by (cases e) simp_all
  ultimately show ?case using t Cons.prems(4) unfolding b by simp
qed (auto simp: prod_eq_iff)

lemma list_json_full:
  assumes "list_all (\<lambda>e. case e of None \<Rightarrow> True | Some t \<Rightarrow> length t + 1 \<le> m) es" "m + 2 \<le> room" "start \<noteq> []"
    and "es \<noteq> [] \<longrightarrow> length start + m * (length es - 1) + room < need" "length start + 2 < need"
  shows "list_json need room start es = start @ joined 0 es @ cstr '']}''"
proof -
  have b: "bprintf need start ([], 0) = (start, length start)" using assms(5) by (simp add: bprintf_def snprintf_def)
  note l = list_loop_full [OF assms(1,2), of "(start, length start)" need 0]
  have "list_loop need room 0 es (start, length start) = (start @ joined 0 es, length start + length (joined 0 es))"
    "length (joined 0 es) \<le> m * length es" using l assms(3,4) by simp_all
  moreover have "length start + length (joined 0 es) + 2 < need"
    using calculation(2) assms(2,4,5) by (cases es) auto
  ultimately show ?thesis using assms(3) by (simp add: list_json_def b Let_def bprintf_def snprintf_def cstr_def)
qed

lemma account_json_length:
  assumes "wf_account a"
  shows "length (validator_json a) + 1 \<le> 168" "length (top_json a) + 1 \<le> 168"
  using dec_length(1) [of "acc_stake a"] dec_length(1) [of "acc_balance a"] dec_length(1) [of "acc_nonce a"] assms
  by (simp_all add: validator_json_def top_json_def cstr_def wf)

lemma decimal_small: "k < 2 ^ 32 \<Longrightarrow> length (decimal k) \<le> 10"
  by (rule decimal_length) auto

lemma top_wf:
  assumes "wf_state (ch_state c)"
  shows "list_all wf_account (ac_chain_top_validators c cap)" "list_all wf_account (ac_chain_top_accounts_by_balance c cap)"
  using assms
  by (auto simp: ac_chain_top_validators_def ac_chain_top_accounts_by_balance_def chain_top_accounts_def wf_state_def list_all_iff
      by_stake.set_qsort by_balance.set_qsort dest!: in_set_takeD)

lemma list_some: "list_all P xs \<Longrightarrow> (\<And>x. P x \<Longrightarrow> length (f x) + 1 \<le> m) \<Longrightarrow>
    list_all (\<lambda>e. case e of None \<Rightarrow> True | Some t \<Rightarrow> length t + 1 \<le> m) (map (Some \<circ> f) xs)"
  by (auto simp: list_all_iff)

lemma validators_complete:
  assumes "wf_state (ch_state (rp_chain r))" "small_state (ch_state (rp_chain r))"
  shows \<open>handle_validators_list r i params = (r, send_rpc_result i (cstr ''{"total_active":'' @
    decimal (ac_chain_active_count (rp_chain r)) @ cstr '',"total_sqrt_stake":'' @ dec (ac_chain_total_sqrt_stake (rp_chain r)) @
    cstr '',"validators":['' @ joined 0 (map (Some \<circ> validator_json) (ac_chain_top_validators (rp_chain r) (list_limit params))) @ cstr '']}''))\<close>
proof -
  let ?arr = "ac_chain_top_validators (rp_chain r) (list_limit params)"
  let ?s = \<open>cstr ''{"total_active":'' @ decimal (ac_chain_active_count (rp_chain r)) @ cstr '',"total_sqrt_stake":'' @
    dec (ac_chain_total_sqrt_stake (rp_chain r)) @ cstr '',"validators":[''\<close>
  have "ac_chain_active_count (rp_chain r) \<le> length (st_accounts (ch_state (rp_chain r)))"
    by (simp add: ac_chain_active_count_def active_validators_def)
  then have "length (decimal (ac_chain_active_count (rp_chain r))) \<le> 10"
    using assms(2) by (intro decimal_small) (simp add: small_state_def)
  then have "length ?s \<le> 90" "?s \<noteq> []"
    using dec_length(1) [of "ac_chain_total_sqrt_stake (rp_chain r)"] by (simp_all add: cstr_def)
  then have "list_json (256 + length ?arr * 200) 200 ?s (map (Some \<circ> validator_json) ?arr)
      = ?s @ joined 0 (map (Some \<circ> validator_json) ?arr) @ cstr '']}''"
    using list_json_full [where room = 200 and start = ?s and need = "256 + length ?arr * 200",
      OF list_some [OF top_wf(1) [OF assms(1), of "list_limit params"] account_json_length(1)]]
    by (cases ?arr) simp_all
  then show ?thesis by (simp add: handle_validators_list_def Let_def)
qed

lemma accounts_complete:
  assumes "wf_state (ch_state (rp_chain r))" "small_state (ch_state (rp_chain r))"
  shows \<open>handle_accounts_top r i params = (r, send_rpc_result i (cstr ''{"total_accounts":'' @
    decimal (ac_state_count (ch_state (rp_chain r))) @ cstr '',"accounts":['' @
    joined 0 (map (Some \<circ> top_json) (ac_chain_top_accounts_by_balance (rp_chain r) (list_limit params))) @ cstr '']}''))\<close>
proof -
  let ?arr = "ac_chain_top_accounts_by_balance (rp_chain r) (list_limit params)"
  let ?s = \<open>cstr ''{"total_accounts":'' @ decimal (ac_state_count (ch_state (rp_chain r))) @ cstr '',"accounts":[''\<close>
  have "length (decimal (ac_state_count (ch_state (rp_chain r)))) \<le> 10"
    using assms(2) by (intro decimal_small) (simp add: small_state_def ac_state_count_def)
  then have "length ?s \<le> 90" "?s \<noteq> []" by (simp_all add: cstr_def)
  then have "list_json (256 + length ?arr * 220) 220 ?s (map (Some \<circ> top_json) ?arr)
      = ?s @ joined 0 (map (Some \<circ> top_json) ?arr) @ cstr '']}''"
    using list_json_full [where room = 220 and start = ?s and need = "256 + length ?arr * 220",
      OF list_some [OF top_wf(2) [OF assms(1), of "list_limit params"] account_json_length(2)]]
    by (cases ?arr) simp_all
  then show ?thesis by (simp add: handle_accounts_top_def Let_def)
qed

lemma block_start_length:
  assumes "sodium_ok S" "wf_header h"
  shows "length (block_start_json S h) \<le> 700" "block_start_json S h \<noteq> []"
  using assms(2) wf_block_hash [OF assms(1), of h] dec_length(1) [of "h_height h"] dec_length(1) [of "h_slot h"]
    dec_length(1) [of "h_timestamp_ms h"] dec_length(1) [of "h_base_fee h"] dec_length(1) [of "h_gas_used h"]
    dec_length(1) [of "h_gas_limit h"] dec_length(2) [of "h_tx_count h"]
  by (simp_all add: block_start_json_def cstr_def wf_header_def wf)

lemma block_full_complete:
  assumes "sodium_ok S" "wf_block b"
  shows "list_json (1024 + length (b_txs b) * (2 * AC_HASH_SIZE + 4)) 80 (block_start_json S (b_header b))
      (map (\<lambda>t. Some (quoted (hexb (ac_tx_hash S t)))) (b_txs b))
    = block_start_json S (b_header b) @ joined 0 (map (\<lambda>t. Some (quoted (hexb (ac_tx_hash S t)))) (b_txs b)) @ cstr '']}''"
proof -
  have "length (quoted (hexb (ac_tx_hash S t))) + 1 \<le> 67" for t using wf_tx_hash [OF assms(1), of t] by (simp add: quoted_def wf)
  then have "list_all (\<lambda>e. case e of None \<Rightarrow> True | Some t \<Rightarrow> length t + 1 \<le> 67) (map (\<lambda>t. Some (quoted (hexb (ac_tx_hash S t)))) (b_txs b))"
    by (simp add: list_all_iff)
  moreover have "wf_header (b_header b)" using assms(2) by (simp add: wf_block_def)
  note block_start_length [OF assms(1) this]
  ultimately show ?thesis by (intro list_json_full [where m = 67]) (cases "b_txs b", simp_all add: AC_HASH_SIZE_def)+
qed

text \<open>
  Claim C37. The list methods print everything they announce: their buffers are large enough for every validator and
  every account up to the limit of the request, and for every transaction hash of a block.
\<close>

theorem rpc_lists_complete:
  assumes "wf_state (ch_state (rp_chain r))" "small_state (ch_state (rp_chain r))" "sodium_ok S"
  shows \<open>handle_validators_list r i params = (r, send_rpc_result i (cstr ''{"total_active":'' @
      decimal (ac_chain_active_count (rp_chain r)) @ cstr '',"total_sqrt_stake":'' @ dec (ac_chain_total_sqrt_stake (rp_chain r)) @
      cstr '',"validators":['' @ joined 0 (map (Some \<circ> validator_json) (ac_chain_top_validators (rp_chain r) (list_limit params))) @ cstr '']}'')) \<and>
    handle_accounts_top r i params = (r, send_rpc_result i (cstr ''{"total_accounts":'' @
      decimal (ac_state_count (ch_state (rp_chain r))) @ cstr '',"accounts":['' @
      joined 0 (map (Some \<circ> top_json) (ac_chain_top_accounts_by_balance (rp_chain r) (list_limit params))) @ cstr '']}'')) \<and>
    (json_uint64 params (cstr ''height'') = Some h \<and> ac_chain_get_block_by_height (rp_chain r) h = Some b \<and> wf_block b \<longrightarrow>
     handle_block_get_full S r i params = (r, send_rpc_result i (block_start_json S (b_header b) @
       joined 0 (map (\<lambda>t. Some (quoted (hexb (ac_tx_hash S t)))) (b_txs b)) @ cstr '']}'')))\<close>
  using validators_complete [OF assms(1,2)] accounts_complete [OF assms(1,2)] block_full_complete [OF assms(3)]
  by (simp add: handle_block_get_full_def)

theorem rpc_lists_complete_witness:
  \<open>handle_accounts_top demo_rpc (cstr ''1'') [] = (demo_rpc, send_rpc_result (cstr ''1'') (cstr ''{"total_accounts":'' @
      decimal (ac_state_count (ch_state (rp_chain demo_rpc))) @ cstr '',"accounts":['' @
      joined 0 (map (Some \<circ> top_json) (ac_chain_top_accounts_by_balance (rp_chain demo_rpc) (list_limit []))) @ cstr '']}'')) \<and>
    ac_state_count (ch_state (rp_chain demo_rpc)) = 3\<close>
proof -
  have "ch_state (rp_chain demo_rpc) = demo_validators" by (simp add: demo_rpc_def)
  moreover have "ac_state_count demo_validators = 3" by (simp add: ac_state_count_def demo_validators_def)
  ultimately show ?thesis
    using rpc_lists_complete [of demo_rpc demo_sodium "cstr ''1''" "[]"] demo_chain_ok(1,2) sodium_ok_demo by simp
qed

section \<open>What a request can change\<close>

inductive rpc_effect :: "sodium \<Rightarrow> ac_io \<Rightarrow> ac_rpc \<Rightarrow> ac_rpc \<Rightarrow> bool" for S io r where
  nothing: "rpc_effect S io r r"
| find: "wf_hash h \<Longrightarrow> rpc_effect S io r (r\<lparr>rp_chain := snd (ac_chain_tx_find (rp_chain r) h)\<rparr>)"
| history: "rpc_effect S io r (r\<lparr>rp_chain := snd (ac_chain_addr_txs (rp_chain r) a cap)\<rparr>)"
| submit: "ac_tx_decode bin = Some tx \<Longrightarrow>
    ac_mempool_add S (rp_mempool r) (ch_state (rp_chain r)) tx (ac_chain_current_slot (rp_chain r) (io_now_ms io)) = (rs, mp) \<Longrightarrow>
    rpc_effect S io r (r\<lparr>rp_mempool := mp, rp_out := rp_out r @ (if rs = AC_MP_ACCEPTED \<and> rp_broadcast r then [bin] else [])\<rparr>)"

lemma hex_pairs_length: "hex_pairs n s = Some bs \<Longrightarrow> length bs = n"
  by (induction n arbitrary: s bs) (auto simp: Let_def split: if_splits)

lemma hex_decode_length: "ac_hex_decode n t = Some bs \<Longrightarrow> length bs = n"
  by (auto simp: ac_hex_decode_def Let_def dest: hex_pairs_length split: option.splits if_splits)

lemma lookups_pure:
  "fst (handle_chain_info r i) = r" "fst (handle_account_get r i params) = r" "fst (handle_name_lookup r i params) = r"
  "fst (handle_mempool_size r i) = r" "fst (handle_block_get r i params) = r" "fst (handle_block_get_full S r i params) = r"
  "fst (handle_validators_list r i params) = r" "fst (handle_accounts_top r i params) = r" "fst (handle_peers_list r i) = r"
  by (simp_all add: handle_chain_info_def handle_account_get_def handle_name_lookup_def handle_mempool_size_def
      handle_block_get_def handle_block_get_full_def handle_validators_list_def handle_accounts_top_def handle_peers_list_def
      Let_def split: option.splits prod.splits)

lemma tx_get_effect: "rpc_effect S io r (fst (handle_tx_get r i params))"
proof -
  have "fst (handle_tx_get r i params) = r \<or> (\<exists>h. wf_hash h \<and> fst (handle_tx_get r i params) = r\<lparr>rp_chain := snd (ac_chain_tx_find (rp_chain r) h)\<rparr>)"
    by (auto simp: handle_tx_get_def Let_def wf dest!: hex_decode_length split: option.splits prod.splits)
  then show ?thesis by (elim disjE) (auto intro: rpc_effect.nothing rpc_effect.find)
qed

lemma address_txs_effect: "rpc_effect S io r (fst (handle_address_txs S r i params))"
proof -
  have "fst (handle_address_txs S r i params) = r \<or>
      (\<exists>a cap. fst (handle_address_txs S r i params) = r\<lparr>rp_chain := snd (ac_chain_addr_txs (rp_chain r) a cap)\<rparr>)"
    by (auto simp: handle_address_txs_def split: option.splits prod.splits) (metis snd_conv)
  then show ?thesis by (elim disjE exE) (simp_all only: rpc_effect.nothing rpc_effect.history)
qed

lemma tx_submit_effect: "rpc_effect S io r (fst (handle_tx_submit S io r i params))"
proof (cases "\<exists>h bin tx. json_string params (cstr ''tx_hex'') 4096 = Some h \<and> length h div 2 \<le> AC_TX_MAX_BYTES \<and>
    ac_hex_decode (length h div 2) (Some (chars h)) = Some bin \<and> ac_tx_decode bin = Some tx")
  case True
  then obtain h bin tx where d: "json_string params (cstr ''tx_hex'') 4096 = Some h" "length h div 2 \<le> AC_TX_MAX_BYTES"
      "ac_hex_decode (length h div 2) (Some (chars h)) = Some bin" "ac_tx_decode bin = Some tx" by blast
  obtain rs mp where m: "ac_mempool_add S (rp_mempool r) (ch_state (rp_chain r)) tx (ac_chain_current_slot (rp_chain r) (io_now_ms io)) = (rs, mp)"
    by fastforce
  have "fst (handle_tx_submit S io r i params) =
         r\<lparr>rp_mempool := mp, rp_out := rp_out r @ (if rs = AC_MP_ACCEPTED \<and> rp_broadcast r then [bin] else [])\<rparr>"
    using d(2) by (simp add: handle_tx_submit_def d(1,3,4) m Let_def)
  then show ?thesis using rpc_effect.submit [OF d(4) m] by simp
next
  case False
  have "fst (handle_tx_submit S io r i params) = r"
  proof (cases "json_string params (cstr ''tx_hex'') 4096")
    case (Some h)
    then show ?thesis
      using False by (cases "ac_hex_decode (length h div 2) (Some (chars h))")
        (simp_all add: handle_tx_submit_def Let_def split: option.split)
  qed (simp add: handle_tx_submit_def)
  then show ?thesis by (simp add: rpc_effect.nothing)
qed

lemma method_effect: "rpc_effect S io r (fst (rpc_method S io r m i params))"
  unfolding rpc_method_def
  by (simp add: lookups_pure rpc_effect.nothing tx_get_effect address_txs_effect tx_submit_effect)

lemma client_effect: "rpc_effect S io r (fst (handle_client S io r es))"
proof -
  have "rpc_effect S io r (fst (rpc_body S io r body))" for body
    by (auto simp: rpc_body_def Let_def rpc_effect.nothing method_effect split: option.split)
  then show ?thesis by (simp add: handle_client_def Let_def rpc_effect.nothing split: prod.split option.split)
qed

text \<open>
  Claim C12. Whatever bytes a client sends, a request changes nothing but the indexes' sort flags and order, or it adds
  one transaction to the pool as admission does; the callback gets exactly the bytes of an accepted transaction.
\<close>

theorem request_effect: "rpc_effect S io r (fst (handle_client S io r es))"
  by (rule client_effect)

end
