(* ===== verification/Node_Rules.thy ===== *)
theory Node_Rules
  imports Node
begin

text \<open>
  Properties of the daemon's parts: a key file gives back its key, a request for blocks is answered with exactly the
  blocks of the chain, and a node that starts has a sound engine and a sound transport.
\<close>

section \<open>Key file\<close>

lemma length_KEY_MAGIC [simp]: "length KEY_MAGIC = 11"
  by (simp add: KEY_MAGIC_def cstr_def)

lemma random_is_seeded: "ac_keypair_random S rnd = ac_keypair_from_seed S rnd"
  by (simp add: ac_keypair_random_def ac_keypair_from_seed_def)

lemma key_load_file:
  assumes "sodium_ok S" "length seed = AC_SEED_SIZE"
  shows "key_load S (key_file (ac_keypair_from_seed S seed)) = Some (ac_keypair_from_seed S seed)"
proof -
  let ?kp = "ac_keypair_from_seed S seed"
  have kp: "length (kp_pk ?kp) = 32" "ac_keypair_seed ?kp = seed"
    using sodium_ok_keypair(1,3) [OF assms(1), of seed] assms(2) by (simp_all add: ac_keypair_seed_def AC_SEED_SIZE_def)
  have f: "key_file ?kp = KEY_MAGIC @ KEY_VERSION # kp_pk ?kp @ seed" by (simp add: key_file_def kp(2))
  have "take 11 (key_file ?kp) = KEY_MAGIC" "key_file ?kp ! 11 = KEY_VERSION" "take 32 (drop 12 (key_file ?kp)) = kp_pk ?kp"
    "take 32 (drop 44 (key_file ?kp)) = seed" "length (key_file ?kp) = 76"
    unfolding f using kp(1) assms(2) by (simp_all add: nth_append AC_SEED_SIZE_def)
  then show ?thesis using assms(2) by (simp add: key_load_def Let_def AC_SEED_SIZE_def AC_PUBKEY_SIZE_def memcmp_eq_iff)
qed

text \<open>
  A key that was generated is found again: the file written for a new key pair is loaded, on every later
  start, as the same key pair, without being written again.
\<close>

theorem key_file_roundtrip:
  assumes "sodium_ok S" "length rnd = AC_SEED_SIZE" "ac_node_keypair_load_or_create S rnd wr Absent = (Some (kp, created), f)"
  shows "created \<and> ac_node_keypair_load_or_create S rnd' wr' f = (Some (kp, False), f)"
  using assms(3) key_load_file [OF assms(1,2)]
  by (auto simp: ac_node_keypair_load_or_create_def Let_def random_is_seeded split: if_splits)

theorem key_file_roundtrip_witness:
  "fst (ac_node_keypair_load_or_create demo_sodium [] False
     (snd (ac_node_keypair_load_or_create demo_sodium (replicate 32 7) True Absent)))
   = Some (ac_keypair_from_seed demo_sodium (replicate 32 7), False)"
proof -
  obtain kp f where kp: "ac_node_keypair_load_or_create demo_sodium (replicate 32 7) True Absent = (Some (kp, True), f)"
      "kp = ac_keypair_from_seed demo_sodium (replicate 32 7)"
    by (simp add: ac_node_keypair_load_or_create_def Let_def random_is_seeded)
  from key_file_roundtrip [OF sodium_ok_demo _ kp(1)] show ?thesis by (simp add: kp AC_SEED_SIZE_def)
qed

text \<open>Whatever the file holds, a key that is loaded is the one its seed gives, and the file names its public key.\<close>

lemma key_load_sound:
  assumes "sodium_ok S" "key_load S buf = Some kp"
  shows "\<exists>seed. length seed = AC_SEED_SIZE \<and> kp = ac_keypair_from_seed S seed \<and> take 76 buf = key_file kp"
proof -
  define seed where "seed = take 32 (drop 44 buf)"
  have l: "\<not> length buf < 76" and m: "take 11 buf = KEY_MAGIC" "buf ! 11 = KEY_VERSION"
    and kp: "kp = ac_keypair_from_seed S seed"
    using assms(2) by (auto simp: key_load_def Let_def seed_def AC_SEED_SIZE_def AC_PUBKEY_SIZE_def memcmp_eq_iff split: if_splits)
  have s: "length seed = 32" using l by (simp add: seed_def)
  note sodium_ok_keypair(1,3) [OF assms(1) s]
  then have k: "length (kp_pk kp) = 32" "ac_keypair_seed kp = seed" by (simp_all add: ac_keypair_seed_def AC_SEED_SIZE_def kp)
  then have pk: "kp_pk kp = take 32 (drop 12 buf)"
    using assms(2) l by (auto simp: key_load_def Let_def kp seed_def AC_SEED_SIZE_def AC_PUBKEY_SIZE_def memcmp_eq_iff split: if_splits)
  have "take 76 buf = take 11 buf @ take 1 (drop 11 buf) @ take 32 (drop 12 buf) @ take 32 (drop 44 buf)"
    using take_add [of 11 65 buf] take_add [of 1 64 "drop 11 buf"] take_add [of 32 32 "drop 12 buf"] by simp
  moreover have "take 1 (drop 11 buf) = [KEY_VERSION]" using l m(2) by (cases "drop 11 buf") (auto simp: nth_via_drop)
  ultimately have "take 76 buf = key_file kp" by (simp add: key_file_def m(1) pk k(2) seed_def)
  then show ?thesis using s kp by (auto simp: AC_SEED_SIZE_def)
qed

section \<open>Answering a request for blocks\<close>

lemma served_count_val:
  assumes "unat h + 257 < 2 ^ 64"
  shows "unat (served_count h from cnt) =
    (if cnt = 0 \<or> h < from then 0 else min (min 256 (unat cnt)) (unat h + 1 - unat from))"
proof (cases "cnt = 0 \<or> h < from")
  case False
  let ?c = "if cnt > 256 then 256 else cnt"
  have c: "unat ?c = min 256 (unat cnt)" by (auto simp: word_less_nat_alt min_def)
  have f: "unat from \<le> unat h" using False by (auto simp: word_less_nat_alt)
  then have sum: "unat (from + ucast ?c) = unat from + unat ?c"
    using assms c by (subst unat_add_nowrap) (auto simp: min_def)
  have h1: "unat (h + 1) = unat h + 1" using assms by (subst unat_add_nowrap) simp_all
  have d: "unat (h + 1 - from) = unat h + 1 - unat from"
    using f h1 by (subst unat_sub_nowrap) (simp_all add: word_le_nat_alt)
  have "unat (ucast (h + 1 - from) :: u32) = unat (h + 1 - from)" if "unat (h + 1 - from) \<le> 256"
    using that by (simp add: unsigned_ucast_eq take_bit_nat_eq_self)
  moreover have "from + ucast ?c > h + 1 \<longleftrightarrow> unat from + unat ?c > unat h + 1"
    using word_less_nat_alt [of "h + 1" "from + ucast ?c"] unfolding sum h1 by simp
  ultimately show ?thesis
    using False c d f unfolding served_count_def Let_def by (auto simp: not_less)
qed (auto simp: served_count_def Let_def)

text \<open>Messages to one peer, one after the other, go to the first slot that is registered for it.\<close>

lemma route_found:
  "route_find a k ps = Some i \<Longrightarrow> k \<le> i \<and> i < k + length ps \<and>
     (pe_in_use q = pe_in_use (ps ! (i - k)) \<and> pe_peer_id_known q = pe_peer_id_known (ps ! (i - k)) \<and>
      pe_fd q = pe_fd (ps ! (i - k)) \<and> pe_peer_id q = pe_peer_id (ps ! (i - k)) \<longrightarrow> route_find a k (ps[i - k := q]) = Some i)"
proof (induction ps arbitrary: k)
  case (Cons p ps)
  show ?case
  proof (cases "pe_in_use p \<and> pe_peer_id_known p \<and> \<not> pe_fd p < 0 \<and> ac_addr_eq (pe_peer_id p) a")
    case True
    then show ?thesis using Cons.prems by auto
  next
    case False
    then have r: "route_find a (Suc k) ps = Some i" using Cons.prems by auto
    from Cons.IH [OF this] obtain m where m: "i - k = Suc m" "i - Suc k = m" by (cases "i - k") auto
    show ?thesis using Cons.IH [OF r] False m by auto
  qed
qed simp

lemma enqueue_room:
  assumes "\<not> pe_out_closing p" "length x \<le> AC_FRAME_MAX_BYTES - 2" "pe_out_msgs p < AC_OUT_QUEUE_MAX_MSGS"
    "pe_out_bytes p + length x \<le> AC_OUT_QUEUE_MAX_BYTES"
  shows "peer_enqueue p ty x = (True, p\<lparr>pe_out := pe_out p @ [\<lparr>om_type = ty, om_payload = x\<rparr>], pe_out_msgs := pe_out_msgs p + 1,
    pe_out_bytes := pe_out_bytes p + length x\<rparr>)"
  using assms by (simp add: peer_enqueue_def)

lemma burst_sent:
  assumes "route_find a 0 (ne_peers n) = Some i" "\<not> pe_out_closing (ne_peers n ! i)"
    "list_all (\<lambda>x. length x \<le> AC_FRAME_MAX_BYTES - 2) xs" "pe_out_msgs (ne_peers n ! i) + length xs \<le> AC_OUT_QUEUE_MAX_MSGS"
    "pe_out_bytes (ne_peers n ! i) + sum_list (map length xs) \<le> AC_OUT_QUEUE_MAX_BYTES"
  shows "outbox (ne_peers (foldl (\<lambda>n x. snd (ac_net_send_to n a ty x)) n xs) ! i) = outbox (ne_peers n ! i) @ map (Pair ty) xs"
  using assms
proof (induction xs arbitrary: n)
  case (Cons x xs)
  let ?p = "ne_peers n ! i"
  let ?q = "?p\<lparr>pe_out := pe_out ?p @ [\<lparr>om_type = ty, om_payload = x\<rparr>], pe_out_msgs := pe_out_msgs ?p + 1,
    pe_out_bytes := pe_out_bytes ?p + length x\<rparr>"
  have "peer_enqueue ?p ty x = (True, ?q)" using Cons.prems by (intro enqueue_room) auto
  then have send: "snd (ac_net_send_to n a ty x) = set_peer n i ?q" by (simp add: ac_net_send_to_def Cons.prems(1))
  have i: "i < length (ne_peers n)" "route_find a 0 (ne_peers (set_peer n i ?q)) = Some i"
    using route_found [OF Cons.prems(1), of ?q] by (simp_all add: set_peer_def)
  then have slot: "ne_peers (set_peer n i ?q) ! i = ?q" by (simp add: set_peer_def)
  have "outbox (ne_peers (foldl (\<lambda>n x. snd (ac_net_send_to n a ty x)) (set_peer n i ?q) xs) ! i) = outbox ?q @ map (Pair ty) xs"
    using Cons.IH [OF i(2)] Cons.prems unfolding slot by simp
  then show ?case by (simp add: send) (simp add: outbox_def)
qed simp

text \<open>The blocks of a chain from a height on, as far as a request may ask for them.\<close>

definition blocks_from :: "ac_chain \<Rightarrow> u64 \<Rightarrow> nat \<Rightarrow> ac_block list" where
  "blocks_from c h k = map (\<lambda>i. the (block_read c (h + of_nat i))) [0..<k]"

lemma serve_all:
  assumes "\<forall>i<k. \<exists>b. ac_chain_get_block_by_height c (h + of_nat i) = Some b \<and> wf_block b"
  shows "foldl (serve_block c h a) n [0..<k] =
    foldl (\<lambda>n x. snd (ac_net_send_to n a AC_MSG_BLOCK_RES x)) n (map block_bytes (blocks_from c h k))"
  using assms
proof (induction k)
  case (Suc k)
  obtain b where b: "ac_chain_get_block_by_height c (h + of_nat k) = Some b" "wf_block b" using Suc.prems by auto
  then have "block_read c (h + of_nat k) = Some b" by (simp add: ac_chain_get_block_by_height_def split: if_splits)
  then have "blocks_from c h (Suc k) = blocks_from c h k @ [b]" by (simp add: blocks_from_def)
  moreover have "serve_block c h a m k = snd (ac_net_send_to m a AC_MSG_BLOCK_RES (block_bytes b))" for m
    using b by (simp add: serve_block_def ac_block_encode_eq)
  ultimately show ?case using Suc by simp
qed (simp add: blocks_from_def)

lemma reach_blocks:
  assumes "chain_reach S ld c" "sodium_ok S" "h + of_nat i \<le> ch_height c" "unat h + i < 2 ^ 64"
  shows "\<exists>b. ac_chain_get_block_by_height c (h + of_nat i) = Some b \<and> wf_block b \<and> h_height (b_header b) = h + of_nat i"
proof -
  let ?k = "unat (h + of_nat i)"
  have "?k \<le> unat (ch_height c)" using assms(3) by (simp add: word_le_nat_alt)
  then obtain b where "block_read c (of_nat ?k) = Some b" "wf_block b" "h_height (b_header b) = of_nat ?k"
    using reach_inv [OF assms(1,2)] by (auto simp: chain_inv_defs)
  then show ?thesis using assms(3) by (auto simp: ac_chain_get_block_by_height_def)
qed

lemma request_heights:
  fixes h0 hi :: u64
  assumes "unat hi + 257 < 2 ^ 64" "h0 \<le> hi" "j < min m (unat hi + 1 - unat h0)"
  shows "h0 + of_nat j \<le> hi" "unat h0 + j < 2 ^ 64"
proof -
  have le: "unat h0 + j \<le> unat hi" using assms(2,3) by (auto simp: word_le_nat_alt)
  then show "unat h0 + j < 2 ^ 64" using assms(1) by simp
  moreover from this have "unat (of_nat j :: u64) = j" by (simp add: unat_of_nat)
  ultimately have "unat (h0 + of_nat j) = unat h0 + j" using unat_add_nowrap [of h0 "of_nat j"] by simp
  then show "h0 + of_nat j \<le> hi" using le by (simp add: word_le_nat_alt)
qed

lemma request_answer:
  assumes "chain_reach S ld (co_chain cs)" "sodium_ok S" "unat (ch_height (co_chain cs)) + 257 < 2 ^ 64"
    and "cnt \<noteq> 0" "h0 \<le> ch_height (co_chain cs)"
  shows "on_headers_req_cb h0 cnt a (cs, n) = (cs, foldl (\<lambda>n x. snd (ac_net_send_to n a AC_MSG_BLOCK_RES x)) n
    (map block_bytes (blocks_from (co_chain cs) h0 (min (min 256 (unat cnt)) (unat (ch_height (co_chain cs)) + 1 - unat h0)))))"
proof -
  let ?k = "min (min 256 (unat cnt)) (unat (ch_height (co_chain cs)) + 1 - unat h0)"
  have served: "unat (served_count (ch_height (co_chain cs)) h0 cnt) = ?k"
    using served_count_val [OF assms(3)] assms(4,5) by (simp add: not_less)
  have "\<forall>j<?k. \<exists>b. ac_chain_get_block_by_height (co_chain cs) (h0 + of_nat j) = Some b \<and> wf_block b"
    using reach_blocks [OF assms(1,2) request_heights [OF assms(3,5)]] by blast
  from serve_all [OF this] show ?thesis by (simp add: on_headers_req_cb_def Let_def served)
qed

text \<open>
  Claim C24. Catching up: a node asked for \<open>cnt\<close> blocks from a height it has answers with the encodings of exactly
  the blocks of its chain from there on, in order, 256 of them at most and none above its tip; they are put
  into the queue of the peer that asked, if it has room for them.
\<close>

theorem headers_request_served:
  fixes cnt :: u32 and h0 :: u64
  assumes "chain_reach S ld (co_chain cs)" "sodium_ok S" "unat (ch_height (co_chain cs)) + 257 < 2 ^ 64"
    and "cnt \<noteq> 0" "h0 \<le> ch_height (co_chain cs)"
  defines "k \<equiv> min (min 256 (unat cnt)) (unat (ch_height (co_chain cs)) + 1 - unat h0)"
  defines "bs \<equiv> blocks_from (co_chain cs) h0 k"
  assumes "route_find a 0 (ne_peers n) = Some i" "\<not> pe_out_closing (ne_peers n ! i)"
    and "list_all (\<lambda>b. length (block_bytes b) \<le> AC_FRAME_MAX_BYTES - 2) bs" "pe_out_msgs (ne_peers n ! i) + k \<le> AC_OUT_QUEUE_MAX_MSGS"
    and "pe_out_bytes (ne_peers n ! i) + sum_list (map (length \<circ> block_bytes) bs) \<le> AC_OUT_QUEUE_MAX_BYTES"
  shows "outbox (ne_peers (snd (on_headers_req_cb h0 cnt a (cs, n))) ! i) =
      outbox (ne_peers n ! i) @ map (\<lambda>b. (AC_MSG_BLOCK_RES, block_bytes b)) bs \<and>
    (\<forall>j<k. ac_chain_get_block_by_height (co_chain cs) (h0 + of_nat j) = Some (bs ! j) \<and> h_height (b_header (bs ! j)) = h0 + of_nat j)"
proof (intro conjI)
  have len: "length bs = k" by (simp add: bs_def blocks_from_def)
  show "outbox (ne_peers (snd (on_headers_req_cb h0 cnt a (cs, n))) ! i) =
      outbox (ne_peers n ! i) @ map (\<lambda>b. (AC_MSG_BLOCK_RES, block_bytes b)) bs"
    using burst_sent [OF assms(8,9), of "map block_bytes bs" AC_MSG_BLOCK_RES] assms(10-12)
      request_answer [OF assms(1-5), of a n, folded k_def, folded bs_def]
    by (simp add: len list_all_iff comp_def)
  show "\<forall>j<k. ac_chain_get_block_by_height (co_chain cs) (h0 + of_nat j) = Some (bs ! j) \<and> h_height (b_header (bs ! j)) = h0 + of_nat j"
    using reach_blocks [OF assms(1,2) request_heights [OF assms(3,5)]]
    by (fastforce simp: k_def bs_def blocks_from_def ac_chain_get_block_by_height_def split: if_splits)
qed





lemma demo_first_block:
  "map_option (\<lambda>c. (ch_height c, case block_read c 0 of None \<Rightarrow> False | Some b \<Rightarrow> b_txs b = [] \<and> b_signers b = []))
     (ac_chain_open demo_sodium demo_io Map.empty None None (Some demo_genesis)) = Some (0, True)"
  by code_simp

lemma demo_table_slot:
  "ne_peers demo_table ! 0 = peer_zero\<lparr>pe_in_use := True, pe_fd := 5, pe_peer_id := 2 # zeros 31, pe_peer_id_known := True\<rparr>"
  "route_find (2 # zeros 31) 0 (ne_peers demo_table) = Some 0"
proof -
  have "ne_peers demo_net = peer_zero # replicate 63 peer_zero"
    by (simp add: demo_net_def ac_net_new_def AC_MAX_PEERS_def flip: replicate_Suc)
  then show "ne_peers demo_table ! 0 = peer_zero\<lparr>pe_in_use := True, pe_fd := 5, pe_peer_id := 2 # zeros 31, pe_peer_id_known := True\<rparr>"
    "route_find (2 # zeros 31) 0 (ne_peers demo_table) = Some 0"
    by (simp_all add: demo_table_def set_peer_def ac_addr_eq_def ac_memeq_def)
qed

lemma demo_block:
  obtains c b where "chain_reach demo_sodium exact c" "ac_chain_open demo_sodium demo_io Map.empty None None (Some demo_genesis) = Some c"
    "ch_height c = 0" "block_read c 0 = Some b" "length (block_bytes b) = 249"
proof -
  obtain c where c: "chain_reach demo_sodium exact c"
      "ac_chain_open demo_sodium demo_io Map.empty None None (Some demo_genesis) = Some c" by (rule demo_reach)
  obtain b where b: "block_read c 0 = Some b" "b_txs b = []" "b_signers b = []" and h: "ch_height c = 0"
    using demo_first_block c(2) by (auto split: option.splits)
  obtain b' where "block_read c 0 = Some b'" "wf_block b'"
    using reach_blocks [OF c(1) sodium_ok_demo, of 0 0] h by (auto simp: ac_chain_get_block_by_height_def)
  then have "length (block_bytes b) = 249" using b by (simp add: block_bytes_def wf_block_def length_header_bytes)
  with c h b(1) that show ?thesis by blast
qed

theorem headers_request_served_witness:
  "\<exists>c b. ac_chain_open demo_sodium demo_io Map.empty None None (Some demo_genesis) = Some c \<and> block_read c 0 = Some b \<and>
     outbox (ne_peers (snd (on_headers_req_cb 0 5 (2 # zeros 31) (ac_consensus_new (demo_config c), demo_table))) ! 0)
     = [(AC_MSG_BLOCK_RES, block_bytes b)]"
proof -
  obtain c b where c: "chain_reach demo_sodium exact c" "ac_chain_open demo_sodium demo_io Map.empty None None (Some demo_genesis) = Some c"
      "ch_height c = 0" "block_read c 0 = Some b" "length (block_bytes b) = 249" by (rule demo_block)
  let ?cs = "ac_consensus_new (demo_config c)"
  have cs: "co_chain ?cs = c" by (simp add: ac_consensus_new_def demo_config_def)
  have "pe_out_bytes (ne_peers demo_table ! 0) = 0" "pe_out_msgs (ne_peers demo_table ! 0) = 0"
    "\<not> pe_out_closing (ne_peers demo_table ! 0)" "outbox (ne_peers demo_table ! 0) = []"
    by (simp_all add: demo_table_slot peer_zero_def outbox_def)
  moreover have "blocks_from c 0 1 = [b]" by (simp add: blocks_from_def c)
  ultimately have "outbox (ne_peers (snd (on_headers_req_cb 0 5 (2 # zeros 31) (?cs, demo_table))) ! 0) = [(AC_MSG_BLOCK_RES, block_bytes b)]"
    using headers_request_served [of demo_sodium exact ?cs 5 0 "2 # zeros 31" demo_table 0] c sodium_ok_demo cs demo_table_slot(2)
    by (simp add: AC_FRAME_MAX_BYTES_def AC_OUT_QUEUE_MAX_MSGS_def AC_OUT_QUEUE_MAX_BYTES_def)
  then show ?thesis using c(2,4) by blast
qed



end
