(* ===== verification/Cli_Rules.thy ===== *)
theory Cli_Rules
  imports Cli Rpc_Rules Node_Rules
begin

text \<open>
  Properties of the command line: the genesis file it writes is the one the node reads, the request of its client
  is one the server finds, and a submitted transaction reaches the pool of the server as it was signed.
\<close>

section \<open>Genesis files\<close>

definition genesis_text :: "ac_genesis \<Rightarrow> bytes" where
  "genesis_text g = genesis_head (g_chain_id g) (g_timestamp_ms g) @
     concat (map (\<lambda>a. account_text (hexb (ga_addr a), ga_balance a, ga_stake a)) (g_accounts g))"

lemma trim_word:
  assumes "l \<noteq> []" "\<not> blank (hd l)" "\<not> line_end (last l)"
  shows "trim (l @ [0x0a]) = l"
proof -
  have "dropWhile blank (l @ [0x0a]) = l @ [0x0a]" using assms(1,2) by (cases l) auto
  moreover have "dropWhile line_end (rev l) = rev l" using assms(1,3) by (cases l rule: rev_cases) auto
  ultimately show ?thesis by (simp add: trim_def line_end_def [of "0x0a"])
qed

lemma genesis_lines_step:
  assumes "0x0a \<notin> set l" "0 \<notin> set l" "length l < 511" "l = [] \<or> \<not> blank (hd l) \<and> \<not> line_end (last l)"
  shows "genesis_lines g (l @ 0x0a # rest) = (case genesis_line g l of None \<Rightarrow> None | Some g \<Rightarrow> genesis_lines g rest)"
proof -
  have "takeWhile (\<lambda>b. b \<noteq> 0x0a) (l @ 0x0a # rest) = l" using assms(1) by (induction l) auto
  then have f: "fgets 512 (l @ 0x0a # rest) = (l @ [0x0a], rest)" using assms(3) by (simp add: fgets_def Let_def)
  have "c_string (l @ [0x0a]) = l @ [0x0a]" using assms(2) by (intro c_string_all) simp
  moreover have "trim (l @ [0x0a]) = l"
    using assms(4) trim_word [of l] by (cases "l = []") (auto simp: trim_def line_end_def)
  ultimately show ?thesis by (subst genesis_lines.simps) (simp add: f)
qed

lemma dec_ends:
  fixes x :: "'a::len word"
  shows "dec x \<noteq> []" "\<not> line_end (last (dec x))" "0x0a \<notin> set (dec x)" "0x3a \<notin> set (dec x)" "0x20 \<notin> set (dec x)"
proof -
  show n: "dec x \<noteq> []" by (simp add: dec_def decimal_not_Nil)
  then have "is_digit (last (dec x))" using decimal_chars [OF last_in_set] by (simp add: dec_def)
  then show "\<not> line_end (last (dec x))" by (auto simp: is_digit_def line_end_def blank_def word_le_nat_alt)
  show "0x0a \<notin> set (dec x)" "0x3a \<notin> set (dec x)" "0x20 \<notin> set (dec x)"
    by (auto simp: dec_def dest!: decimal_chars) (simp_all add: is_digit_def)
qed

lemma genesis_head_lines:
  "genesis_lines g (genesis_head cid ts @ rest) = genesis_lines (g\<lparr>g_chain_id := cid, g_timestamp_ms := ts\<rparr>) rest"
proof -
  have v: "strtoull (0x20 # dec n) = n" for n :: u64 using strtoull_decimal(2) [of "[]" n] by (simp add: dec_def)
  have c: "genesis_line g (cstr ''chain_id     = '' @ dec cid) = Some (g\<lparr>g_chain_id := cid\<rparr>)" for g
    using v by (simp add: genesis_line_def cstr_def after_eq_def)
  have t: "genesis_line g (cstr ''timestamp_ms = '' @ dec ts) = Some (g\<lparr>g_timestamp_ms := ts\<rparr>)" for g
    using v by (simp add: genesis_line_def cstr_def after_eq_def)
  have h: "genesis_line g (cstr ''# AgentChain genesis configuration'') = Some g" "genesis_line g [] = Some g" for g
    by (simp_all add: genesis_line_def cstr_def)
  have l: "length (dec n) \<le> 20" for n :: u64 by (rule dec_length)
  have s1: "genesis_lines g (cstr ''# AgentChain genesis configuration'' @ 0x0a # r) = genesis_lines g r" for r
    by (subst genesis_lines_step) (simp_all add: h, simp_all add: cstr_def blank_def line_end_def)
  have s2: "genesis_lines g (cstr ''chain_id     = '' @ dec cid @ 0x0a # r) = genesis_lines (g\<lparr>g_chain_id := cid\<rparr>) r" for r
    using genesis_lines_step [of "cstr ''chain_id     = '' @ dec cid" g r] l [of cid] dec_ends [of cid]
    by (simp add: c) (simp add: cstr_def blank_def)
  have s3: "genesis_lines g (cstr ''timestamp_ms = '' @ dec ts @ 0x0a # r) = genesis_lines (g\<lparr>g_timestamp_ms := ts\<rparr>) r" for g r
    using genesis_lines_step [of "cstr ''timestamp_ms = '' @ dec ts" g r] l [of ts] dec_ends [of ts]
    by (simp add: t) (simp add: cstr_def blank_def)
  have s4: "genesis_lines g (0x0a # r) = genesis_lines g r" for g r using genesis_lines_step [of "[]" g r] by (simp add: h)
  show ?thesis by (simp add: genesis_head_def s1 s2 s3 s4)
qed

lemma account_text_line:
  assumes "wf_addr a"
  shows "genesis_lines g (account_text (hexb a, bal, stake) @ rest) =
    genesis_lines (g\<lparr>g_accounts := g_accounts g @ [\<lparr>ga_addr = a, ga_balance = bal, ga_stake = stake\<rparr>]\<rparr>) rest"
proof -
  let ?l = "cstr ''account '' @ hexb a @ [0x20] @ dec bal @ [0x20] @ dec stake"
  have len: "length (hexb a) = 64" "length a = AC_PUBKEY_SIZE" using assms by (simp_all add: wf)
  have "\<forall>b\<in>set (hexb a). \<not> is_space b" by (auto dest!: hexb_chars) (auto simp: hex_digit_def is_digit_def is_space_def word_le_nat_alt)
  moreover have "hexb a \<noteq> []" using len(1) by (cases "hexb a") simp_all
  ultimately have "scan_s 64 (0x20 # hexb a @ 0x20 # r) = Some (hexb a, 0x20 # r)" for r
    using scan_s_word [of "hexb a" 64] len(1) by simp
  moreover have "drop 7 ?l = 0x20 # hexb a @ 0x20 # dec bal @ 0x20 # dec stake" by (simp add: cstr_def)
  moreover have "scan_u64 (0x20 # dec n @ 0x20 # r) = Some (n, 0x20 # r)" "scan_u64 (0x20 # dec n) = Some (n, [])" for n :: u64 and r
    using scan_u64_decimal(1) [of "0x20 # r" n] scan_u64_decimal(1) [of "[]" n] by (simp_all add: dec_def)
  moreover have "ac_hex_decode AC_PUBKEY_SIZE (Some (ac_hex_encode a)) = Some a"
    using ac_hex_roundtrip [of a] len(2) by simp
  ultimately have "account_line ?l = Some \<lparr>ga_addr = a, ga_balance = bal, ga_stake = stake\<rparr>"
    by (simp add: account_line_def AC_PUBKEY_SIZE_def)
  moreover have "genesis_line g ?l = map_option (\<lambda>a. g\<lparr>g_accounts := g_accounts g @ [a]\<rparr>) (account_line ?l)"
    unfolding genesis_line_def by (simp add: cstr_def)
  ultimately have "genesis_line g ?l = Some (g\<lparr>g_accounts := g_accounts g @ [\<lparr>ga_addr = a, ga_balance = bal, ga_stake = stake\<rparr>]\<rparr>)" by simp
  moreover have "0x0a \<notin> set (hexb a)" by (auto dest!: hexb_chars simp: hex_digit_def)
  ultimately show ?thesis
    using genesis_lines_step [of ?l g rest] len dec_length(1) [of bal] dec_length(1) [of stake] dec_ends [of bal] dec_ends [of stake]
    by (simp add: account_text_def) (simp add: cstr_def blank_def)
qed

lemma account_texts:
  assumes "list_all (\<lambda>a. wf_addr (ga_addr a)) as"
  shows "genesis_lines g (concat (map (\<lambda>a. account_text (hexb (ga_addr a), ga_balance a, ga_stake a)) as))
    = Some (g\<lparr>g_accounts := g_accounts g @ as\<rparr>)"
  using assms
proof (induction as arbitrary: g)
  case Nil
  then show ?case by (subst genesis_lines.simps) simp
next
  case (Cons a as)
  have "\<lparr>ga_addr = ga_addr a, ga_balance = ga_balance a, ga_stake = ga_stake a\<rparr> = a" by simp
  then show ?case using Cons by (simp add: account_text_line)
qed

lemma genesis_text_loads:
  assumes "list_all (\<lambda>a. wf_addr (ga_addr a)) (g_accounts g)" "g_chain_id g \<noteq> 0" "g_timestamp_ms g \<noteq> 0"
  shows "ac_node_load_genesis (Content (genesis_text g)) = Some g"
  using assms by (simp add: ac_node_load_genesis_def genesis_text_def genesis_head_lines account_texts)

definition spec_of :: "ac_genesis_account \<Rightarrow> bytes" where
  "spec_of a = hexb (ga_addr a) @ 0x3a # dec (ga_balance a) @ 0x3a # dec (ga_stake a)"

definition genesis_args :: "bytes \<Rightarrow> bytes \<Rightarrow> ac_genesis \<Rightarrow> bytes list" where
  "genesis_args cmd out g =
     [cmd, cstr ''--chain-id'', dec (g_chain_id g), cstr ''--out'', out, cstr ''--timestamp-ms'', dec (g_timestamp_ms g)] @
     concat (map (\<lambda>a. [cstr ''--account'', spec_of a]) (g_accounts g))"

lemma account_spec_of:
  assumes "wf_addr (ga_addr a)"
  shows "account_spec (spec_of a) = Some (hexb (ga_addr a), ga_balance a, ga_stake a)"
proof -
  have h: "0x3a \<notin> set (hexb (ga_addr a))" by (auto dest!: hexb_chars simp: hex_digit_def is_digit_def)
  have len: "length (hexb (ga_addr a)) = 64" using assms by (simp add: wf)
  have "takeWhile (\<lambda>b. b \<noteq> 0x3a) (l @ 0x3a # r) = l" if "0x3a \<notin> set l" for l r :: bytes using that by (induction l) auto
  from this [OF h] have "take 127 (takeWhile (\<lambda>b. b \<noteq> 0x3a) (spec_of a)) = hexb (ga_addr a)" using len by (simp add: spec_of_def)
  moreover have "hexb (ga_addr a) \<noteq> []" using len by (cases "hexb (ga_addr a)") simp_all
  moreover have "scan_u64 (dec n @ 0x3a # r) = Some (n, 0x3a # r)" "scan_u64 (dec n) = Some (n, [])" for n :: u64 and r
    using scan_u64_decimal(2) [of "0x3a # r" n] scan_u64_decimal(2) [of "[]" n] by (simp_all add: dec_def is_digit_def)
  ultimately show ?thesis by (simp add: account_spec_def Let_def) (simp add: spec_of_def)
qed

lemma account_skip: "x \<noteq> cstr ''--account'' \<Longrightarrow> account_lines (x # r) = account_lines r"
  by (cases r) simp_all

lemma opt_skip: "x \<noteq> name \<Longrightarrow> opt_scan (x # r) name = opt_scan r name"
  by (cases r) simp_all

text \<open>The values are no options.\<close>

definition plain :: "bytes \<Rightarrow> bool" where
  "plain t \<longleftrightarrow> t = [] \<or> hd t \<noteq> 0x2d"

lemma plain_not: "plain t \<Longrightarrow> t \<noteq> cstr (CHR ''-'' # s)"
  by (auto simp: plain_def cstr_def)

lemma plain_values:
  fixes n :: "'a::len word"
  shows "plain (dec n)" "plain (spec_of a)"
proof -
  have "hd (dec n) \<noteq> 0x2d" using decimal_Cons [of "unat n"] by (auto simp: dec_def is_digit_def)
  then show "plain (dec n)" by (simp add: plain_def)
  have "hd (hexb (ga_addr a)) \<noteq> 0x2d" if "hexb (ga_addr a) \<noteq> []"
    using hexb_chars [OF hd_in_set [OF that]] by (auto simp: hex_digit_def is_digit_def)
  then show "plain (spec_of a)" by (cases "hexb (ga_addr a)") (auto simp: plain_def spec_of_def)
qed

lemma account_lines_specs:
  assumes "list_all (\<lambda>a. wf_addr (ga_addr a)) as"
  shows "account_lines (concat (map (\<lambda>a. [cstr ''--account'', spec_of a]) as)) =
    (True, concat (map (\<lambda>a. account_text (hexb (ga_addr a), ga_balance a, ga_stake a)) as))"
  using assms by (induction as) (simp_all add: account_spec_of account_skip plain_not [OF plain_values(2)])

text \<open>
  Claim C22. The genesis file that the command line writes for any list of accounts is read by the node as exactly the
  genesis it was asked for: the same chain id, timestamp, and accounts in the same order with their balances and stakes.
\<close>

theorem genesis_roundtrip:
  assumes "list_all (\<lambda>a. wf_addr (ga_addr a)) (g_accounts g)" "g_chain_id g \<noteq> 0" "g_timestamp_ms g \<noteq> 0" "plain out"
  shows "\<exists>text. cmd_genesis now True (genesis_args cmd out g) = (0, Some text) \<and> ac_node_load_genesis (Content text) = Some g"
proof -
  have v: "strtoull (dec n) = n" for n :: u64 using strtoull_decimal(1) [of "[]" n] by (simp add: dec_def)
  note p = plain_not [OF plain_values(1)] plain_not [OF plain_values(2)] plain_not [OF assms(4)]
  have ne: "cstr ''--chain-id'' \<noteq> cstr ''--account''" "cstr ''--out'' \<noteq> cstr ''--account''" "cstr ''--timestamp-ms'' \<noteq> cstr ''--account''"
      "cstr ''--chain-id'' \<noteq> cstr ''--out''" "cstr ''--chain-id'' \<noteq> cstr ''--timestamp-ms''" "cstr ''--out'' \<noteq> cstr ''--timestamp-ms''"
    by (simp_all add: cstr_def)
  have o: "get_opt (genesis_args cmd out g) ''--chain-id'' = Some (dec (g_chain_id g))"
      "get_opt (genesis_args cmd out g) ''--out'' = Some out"
      "get_opt (genesis_args cmd out g) ''--timestamp-ms'' = Some (dec (g_timestamp_ms g))"
    by (simp_all add: get_opt_def genesis_args_def opt_skip p ne)
  have "account_lines (tl (genesis_args cmd out g)) =
      (True, concat (map (\<lambda>a. account_text (hexb (ga_addr a), ga_balance a, ga_stake a)) (g_accounts g)))"
    by (simp add: genesis_args_def account_skip p ne account_lines_specs [OF assms(1)])
  then have "cmd_genesis now True (genesis_args cmd out g) = (0, Some (genesis_text g))"
    by (simp add: cmd_genesis_def o v genesis_text_def)
  then show ?thesis using genesis_text_loads [OF assms(1-3)] by blast
qed

definition demo_started :: ac_genesis where
  "demo_started = demo_genesis\<lparr>g_timestamp_ms := 1\<rparr>"

theorem genesis_roundtrip_witness:
  "\<exists>text. cmd_genesis 0 True (genesis_args (cstr ''genesis'') (cstr ''g.txt'') demo_started) = (0, Some text) \<and>
     ac_node_load_genesis (Content text) = Some demo_started"
  using genesis_roundtrip [of demo_started "cstr ''g.txt''" 0 "cstr ''genesis''"]
  by (simp add: demo_started_def demo_genesis_def wf plain_def cstr_def)

definition mainnet :: ac_genesis where
  "mainnet = \<lparr>g_chain_id = 1, g_timestamp_ms = 1779397200000, g_accounts =
    [\<lparr>ga_addr = [0x4b, 0xfe, 0x9f, 0xb5, 0xea, 0x49, 0xf0, 0x0b, 0xf3, 0xc7, 0x8f, 0xb9, 0xe9, 0x79, 0x22, 
       0x3e, 0xe5, 0xfa, 0x63, 0x07, 0x43, 0xbe, 0xfc, 0x5c, 0x1f, 0x56, 0x86, 0xac, 0x92, 0x3b, 0xf7, 0x9a], ga_balance = 39997000000000, ga_stake = 1000000000\<rparr>,
     \<lparr>ga_addr = [0x69, 0xf0, 0x2a, 0x87, 0xd9, 0x4d, 0x8e, 0x1b, 0xa7, 0x6e, 0xa4, 0xee, 0x37, 0x4b, 0x53, 
       0x58, 0xea, 0x47, 0x82, 0xd6, 0xf4, 0x24, 0x9f, 0xbd, 0x87, 0x31, 0xe9, 0xb4, 0xac, 0x86, 0x3a, 0x9e], ga_balance = 500000000, ga_stake = 500000000\<rparr>,
     \<lparr>ga_addr = [0x89, 0xdf, 0xe2, 0x43, 0xa9, 0x31, 0x65, 0x9d, 0xd4, 0xf0, 0xd7, 0x1b, 0x68, 0x11, 0x07, 
       0x11, 0x26, 0x2a, 0xf7, 0xdc, 0xb5, 0x8a, 0x05, 0x3a, 0x9e, 0x91, 0x35, 0xea, 0x45, 0x4f, 0xa4, 0xfd], ga_balance = 500000000, ga_stake = 500000000\<rparr>]\<rparr>"

lemma mainnet_hex:
  shows "hexb [0x4b, 0xfe, 0x9f, 0xb5, 0xea, 0x49, 0xf0, 0x0b, 0xf3, 0xc7, 0x8f, 0xb9, 0xe9, 0x79, 0x22, 
       0x3e, 0xe5, 0xfa, 0x63, 0x07, 0x43, 0xbe, 0xfc, 0x5c, 0x1f, 0x56, 0x86, 0xac, 0x92, 0x3b, 0xf7, 0x9a] = cstr ''4bfe9fb5ea49f00bf3c78fb9e979223ee5fa630743befc5c1f5686ac923bf79a''"
    and "hexb [0x69, 0xf0, 0x2a, 0x87, 0xd9, 0x4d, 0x8e, 0x1b, 0xa7, 0x6e, 0xa4, 0xee, 0x37, 0x4b, 0x53, 
       0x58, 0xea, 0x47, 0x82, 0xd6, 0xf4, 0x24, 0x9f, 0xbd, 0x87, 0x31, 0xe9, 0xb4, 0xac, 0x86, 0x3a, 0x9e] = cstr ''69f02a87d94d8e1ba76ea4ee374b5358ea4782d6f4249fbd8731e9b4ac863a9e''"
    and "hexb [0x89, 0xdf, 0xe2, 0x43, 0xa9, 0x31, 0x65, 0x9d, 0xd4, 0xf0, 0xd7, 0x1b, 0x68, 0x11, 0x07, 
       0x11, 0x26, 0x2a, 0xf7, 0xdc, 0xb5, 0x8a, 0x05, 0x3a, 0x9e, 0x91, 0x35, 0xea, 0x45, 0x4f, 0xa4, 0xfd] = cstr ''89dfe243a931659dd4f0d71b68110711262af7dcb58a053a9e9135ea454fa4fd''"
  by code_simp+

lemma mainnet_dec:
  "dec (1 :: u64) = cstr ''1''" "dec (1779397200000 :: u64) = cstr ''1779397200000''" "dec (39997000000000 :: u64) = cstr ''39997000000000''"
  "dec (1000000000 :: u64) = cstr ''1000000000''" "dec (500000000 :: u64) = cstr ''500000000''"
  by (simp_all add: dec_def cstr_def decimal.simps)

text \<open>
  A node without a genesis file of its own starts on the main network: the built-in text is read as chain 1
  with three accounts, distinct addresses and 40000000000000 units in balances and stakes together.
\<close>

theorem mainnet_genesis:
  "\<exists>g. ac_node_load_genesis (Content AC_MAINNET_GENESIS) = Some g \<and> wf_genesis g \<and> g_chain_id g = 1 \<and> length (g_accounts g) = 3 \<and>
     sum_list (map (\<lambda>a. unat (ga_balance a) + unat (ga_stake a)) (g_accounts g)) = 40000000000000"
proof -
  have "AC_MAINNET_GENESIS = genesis_text mainnet"
    by (simp add: AC_MAINNET_GENESIS_def genesis_text_def mainnet_def genesis_head_def account_text_def mainnet_hex mainnet_dec)
      (simp add: cstr_def)
  moreover have "wf_genesis mainnet" by (simp add: wf_genesis_def mainnet_def wf)
  ultimately show ?thesis
    using genesis_text_loads [of mainnet] by (simp add: wf_genesis_def) (simp add: mainnet_def)
qed

section \<open>The client's requests\<close>

definition line_ok :: "bytes \<Rightarrow> bool" where
  "line_ok t \<longleftrightarrow> 0 \<notin> set t \<and> 0x0d \<notin> set t"

lemma length_header: "length (http_header_text ua host body) = length ua + length host + length (decimal (length body)) + 110"
  by (simp add: http_header_text_def cstr_def crlf_def)

lemma http_header_ok:
  assumes "line_ok ua" "line_ok host" "length body < 2 ^ 64"
  shows "head_ok (http_header_text ua host body) (length body)"
proof -
  let ?h = "http_header_text ua host body"
  let ?p = "cstr ''POST / HTTP/1.1''" and ?o = "cstr ''Host: '' @ host" and ?t = "cstr ''Content-Type: application/json''"
    and ?u = "cstr ''User-Agent: '' @ ua" and ?c = "cstr ''Content-Length: '' @ decimal (length body)" and ?e = "cstr ''Connection: close''"
  have h: "?h = ?p @ crlf @ ?o @ crlf @ ?t @ crlf @ ?u @ crlf @ ?c @ crlf @ ?e @ crlf @ crlf" by (simp add: http_header_text_def)
  have l: "0x0d \<notin> set ?p" "?p \<noteq> []" "0x0d \<notin> set ?o" "?o \<noteq> []" "0x0d \<notin> set ?t" "?t \<noteq> []" "0x0d \<notin> set ?u" "?u \<noteq> []"
      "0x0d \<notin> set ?c" "?c \<noteq> []" "0x0d \<notin> set ?e" "?e \<noteq> []"
    using assms(1,2) by (simp_all add: cstr_def line_ok_def)
  have n: "map tolower (take (length NEEDLE) ?p) \<noteq> NEEDLE" "map tolower (take (length NEEDLE) ?o) \<noteq> NEEDLE"
      "map tolower (take (length NEEDLE) ?t) \<noteq> NEEDLE" "map tolower (take (length NEEDLE) ?u) \<noteq> NEEDLE"
    by (simp_all add: NEEDLE_def cstr_def tolower_def)
  have "content_length (?h @ x) = of_nat (length body)" for x
  proof -
    have "map tolower (take (length NEEDLE) ?c) = NEEDLE" "length NEEDLE \<le> length ?c" "drop (length NEEDLE) ?c = 0x20 # decimal (length body)"
      by (simp_all add: NEEDLE_def cstr_def tolower_def word_le_nat_alt)
    moreover have "length ?c < 64" using decimal_length [of "length body" 20] assms(3) by (simp add: cstr_def)
    moreover have "strtoull (0x20 # decimal (length body) @ crlf @ y) = of_nat (length body)" for y
      using strtoull_decimal(2) [of "crlf @ y" "of_nat (length body)"] assms(3) by (simp add: unat_of_nat crlf_def)
    ultimately show ?thesis
      unfolding h append_assoc
      by (simp only: content_length_line [OF l(1)] content_length_line [OF l(5)] n if_False simp_thms
          content_length_line [OF l(3), unfolded append_assoc] content_length_line [OF l(7), unfolded append_assoc])
        (simp add: content_length_line [OF l(9), unfolded append_assoc])
  qed
  moreover have "strstr (crlf @ crlf) (?h @ x) = Some (crlf @ crlf @ x)" for x
    using empty_line_skip(2) [OF l(1,2)] empty_line_skip(1) [OF l(3,4)] empty_line_skip(1) [OF l(5,6)] empty_line_skip(1) [OF l(7,8)]
      empty_line_skip(1) [OF l(9,10)] empty_line_skip(1) [OF l(11,12)] strstr_here [of "crlf @ crlf" x]
    by (simp add: h)
  moreover have "0 \<notin> set ?h" "prefix (cstr ''POST'') ?h" using assms(1,2) by (simp_all add: h cstr_def crlf_def line_ok_def)
  ultimately show ?thesis by (simp add: head_ok_def)
qed

lemma http_body_after:
  assumes "0 \<notin> set (h @ t)" "strstr (crlf @ crlf) (h @ t) = Some (crlf @ crlf @ t)" "4 \<le> length h"
  shows "http_body (h @ t) = t"
proof -
  have "length (h @ t) - length (crlf @ crlf @ t) + 4 = length h" using assms(3) by (simp add: crlf_def)
  moreover have "c_string t = t" using assms(1) by (intro c_string_all) simp
  ultimately show ?thesis by (simp add: http_body_def Let_def c_string_all [OF assms(1)] assms(2) del: length_append)
qed

lemma response_read:
  assumes "0 \<notin> set t" "length t + 192 \<le> cap" "cap \<le> 8192"
  shows "http_body (take (cap - 1) (send_response 200 t)) = t"
proof -
  let ?s = "cstr ''HTTP/1.1 200 OK''" and ?e = "cstr ''Server: AgentChain-Engine''" and ?t = "cstr ''Content-Type: application/json''"
    and ?c = "cstr ''Content-Length: '' @ decimal (length t)" and ?n = "cstr ''Connection: close''"
  let ?h = "?s @ crlf @ ?e @ crlf @ ?t @ crlf @ ?c @ crlf @ ?n @ crlf @ crlf"
  have "decimal 200 = cstr ''200''" by (simp add: decimal.simps cstr_def)
  then have r: "send_response 200 t = ?h @ t" by (simp add: send_response_def cstr_def)
  have "length (decimal (length t)) \<le> 4" using assms(2,3) by (intro decimal_length) simp_all
  then have f: "take (cap - 1) (?h @ t) = ?h @ t" using assms(2) by (simp add: cstr_def crlf_def)
  have z: "0 \<notin> set (?h @ t)" using assms(1) by (simp add: cstr_def crlf_def)
  have l: "0x0d \<notin> set ?s" "?s \<noteq> []" "0x0d \<notin> set ?e" "?e \<noteq> []" "0x0d \<notin> set ?t" "?t \<noteq> []" "0x0d \<notin> set ?c" "?c \<noteq> []"
      "0x0d \<notin> set ?n" "?n \<noteq> []"
    by (simp_all add: cstr_def)
  have p: "strstr (crlf @ crlf) (?h @ t) = Some (crlf @ crlf @ t)"
    using empty_line_skip(2) [OF l(1,2)] empty_line_skip(1) [OF l(3,4)] empty_line_skip(1) [OF l(5,6)] empty_line_skip(1) [OF l(7,8)]
      empty_line_skip(1) [OF l(9,10)] strstr_here [of "crlf @ crlf" t] by simp
  have "4 \<le> length ?h" by (simp add: cstr_def)
  from http_body_after [OF z p this] show ?thesis unfolding r f .
qed

text \<open>The server at the other end of the client's connection; \<open>frag\<close> is how the stream is cut into pieces on its way.\<close>

definition serve :: "sodium \<Rightarrow> ac_io \<Rightarrow> (bytes \<Rightarrow> bytes list) \<Rightarrow> bytes \<Rightarrow> u16 \<Rightarrow> (bytes \<Rightarrow> ac_rpc \<Rightarrow> bytes option \<times> ac_rpc) option" where
  "serve S io frag host port = Some (\<lambda>req r. case handle_client S io r (pieces (frag req)) of (r, out) \<Rightarrow> (Some out, r))"

definition frag_ok :: "(bytes \<Rightarrow> bytes list) \<Rightarrow> bool" where
  "frag_ok frag \<longleftrightarrow> (\<forall>x. concat (frag x) = x \<and> list_all (\<lambda>b. b \<noteq> []) (frag x))"

definition url_ok :: "bytes \<Rightarrow> bytes \<Rightarrow> bool" where
  "url_ok ua url \<longleftrightarrow> \<not> prefix (cstr ''https://'') url \<and> line_ok ua \<and> line_ok (fst (rpc_host (strip_scheme url))) \<and>
     length ua + length (fst (rpc_host (strip_scheme url))) < 126"

lemma exchange:
  assumes "url_ok ua url" "frag_ok frag" "0 \<notin> set body" "length body < 60000"
    and "rpc_body S io r body = (r', send_response 200 t)" "0 \<notin> set t" "length t + 192 \<le> cap" "cap \<le> 8192"
  shows "rpc_call ua (serve S io frag) curl url body cap r = Some (Some t, r')"
proof -
  obtain host port where hp: "rpc_host (strip_scheme url) = (host, port)" by fastforce
  have u: "line_ok ua" "line_ok host" "length ua + length host < 126" using assms(1) hp by (simp_all add: url_ok_def)
  let ?h = "http_header_text ua host body"
  have d: "length (decimal (length body)) \<le> 5" using assms(4) by (intro decimal_length) simp_all
  then have h: "http_header ua host body = Some ?h" using u(3) length_header [of ua host body] by (simp add: http_header_def Let_def)
  have "length (?h @ body) < REQ_BUF" using assms(4) d u(3) by (simp add: length_header REQ_BUF_def)
  then have "handle_client S io r (pieces (frag (?h @ body))) = rpc_body S io r body"
    using http_header_ok [OF u(1,2)] assms(2-4) by (intro request_found) (simp_all add: frag_ok_def)
  then show ?thesis
    using assms(1,5) h response_read [OF assms(6-8)] by (simp add: rpc_call_def url_ok_def hp http_post_native_def serve_def)
qed

section \<open>Reading JSON\<close>

lemma sep_simps [simp]: "json_sep 0x3a" "\<not> json_sep 0x22"
  by (simp_all add: json_sep_def)

lemma digit_not_sep: "is_digit b \<Longrightarrow> \<not> json_sep b"
  by (auto simp: json_sep_def is_digit_def word_le_nat_alt)

lemma dec_not_sep: "dropWhile json_sep (dec n @ rest) = dec n @ rest" "\<exists>b m. dec n = b # m \<and> is_digit b"
  using decimal_Cons [of "unat n"] by (auto simp: dec_def digit_not_sep)

lemma json_string_found:
  assumes "strstr (quoted name) body = Some (quoted name @ 0x3a # 0x22 # v @ 0x22 # rest)" "length name < 61"
    and "0x22 \<notin> set v" "length v < cap"
  shows "json_string body name cap = Some v"
proof -
  have "snprintf 64 (quoted name) = quoted name" using assms(2) by (intro snprintf_fits) (simp add: quoted_def)
  then have "json_key body name = Some (0x22 # v @ 0x22 # rest)" using assms(1) by (simp add: json_key_def)
  moreover have "takeWhile (\<lambda>b. b \<noteq> 0x22) (v @ 0x22 # rest) = v" using assms(3) by (induction v) auto
  ultimately show ?thesis using assms(4) by (simp add: json_string_def Let_def)
qed

lemma json_uint_found:
  assumes "strstr (quoted (cstr name)) body = Some (quoted (cstr name) @ 0x3a # dec n @ rest)" "length name < 61" "ends_number rest"
  shows "json_get_uint64 body name = Some n"
proof -
  have "snprintf 64 (quoted (cstr name)) = quoted (cstr name)" using assms(2) by (intro snprintf_fits) (simp add: quoted_def cstr_def)
  then show ?thesis
    using assms(1) dec_not_sep [of n] strtoull_decimal(1) [OF assms(3), of n]
    by (auto simp: json_get_uint64_def Let_def) (auto simp: dec_def)
qed

lemma json_hex_found:
  assumes "strstr (quoted (cstr name)) body = Some (quoted (cstr name) @ 0x3a # 0x22 # hexb h @ 0x22 # rest)" "length name < 61"
    and "h \<noteq> []" "2 * length h < cap"
  shows "json_get_hex body name cap = Some (hexb h)"
proof -
  have "snprintf 64 (quoted (cstr name)) = quoted (cstr name)" using assms(2) by (intro snprintf_fits) (simp add: quoted_def cstr_def)
  moreover have "dropWhile (\<lambda>b. json_sep b \<or> b = 0x22) (hexb h @ r) = hexb h @ r" for r
  proof -
    obtain b m where b: "hexb h = b # m" using assms(3) length_hexb [of h] by (cases "hexb h") auto
    then have "hex_digit b" using hexb_chars [of b h] by simp
    then have "\<not> json_sep b \<and> b \<noteq> 0x22" by (auto simp: hex_digit_def json_sep_def is_digit_def word_le_nat_alt)
    then show ?thesis using b by simp
  qed
  moreover have "takeWhile (\<lambda>b. b \<noteq> 0x22) (v @ 0x22 # rest) = v" if "0x22 \<notin> set v" for v using that by (induction v) auto
  ultimately show ?thesis using assms(1,4) by (simp add: json_get_hex_def Let_def)
qed

text \<open>Searching for a key passes over numbers and over strings of hexadecimal digits.\<close>

lemma skip_value:
  "strstr (0x22 # pat) (dec n @ rest) = strstr (0x22 # pat) rest" "strstr (0x22 # pat) (hexb h @ rest) = strstr (0x22 # pat) rest"
  by (simp_all add: strstr_skip)

lemma key_not_hex: "\<not> hex_digit c \<Longrightarrow> c \<noteq> 0x22 \<Longrightarrow> \<not> prefix (c # pat) (hexb h @ 0x22 # rest)"
  using hexb_chars [of "hd (hexb h)" h] by (cases "hexb h") auto

lemma not_hex: "\<not> hex_digit 0x67" "\<not> hex_digit 0x6e" "\<not> hex_digit 0x68" "\<not> hex_digit 0x74"
  by (simp_all add: hex_digit_def is_digit_def)

lemma snprintf_length: "0 < cap \<Longrightarrow> length (snprintf cap t) < cap"
  by (simp add: snprintf_def)

section \<open>Answers\<close>

lemma result_text:
  assumes "length json < 7000"
  shows \<open>rpc_result (cstr ''1'') json = cstr ''{"jsonrpc":"2.0","id":1,"result":'' @ json @ cstr ''}''\<close>
proof -
  have \<open>cstr ''{"jsonrpc":"2.0","id":'' @ cstr ''1'' @ cstr '',"result":'' @ json @ cstr ''}'' = cstr ''{"jsonrpc":"2.0","id":1,"result":'' @ json @ cstr ''}''\<close>
    by (simp add: cstr_def)
  then show ?thesis unfolding rpc_result_def by (simp add: snprintf_fits) (simp add: snprintf_fits cstr_def)
qed

lemma chain_info_served:
  "rpc_body S io r chain_info_req = (r, send_response 200 (rpc_result (cstr ''1'') (chain_info_json (rp_chain r))))"
proof -
  have "json_string chain_info_req (cstr ''method'') 64 = Some (cstr ''chain_info'')"
    by (rule json_string_found [where rest = "[0x7d]"]) (simp_all add: chain_info_req_def cstr_def quoted_def)
  moreover have "id_literal chain_info_req = cstr ''1''" by (simp add: chain_info_req_def id_literal_def cstr_def quoted_def json_sep_def)
  ultimately show ?thesis by (simp add: rpc_body_def rpc_method_def handle_chain_info_def send_rpc_result_def Let_def)
qed

lemma chain_info_text:
  assumes "wf_hash (ch_tip_hash c)"
  shows \<open>chain_info_json c = cstr ''{"chain_id":'' @ dec (ch_chain_id c) @ cstr '',"height":'' @ dec (ch_height c) @
      cstr '',"tip_hash":"'' @ hexb (ch_tip_hash c) @ cstr ''","base_fee":'' @ dec (ch_base_fee c) @
      cstr '',"genesis_timestamp_ms":'' @ dec (ch_genesis_timestamp_ms c) @ cstr ''}''\<close>
    and "length (chain_info_json c) < 512" "0 \<notin> set (chain_info_json c)"
proof -
  show \<open>chain_info_json c = cstr ''{"chain_id":'' @ dec (ch_chain_id c) @ cstr '',"height":'' @ dec (ch_height c) @
      cstr '',"tip_hash":"'' @ hexb (ch_tip_hash c) @ cstr ''","base_fee":'' @ dec (ch_base_fee c) @
      cstr '',"genesis_timestamp_ms":'' @ dec (ch_genesis_timestamp_ms c) @ cstr ''}''\<close>
    using assms dec_length(1) [of "ch_chain_id c"] dec_length(1) [of "ch_height c"] dec_length(1) [of "ch_base_fee c"]
      dec_length(1) [of "ch_genesis_timestamp_ms c"]
    unfolding chain_info_json_def by (intro snprintf_fits) (simp add: cstr_def wf)
  then show "0 \<notin> set (chain_info_json c)" by (simp add: cstr_def)
  show "length (chain_info_json c) < 512" unfolding chain_info_json_def by (rule snprintf_length) simp
qed

lemma chain_info_read:
  assumes "wf_hash (ch_tip_hash c)"
  defines "t \<equiv> rpc_result (cstr ''1'') (chain_info_json c)"
  shows "json_get_uint64 t ''chain_id'' = Some (ch_chain_id c)"
    and "json_get_uint64 t ''genesis_timestamp_ms'' = Some (ch_genesis_timestamp_ms c)"
    and "0 \<notin> set t" "length t + 192 \<le> 8192"
proof -
  have len: "length (chain_info_json c) < 7000" using chain_info_text(2) [OF assms(1)] by simp
  have t: \<open>t = cstr ''{"jsonrpc":"2.0","id":1,"result":'' @ chain_info_json c @ cstr ''}''\<close> unfolding t_def by (rule result_text [OF len])
  show "json_get_uint64 t ''chain_id'' = Some (ch_chain_id c)"
    by (rule json_uint_found [where rest = \<open>cstr '',"height":'' @ dec (ch_height c) @ cstr '',"tip_hash":"'' @ hexb (ch_tip_hash c) @
        cstr ''","base_fee":'' @ dec (ch_base_fee c) @ cstr '',"genesis_timestamp_ms":'' @ dec (ch_genesis_timestamp_ms c) @ cstr ''}}''\<close>])
      (simp_all add: t chain_info_text(1) [OF assms(1)] cstr_def quoted_def)
  show "json_get_uint64 t ''genesis_timestamp_ms'' = Some (ch_genesis_timestamp_ms c)"
    by (rule json_uint_found [where rest = "cstr ''}}''"])
      (simp_all add: t chain_info_text(1) [OF assms(1)] cstr_def quoted_def skip_value key_not_hex not_hex)
  show "0 \<notin> set t" using chain_info_text(3) [OF assms(1)] by (simp add: t cstr_def)
  show "length t + 192 \<le> 8192" using len by (simp add: t cstr_def)
qed

lemma account_served:
  assumes "wf_addr a"
  shows "rpc_body S io r (account_req (hexb a)) =
    (r, send_response 200 (rpc_result (cstr ''1'') (account_json (snd (ac_state_get (ch_state (rp_chain r)) a)))))"
proof -
  let ?b = "account_req (hexb a)" and ?p = \<open>cstr ''"params":{"address":"'' @ hexb a @ cstr ''"}}''\<close>
  have "json_string ?b (cstr ''method'') 64 = Some (cstr ''account_get'')"
    by (rule json_string_found [where rest = "[0x2c] @ ?p"]) (simp_all add: account_req_def cstr_def quoted_def)
  moreover have "id_literal ?b = cstr ''1''" by (simp add: account_req_def id_literal_def cstr_def quoted_def json_sep_def)
  moreover have "strstr (quoted (cstr ''params'')) ?b = Some ?p" by (simp add: account_req_def cstr_def quoted_def)
  moreover have "json_string ?p (cstr ''address'') 256 = Some (hexb a)"
    using assms by (intro json_string_found [where rest = "cstr ''}}''"]) (simp_all add: cstr_def quoted_def wf)
  moreover have "ac_hex_decode AC_PUBKEY_SIZE (Some (ac_hex_encode a)) = Some a" using ac_hex_roundtrip [of a] assms by (simp add: wf)
  moreover have "cstr ''account_get'' \<noteq> cstr ''chain_info''" by (simp add: cstr_def)
  ultimately show ?thesis by (simp add: rpc_body_def rpc_method_def handle_account_get_def send_rpc_result_def Let_def)
qed

lemma account_read:
  fixes acc :: ac_account
  defines "t \<equiv> rpc_result (cstr ''1'') (account_json acc)"
  shows "json_get_uint64 t ''nonce'' = Some (acc_nonce acc)" "0 \<notin> set t" "length t < 1000"
    and "json_get_uint64 t ''balance'' = Some (acc_balance acc)" "json_get_uint64 t ''stake'' = Some (acc_stake acc)"
    and "json_get_uint64 t ''unbond_at'' = Some (acc_unbond_at acc)"
proof -
  have a: \<open>account_json acc = cstr ''{"balance":'' @ dec (acc_balance acc) @ cstr '',"nonce":'' @ dec (acc_nonce acc) @
      cstr '',"stake":'' @ dec (acc_stake acc) @ cstr '',"unbond_at":'' @ dec (acc_unbond_at acc) @ cstr ''}''\<close>
    using dec_length(1) [of "acc_balance acc"] dec_length(1) [of "acc_nonce acc"] dec_length(1) [of "acc_stake acc"] dec_length(1) [of "acc_unbond_at acc"]
    unfolding account_json_def by (intro snprintf_fits) (simp add: cstr_def)
  have len: "length (account_json acc) < 256" unfolding account_json_def by (rule snprintf_length) simp
  then have t: \<open>t = cstr ''{"jsonrpc":"2.0","id":1,"result":'' @ account_json acc @ cstr ''}''\<close> unfolding t_def by (intro result_text) simp
  show "json_get_uint64 t ''nonce'' = Some (acc_nonce acc)"
    by (rule json_uint_found [where rest = \<open>cstr '',"stake":'' @ dec (acc_stake acc) @ cstr '',"unbond_at":'' @ dec (acc_unbond_at acc) @ cstr ''}}''\<close>])
      (simp_all add: t a cstr_def quoted_def skip_value)
  show "0 \<notin> set t" by (simp add: t a cstr_def)
  show "length t < 1000" using len by (simp add: t cstr_def)
  show "json_get_uint64 t ''balance'' = Some (acc_balance acc)"
    by (rule json_uint_found [where rest = \<open>cstr '',"nonce":'' @ dec (acc_nonce acc) @ cstr '',"stake":'' @ dec (acc_stake acc) @
        cstr '',"unbond_at":'' @ dec (acc_unbond_at acc) @ cstr ''}}''\<close>]) (simp_all add: t a cstr_def quoted_def skip_value)
  show "json_get_uint64 t ''stake'' = Some (acc_stake acc)"
    by (rule json_uint_found [where rest = \<open>cstr '',"unbond_at":'' @ dec (acc_unbond_at acc) @ cstr ''}}''\<close>])
      (simp_all add: t a cstr_def quoted_def skip_value)
  show "json_get_uint64 t ''unbond_at'' = Some (acc_unbond_at acc)"
    by (rule json_uint_found [where rest = "cstr ''}}''"]) (simp_all add: t a cstr_def quoted_def skip_value)
qed

text \<open>What a client gets for the account of an address.\<close>

lemma account_exchange:
  assumes "url_ok ua url" "frag_ok frag" "wf_addr a" "177 \<le> n" "1192 \<le> cap" "cap \<le> 8192"
  shows "rpc_call ua (serve S io frag) curl url (snprintf n (account_req (hexb a))) cap r =
    Some (Some (rpc_result (cstr ''1'') (account_json (snd (ac_state_get (ch_state (rp_chain r)) a)))), r)"
proof -
  have q: "snprintf n (account_req (hexb a)) = account_req (hexb a)" "length (account_req (hexb a)) < 60000" "0 \<notin> set (account_req (hexb a))"
    using assms(3,4) by (simp_all add: snprintf_fits account_req_def cstr_def wf)
  let ?acc = "snd (ac_state_get (ch_state (rp_chain r)) a)"
  have "length (rpc_result (cstr ''1'') (account_json ?acc)) + 192 \<le> cap" using account_read(3) [of ?acc] assms(5) by simp
  from exchange [OF assms(1,2) q(3,2) account_served [OF assms(3)] account_read(2) this assms(6)] q(1) show ?thesis by simp
qed

lemma submit_served:
  assumes "length bin < 2000" "ac_tx_decode bin = Some tx"
    and "ac_mempool_add S (rp_mempool r) (ch_state (rp_chain r)) tx (ac_chain_current_slot (rp_chain r) (io_now_ms io)) = (rs, mp)"
  shows \<open>rpc_body S io r (submit_req (hexb bin)) =
    (r\<lparr>rp_mempool := mp, rp_out := rp_out r @ (if rs = AC_MP_ACCEPTED \<and> rp_broadcast r then [bin] else [])\<rparr>,
     if rs = AC_MP_ACCEPTED then send_rpc_result (cstr ''1'') (snprintf 128 (cstr ''{"hash":"'' @ hexb (ac_tx_hash S tx) @ cstr ''"}''))
     else send_rpc_error (cstr ''1'') 32000 (ac_mp_result_str rs))\<close>
proof -
  let ?b = "submit_req (hexb bin)" and ?p = \<open>cstr ''"params":{"tx_hex":"'' @ hexb bin @ cstr ''"}}''\<close>
  have "json_string ?b (cstr ''method'') 64 = Some (cstr ''tx_submit'')"
    by (rule json_string_found [where rest = "[0x2c] @ ?p"]) (simp_all add: submit_req_def cstr_def quoted_def)
  moreover have "id_literal ?b = cstr ''1''" by (simp add: submit_req_def id_literal_def cstr_def quoted_def json_sep_def)
  moreover have "strstr (quoted (cstr ''params'')) ?b = Some ?p" by (simp add: submit_req_def cstr_def quoted_def)
  moreover have j: "json_string ?p (cstr ''tx_hex'') 4096 = Some (hexb bin)"
    using assms(1) by (intro json_string_found [where rest = "cstr ''}}''"]) (simp_all add: cstr_def quoted_def)
  moreover have "ac_hex_decode (length bin) (Some (ac_hex_encode bin)) = Some bin" using ac_hex_roundtrip [of bin] by simp
  moreover have "rpc_method S io r (cstr ''tx_submit'') i q = handle_tx_submit S io r i q" for i q
    by (simp add: rpc_method_def) (simp add: cstr_def)
  ultimately show ?thesis
    using assms(1,2) by (simp add: rpc_body_def handle_tx_submit_def Let_def assms(3))
qed

lemma submit_read:
  fixes tx :: ac_tx
  assumes "sodium_ok S"
  defines \<open>t \<equiv> rpc_result (cstr ''1'') (snprintf 128 (cstr ''{"hash":"'' @ hexb (ac_tx_hash S tx) @ cstr ''"}''))\<close>
  shows "json_get_hex t ''hash'' (2 * AC_HASH_SIZE + 1) = Some (hexb (ac_tx_hash S tx))" "0 \<notin> set t" "length t + 192 \<le> 8192"
proof -
  let ?j = \<open>cstr ''{"hash":"'' @ hexb (ac_tx_hash S tx) @ cstr ''"}''\<close>
  have h: "length (ac_tx_hash S tx) = 32" using wf_tx_hash [OF assms(1)] by (simp add: wf)
  then have "snprintf 128 ?j = ?j" by (intro snprintf_fits) (simp add: cstr_def)
  moreover have "length ?j < 7000" using h by (simp add: cstr_def)
  ultimately have t: \<open>t = cstr ''{"jsonrpc":"2.0","id":1,"result":'' @ ?j @ cstr ''}''\<close> unfolding t_def by (simp only: result_text)
  have "ac_tx_hash S tx \<noteq> []" using h by auto
  then show "json_get_hex t ''hash'' (2 * AC_HASH_SIZE + 1) = Some (hexb (ac_tx_hash S tx))"
    using h by (intro json_hex_found [where rest = "cstr ''}}''"]) (simp_all add: t cstr_def quoted_def AC_HASH_SIZE_def)
  show "0 \<notin> set t" "length t + 192 \<le> 8192" using h by (simp_all add: t cstr_def)
qed

lemma refusal_read:
  obtains t where "send_rpc_error (cstr ''1'') 32000 (ac_mp_result_str rs) = send_response 200 t"
    "json_get_hex t ''hash'' cap = None" "0 \<notin> set t" "length t + 192 \<le> 8192"
proof -
  define t where \<open>t = cstr ''{"jsonrpc":"2.0","id":1,"error":{"code":-32000,"message":"'' @ cstr (ac_mp_result_str rs) @ cstr ''"}}''\<close>
  have "decimal 32000 = cstr ''32000''" by (simp add: decimal.simps cstr_def)
  moreover have "length t < 200" by (cases rs) (simp_all add: t_def cstr_def)
  ultimately have "send_rpc_error (cstr ''1'') 32000 (ac_mp_result_str rs) = send_response 200 t"
    by (simp add: send_rpc_error_def t_def cstr_def snprintf_fits)
  moreover have "json_get_hex t ''hash'' cap = None"
    by (cases rs) (simp_all add: t_def json_get_hex_def cstr_def quoted_def snprintf_def)
  moreover have "0 \<notin> set t" by (cases rs) (simp_all add: t_def cstr_def)
  ultimately show ?thesis using that \<open>length t < 200\<close> by simp
qed

lemma tx_build_wf:
  assumes "wf_addr (kp_pk kp)" "length body \<le> AC_TX_BODY_MAX"
  shows "wf_tx (tx_build kp opts cid ts nonce now kind body gas)"
  using assms by (auto simp: tx_build_def Let_def wf_tx_def wf memcpy_into_def unat_of_nat split: option.split)

lemma submit_exchange:
  assumes "sodium_ok S" "url_ok ua url" "frag_ok frag" "length bin < 2000" "ac_tx_decode bin = Some tx"
    and "ac_mempool_add S (rp_mempool r) (ch_state (rp_chain r)) tx (ac_chain_current_slot (rp_chain r) (io_now_ms io)) = (rs, mp)"
  shows "\<exists>t. rpc_call ua (serve S io frag) curl url (snprintf (length (hexb bin) + 256) (submit_req (hexb bin))) 8192 r =
      Some (Some t, r\<lparr>rp_mempool := mp, rp_out := rp_out r @ (if rs = AC_MP_ACCEPTED \<and> rp_broadcast r then [bin] else [])\<rparr>) \<and>
    json_get_hex t ''hash'' (2 * AC_HASH_SIZE + 1) = (if rs = AC_MP_ACCEPTED then Some (hexb (ac_tx_hash S tx)) else None)"
proof -
  have b: "snprintf (length (hexb bin) + 256) (submit_req (hexb bin)) = submit_req (hexb bin)" "length (submit_req (hexb bin)) < 60000"
      "0 \<notin> set (submit_req (hexb bin))"
    using assms(4) by (simp_all add: snprintf_fits submit_req_def cstr_def)
  note x = exchange [OF assms(2,3) b(3,2)] submit_served [OF assms(4-6)]
  show ?thesis
  proof (cases "rs = AC_MP_ACCEPTED")
    case True
    note y = submit_read [OF assms(1), of tx]
    show ?thesis using x(1) [OF _ y(2,3)] x(2) y(1) b(1) True by (auto simp: send_rpc_result_def)
  next
    case False
    obtain t where y: "send_rpc_error (cstr ''1'') 32000 (ac_mp_result_str rs) = send_response 200 t"
        "json_get_hex t ''hash'' (2 * AC_HASH_SIZE + 1) = None" "0 \<notin> set t" "length t + 192 \<le> 8192" by (rule refusal_read)
    show ?thesis using x(1) [OF _ y(3,4)] x(2) y(1,2) b(1) False by auto
  qed
qed

lemma submit_tx_run:
  assumes "so_rpc opts = Some rpc" "key_load S f = Some kp" "length body \<le> AC_TX_BODY_MAX"
    and "call rpc 8192 chain_info_req w = Some (Some t1, w1)" "json_get_uint64 t1 ''chain_id'' = Some cid" "json_get_uint64 t1 ''genesis_timestamp_ms'' = Some ts"
    and "call rpc 8192 (snprintf 512 (account_req (hexb (kp_pk kp)))) w1 = Some (Some t2, w2)" "json_get_uint64 t2 ''nonce'' = Some nonce"
    and "ac_tx_sign S (tx_build kp opts cid ts nonce now kind body gas) kp = Some tx" "ac_tx_encode AC_TX_MAX_BYTES tx = Some bin"
    and "call rpc 8192 (snprintf (length (hexb bin) + 256) (submit_req (hexb bin))) w2 = Some (Some t3, w3)"
    and "json_get_hex t3 ''hash'' (2 * AC_HASH_SIZE + 1) = h"
  shows "submit_tx S call (Content f) now opts kind body gas w =
    Some (case h of None \<Rightarrow> Exit 1 | Some h \<Rightarrow> if h \<noteq> [] then Printed h else Exit 1, w3)"
proof -
  have "fst (ac_node_keypair_load_or_create S [] False (Content f)) = Some (kp, False)"
    using assms(2) by (simp add: ac_node_keypair_load_or_create_def)
  then show ?thesis
    using assms(3) unfolding submit_tx_def assms(1)
    by (auto simp only: or_default_def assms(4-12) os_file.distinct if_False option.case prod.case Option.bind.simps Let_def u64_or_0_def not_le
        split: option.split) simp_all
qed

lemma submit_through:
  fixes r :: ac_rpc and opts :: tx_submit_opts and now :: u64 and kind :: u8 and gas :: u32
  assumes "sodium_ok S" "length seed = AC_SEED_SIZE" "url_ok ua url" "frag_ok frag" "wf_hash (ch_tip_hash (rp_chain r))"
    and "length body \<le> AC_TX_BODY_MAX" "so_rpc opts = Some url"
  defines "kp \<equiv> ac_keypair_from_seed S seed" and "c \<equiv> rp_chain r"
  defines "tx0 \<equiv> tx_build kp opts (ch_chain_id c) (ch_genesis_timestamp_ms c) (acc_nonce (snd (ac_state_get (ch_state c) (kp_pk kp)))) now kind body gas"
  shows "\<exists>tx bin rs mp. tx = tx0\<lparr>tx_sig := tx_sig tx\<rparr> \<and> ac_tx_sign S tx0 kp = Some tx \<and> ac_tx_verify S tx \<and> ac_tx_encode AC_TX_MAX_BYTES tx = Some bin \<and>
    ac_mempool_add S (rp_mempool r) (ch_state c) tx (ac_chain_current_slot c (io_now_ms io)) = (rs, mp) \<and>
    submit_tx S (\<lambda>url cap req. rpc_call ua (serve S io frag) curl url req cap) (Content (key_file kp)) now opts kind body gas r =
      Some (if rs = AC_MP_ACCEPTED then Printed (hexb (ac_tx_hash S tx)) else Exit 1,
        r\<lparr>rp_mempool := mp, rp_out := rp_out r @ (if rs = AC_MP_ACCEPTED \<and> rp_broadcast r then [bin] else [])\<rparr>)"
proof -
  define call where "call = (\<lambda>url cap req. rpc_call ua (serve S io frag) curl url req cap)"
  have pk: "wf_addr (kp_pk kp)" using sodium_ok_keypair(1) [OF assms(1), of seed] assms(2) by (simp add: kp_def wf AC_SEED_SIZE_def)
  have w0: "wf_tx tx0" unfolding tx0_def by (rule tx_build_wf [OF pk assms(6)])
  have snd: "tx_sender tx0 = kp_pk kp" by (simp add: tx0_def tx_build_def Let_def)
  obtain sig where "ac_tx_sign S tx0 kp = Some (tx0\<lparr>tx_sig := sig\<rparr>)" "wf_tx (tx0\<lparr>tx_sig := sig\<rparr>)" "ac_tx_verify S (tx0\<lparr>tx_sig := sig\<rparr>)"
    using ac_tx_sign_verify [OF assms(1) _ w0] snd assms(2) unfolding kp_def by (auto simp: AC_SEED_SIZE_def)
  then obtain tx where tx: "ac_tx_sign S tx0 kp = Some tx" "wf_tx tx" "ac_tx_verify S tx" "tx = tx0\<lparr>tx_sig := tx_sig tx\<rparr>" by fastforce
  define bin where "bin = tx_bytes tx"
  have bin: "ac_tx_encode AC_TX_MAX_BYTES tx = Some bin" "length bin < 2000" "ac_tx_decode bin = Some tx"
    using ac_tx_encode_max [OF tx(2)] tx_bytes_bound(1) [OF tx(2)] ac_tx_decode_encode [OF tx(2)] by (simp_all add: bin_def)
  obtain rs mp where mp: "ac_mempool_add S (rp_mempool r) (ch_state c) tx (ac_chain_current_slot c (io_now_ms io)) = (rs, mp)" by fastforce
  note x = exchange [OF assms(3,4)]
  have c1: "call url 8192 chain_info_req r = Some (Some (rpc_result (cstr ''1'') (chain_info_json c)), r)"
    unfolding c_def call_def by (rule x [OF _ _ chain_info_served chain_info_read(3,4) [OF assms(5)]]) (simp_all add: chain_info_req_def cstr_def)
  have c2: "call url 8192 (snprintf 512 (account_req (hexb (kp_pk kp)))) r =
      Some (Some (rpc_result (cstr ''1'') (account_json (snd (ac_state_get (ch_state c) (kp_pk kp))))), r)"
    unfolding c_def call_def by (rule account_exchange [OF assms(3,4) pk]) simp_all
  obtain t where c3: "call url 8192 (snprintf (length (hexb bin) + 256) (submit_req (hexb bin))) r =
        Some (Some t, r\<lparr>rp_mempool := mp, rp_out := rp_out r @ (if rs = AC_MP_ACCEPTED \<and> rp_broadcast r then [bin] else [])\<rparr>)"
      "json_get_hex t ''hash'' (2 * AC_HASH_SIZE + 1) = (if rs = AC_MP_ACCEPTED then Some (hexb (ac_tx_hash S tx)) else None)"
    using submit_exchange [OF assms(1,3,4) bin(2,3) mp [unfolded c_def]] unfolding call_def by blast
  have h: "hexb (ac_tx_hash S tx) \<noteq> []" using wf_tx_hash [OF assms(1), of tx] length_hexb [of "ac_tx_hash S tx"]
    by (cases "hexb (ac_tx_hash S tx)") (simp_all add: wf)
  note key = key_load_file [OF assms(1,2), folded kp_def]
  note info = chain_info_read(1,2) [OF assms(5), folded c_def]
  note run = submit_tx_run [where call = call, OF assms(7) key assms(6) c1 info c2 account_read(1) tx(1) [unfolded tx0_def] bin(1) c3]
  have e: "(case if rs = AC_MP_ACCEPTED then Some (hexb (ac_tx_hash S tx)) else None of None \<Rightarrow> Exit 1 | Some h \<Rightarrow> if h \<noteq> [] then Printed h else Exit 1) =
      (if rs = AC_MP_ACCEPTED then Printed (hexb (ac_tx_hash S tx)) else Exit 1)" using h by simp
  note run' = run [unfolded e call_def]
  show ?thesis by (rule exI [of _ tx], rule exI [of _ bin], rule exI [of _ rs], rule exI [of _ mp], intro conjI) (rule tx(4) tx(1,3) bin(1) mp run')+
qed

text \<open>
  Claim C10. End to end: \<^verbatim>\<open>agentchain send\<close> through the RPC server of a node offers the node's pool a transaction that transfers
  exactly the given amount to the given address, from the key's account, with the node's chain id, the sender's current
  nonce and a valid signature, however the network cuts the requests. The wallet prints its hash if the pool accepts it
  and fails otherwise; the accepted bytes are passed on to the peers.
\<close>

theorem wallet_send:
  fixes r :: ac_rpc
  assumes "sodium_ok S" "length seed = AC_SEED_SIZE" "url_ok ua url" "plain url" "frag_ok frag" "wf_hash (ch_tip_hash (rp_chain r))" "wf_addr a"
  defines "kp \<equiv> ac_keypair_from_seed S seed" and "c \<equiv> rp_chain r"
  shows "\<exists>tx bin rs mp. ac_tx_verify S tx \<and> tx_sender tx = kp_pk kp \<and> tx_kind tx = AC_TX_TRANSFER \<and>
    ac_body_transfer_decode (tx_body_buf tx) = Some \<lparr>bt_recipient = a, bt_amount = amount\<rparr> \<and>
    tx_chain_id tx = ch_chain_id c \<and> tx_nonce tx = acc_nonce (snd (ac_state_get (ch_state c) (kp_pk kp))) \<and>
    ac_tx_encode AC_TX_MAX_BYTES tx = Some bin \<and>
    ac_mempool_add S (rp_mempool r) (ch_state c) tx (ac_chain_current_slot c (io_now_ms io)) = (rs, mp) \<and>
    cmd_send S (\<lambda>url cap req. rpc_call ua (serve S io frag) curl url req cap) (Content (key_file kp)) now
        [cmd, cstr ''--rpc'', url, cstr ''--to'', hexb a, cstr ''--amount'', dec amount] r =
      Some (if rs = AC_MP_ACCEPTED then Printed (hexb (ac_tx_hash S tx)) else Exit 1,
        r\<lparr>rp_mempool := mp, rp_out := rp_out r @ (if rs = AC_MP_ACCEPTED \<and> rp_broadcast r then [bin] else [])\<rparr>)"
proof -
  let ?argv = "[cmd, cstr ''--rpc'', url, cstr ''--to'', hexb a, cstr ''--amount'', dec amount]"
  let ?b = "\<lparr>bt_recipient = a, bt_amount = amount\<rparr>" and ?o = "parse_submit_opts ?argv"
  have "plain (hexb a)" using hexb_chars [of "hd (hexb a)" a] by (cases "hexb a") (auto simp: plain_def hex_digit_def is_digit_def)
  note p = plain_not [OF assms(4)] plain_not [OF this] plain_not [OF plain_values(1), of amount]
  have ne: "cstr ''--rpc'' \<noteq> cstr ''--to''" "cstr ''--rpc'' \<noteq> cstr ''--amount''" "cstr ''--to'' \<noteq> cstr ''--amount''" by (simp_all add: cstr_def)
  have o: "get_opt ?argv ''--to'' = Some (hexb a)" "get_opt ?argv ''--amount'' = Some (dec amount)" "so_rpc ?o = Some url"
    using p ne by (simp_all add: get_opt_def parse_submit_opts_def)
  have v: "strtoull (dec amount) = amount" using strtoull_decimal(1) [of "[]" amount] by (simp add: dec_def)
  have h: "ac_hex_decode AC_PUBKEY_SIZE (Some (ac_hex_encode a)) = Some a" using ac_hex_roundtrip [of a] assms(7) by (simp add: wf)
  have "wf_transfer ?b" using assms(7) by (simp add: wf)
  from transfer.roundtrip [OF this] ac_body_transfer_encode_eq [OF this]
  obtain body where b: "ac_body_transfer_encode AC_TX_BODY_MAX ?b = Some body" "ac_body_transfer_decode body = Some ?b" "length body \<le> AC_TX_BODY_MAX"
    using assms(7) by (auto simp: wf transfer_bytes_def AC_TX_BODY_MAX_def split: if_splits)
  have eq: "cmd_send S call key now ?argv w = submit_tx S call key now ?o AC_TX_TRANSFER body 1000 w" for call key w
    unfolding cmd_send_def o(1,2) prod.case option.case chars_hexb h v b(1) by (rule refl)
  define tx0 where "tx0 = tx_build kp ?o (ch_chain_id c) (ch_genesis_timestamp_ms c) (acc_nonce (snd (ac_state_get (ch_state c) (kp_pk kp)))) now AC_TX_TRANSFER body 1000"
  have f: "tx_sender tx0 = kp_pk kp" "tx_kind tx0 = AC_TX_TRANSFER" "tx_chain_id tx0 = ch_chain_id c"
      "tx_nonce tx0 = acc_nonce (snd (ac_state_get (ch_state c) (kp_pk kp)))" "tx_body_buf tx0 = body"
    using b(3) by (simp_all add: tx0_def tx_build_def Let_def tx_body_buf_def unat_of_nat)
  obtain tx bin rs mp where tx: "tx = tx0\<lparr>tx_sig := tx_sig tx\<rparr>" "ac_tx_verify S tx" "ac_tx_encode AC_TX_MAX_BYTES tx = Some bin"
      "ac_mempool_add S (rp_mempool r) (ch_state c) tx (ac_chain_current_slot c (io_now_ms io)) = (rs, mp)"
    and run: "submit_tx S (\<lambda>url cap req. rpc_call ua (serve S io frag) curl url req cap) (Content (key_file kp)) now ?o AC_TX_TRANSFER body 1000 r =
      Some (if rs = AC_MP_ACCEPTED then Printed (hexb (ac_tx_hash S tx)) else Exit 1,
        r\<lparr>rp_mempool := mp, rp_out := rp_out r @ (if rs = AC_MP_ACCEPTED \<and> rp_broadcast r then [bin] else [])\<rparr>)"
    using submit_through [OF assms(1-3,5,6) b(3) o(3), of now AC_TX_TRANSFER 1000 io curl, folded kp_def c_def, folded tx0_def]
    by (elim exE conjE) (rule that; assumption)
  have g: "tx_sender tx = tx_sender tx0" "tx_kind tx = tx_kind tx0" "tx_chain_id tx = tx_chain_id tx0" "tx_nonce tx = tx_nonce tx0" "tx_body_buf tx = tx_body_buf tx0"
    by (subst tx(1), simp add: tx_body_buf_def)+
  show ?thesis
    unfolding eq by (rule exI [of _ tx], rule exI [of _ bin], rule exI [of _ rs], rule exI [of _ mp], intro conjI)
      (rule tx(2-4) run | simp only: g f b(2))+
qed

definition demo_url :: bytes where "demo_url = cstr ''http://127.0.0.1:30304''"
definition demo_ua :: bytes where "demo_ua = cstr ''agentchain''"
definition demo_frag :: "bytes \<Rightarrow> bytes list" where "demo_frag x = map (\<lambda>b. [b]) x"

lemma demo_frag_ok: "frag_ok demo_frag"
  by (simp add: frag_ok_def demo_frag_def list_all_iff concat_map_singleton)

lemma demo_url_ok: "url_ok demo_ua demo_url"
proof -
  let ?h = "cstr ''127.0.0.1''" and ?p = "cstr ''30304''"
  have "strip_scheme demo_url = ?h @ 0x3a # ?p" by (simp add: strip_scheme_def demo_url_def cstr_def)
  moreover have "takeWhile (\<lambda>b. b \<noteq> 0x2f) (snprintf 256 (?h @ 0x3a # ?p)) = ?h @ 0x3a # ?p" by (simp add: snprintf_def cstr_def)
  moreover have "split_colon (?h @ 0x3a # ?p) = Some (?h, ?p)" by (rule split_colon_append) (simp add: cstr_def)
  moreover have "atoi ?p = 30304" using atoi_decimal [of 30304] by (simp add: decimal.simps cstr_def)
  moreover have "length ?h < 256" by (simp add: cstr_def)
  ultimately have "rpc_host (strip_scheme demo_url) = (?h, 30304)" by (simp add: rpc_host_def Let_def parse_host_port_def)
  then show ?thesis by (simp add: url_ok_def line_ok_def) (simp add: demo_url_def demo_ua_def cstr_def)
qed

theorem wallet_send_witness:
  "\<exists>tx bin rs mp. ac_tx_verify demo_sodium tx \<and>
    ac_body_transfer_decode (tx_body_buf tx) = Some \<lparr>bt_recipient = 2 # zeros 31, bt_amount = 5\<rparr> \<and> ac_tx_encode AC_TX_MAX_BYTES tx = Some bin \<and>
    ac_mempool_add demo_sodium (rp_mempool demo_rpc) (ch_state (rp_chain demo_rpc)) tx
      (ac_chain_current_slot (rp_chain demo_rpc) (io_now_ms demo_io)) = (rs, mp) \<and>
    cmd_send demo_sodium (\<lambda>url cap req. rpc_call demo_ua (serve demo_sodium demo_io demo_frag) (\<lambda>_ _ w. (None, w)) url req cap)
        (Content (key_file (ac_keypair_from_seed demo_sodium (1 # zeros 31)))) 10000
        [[], cstr ''--rpc'', demo_url, cstr ''--to'', hexb (2 # zeros 31), cstr ''--amount'', dec (5 :: u64)] demo_rpc =
      Some (if rs = AC_MP_ACCEPTED then Printed (hexb (ac_tx_hash demo_sodium tx)) else Exit 1,
        demo_rpc\<lparr>rp_mempool := mp, rp_out := rp_out demo_rpc @ (if rs = AC_MP_ACCEPTED \<and> rp_broadcast demo_rpc then [bin] else [])\<rparr>)"
proof -
  have t: "wf_hash (ch_tip_hash (rp_chain demo_rpc))" by (simp add: demo_rpc_def wf)
  have l: "length (1 # zeros 31 :: bytes) = AC_SEED_SIZE" "wf_addr (2 # zeros 31)" "plain demo_url"
    by (simp_all add: AC_SEED_SIZE_def wf plain_def demo_url_def cstr_def)
  show ?thesis
    using wallet_send [OF sodium_ok_demo l(1) demo_url_ok l(3) demo_frag_ok t l(2), of 5 demo_io "\<lambda>_ _ w. (None, w)" 10000 "[]"]
    by (elim exE conjE) (intro exI conjI; assumption)
qed

section \<open>Showing an account\<close>

text \<open>
  Claim C38. What the wallet shows is what the ledger holds: the balance, nonce and stake that \<^verbatim>\<open>agentchain balance\<close> prints for
  an address are those of the account in the state of the node it asks, and asking changes nothing.
\<close>

theorem balance_shows_account:
  fixes r :: ac_rpc
  assumes "url_ok ua url" "frag_ok frag" "wf_addr a" "plain url"
  defines "acc \<equiv> snd (ac_state_get (ch_state (rp_chain r)) a)"
  shows "cmd_balance S (\<lambda>url cap req. rpc_call ua (serve S io frag) curl url req cap) key
      [cmd, cstr ''--rpc'', url, cstr ''--address'', hexb a] r =
    Some (Printed (line ''address: '' (hexb a) @ line ''balance: '' (dec (acc_balance acc) @ [0x20] @ micro_crd) @
        line ''nonce:   '' (dec (acc_nonce acc)) @
        line ''stake:   '' (dec (acc_stake acc) @ [0x20] @ micro_crd @
          (if AC_MIN_STAKE_UCRD \<le> acc_stake acc then cstr '' (active validator)'' else [])) @
        (if acc_unbond_at acc \<noteq> 0 then line ''unbond_at: slot '' (dec (acc_unbond_at acc)) else [])), r)"
proof -
  have "cstr ''--rpc'' \<noteq> cstr ''--address''" by (simp add: cstr_def)
  then have "get_opt [cmd, cstr ''--rpc'', url, cstr ''--address'', hexb a] ''--rpc'' = Some url"
      "get_opt [cmd, cstr ''--rpc'', url, cstr ''--address'', hexb a] ''--address'' = Some (hexb a)"
    using plain_not [OF assms(4)] by (simp_all add: get_opt_def)
  moreover have "rpc_call ua (serve S io frag) curl url (snprintf 256 (account_req (hexb a))) 4096 r =
      Some (Some (rpc_result (cstr ''1'') (account_json acc)), r)"
    unfolding acc_def by (rule account_exchange [OF assms(1-3)]) simp_all
  ultimately show ?thesis
    by (simp add: cmd_balance_def or_default_def Let_def balance_text_def account_read u64_or_0_def)
qed

theorem balance_shows_account_witness:
  "\<exists>out. cmd_balance demo_sodium (\<lambda>url cap req. rpc_call demo_ua (serve demo_sodium demo_io demo_frag) (\<lambda>_ _ w. (None, w)) url req cap) Absent
      [[], cstr ''--rpc'', demo_url, cstr ''--address'', hexb (1 # zeros 31)] demo_rpc = Some (Printed out, demo_rpc) \<and>
    prefix (line ''address: '' (hexb (1 # zeros 31))) out"
proof -
  have "wf_addr (1 # zeros 31)" "plain demo_url" by (simp_all add: wf plain_def demo_url_def cstr_def)
  note r = balance_shows_account [OF demo_url_ok demo_frag_ok this, of demo_sodium demo_io "\<lambda>_ _ w. (None, w)" Absent "[]" demo_rpc]
  show ?thesis unfolding r by (intro exI conjI) (rule refl, rule prefixI, rule refl)
qed

section \<open>Long host names\<close>

text \<open>
  The header of a request is printed into 256 bytes but sent with the length it should have had: for every
  host name of 146 characters or more that it can connect to, the client reads outside its buffer, whatever it asks.
\<close>

theorem long_host_overruns:
  assumes "\<not> prefix (cstr ''https://'') url" "rpc_host (strip_scheme url) = (host, port)" "146 \<le> length host" "net host port \<noteq> None"
  shows "rpc_call ua net curl url body resp_cap w = None"
proof -
  have "1 \<le> length (decimal (length body))" using decimal_not_Nil [of "length body"] by (cases "decimal (length body)") auto
  then show ?thesis
    using assms length_header [of ua host body] by (auto simp: rpc_call_def http_post_native_def http_header_def Let_def)
qed

theorem long_host_overruns_witness:
  "submit_tx demo_sodium (\<lambda>url cap req. rpc_call [] (serve demo_sodium demo_io demo_frag) (\<lambda>_ _ w. (None, w)) url req cap)
     (Content (key_file (ac_keypair_from_seed demo_sodium (1 # zeros 31)))) 0 ((parse_submit_opts [])\<lparr>so_rpc := Some (replicate 150 0x61)\<rparr>) AC_TX_STAKE_UNBOND (zeros 8) 100 demo_rpc = None"
proof -
  let ?u = "replicate 150 (0x61 :: byte)"
  have "?u = 0x61 # replicate 149 0x61" by (simp flip: replicate_Suc)
  then have "\<not> prefix (0x68 # x) ?u" for x by simp
  then have "strip_scheme ?u = ?u" "\<not> prefix (cstr ''https://'') ?u" by (simp_all add: strip_scheme_def cstr_def)
  moreover have "takeWhile (\<lambda>b. b \<noteq> 0x2f) (snprintf 256 ?u) = ?u" "split_colon ?u = None"
    by (simp_all add: snprintf_def split_colon_def takeWhile_replicate)
  then have "rpc_host ?u = (?u, 30304)" by (simp add: rpc_host_def Let_def parse_host_port_def)
  ultimately have call: "rpc_call [] (serve demo_sodium demo_io demo_frag) curl ?u body 8192 w = None" for curl body w
    by (intro long_host_overruns [where host = ?u and port = 30304]) (simp_all only: length_replicate, simp_all add: serve_def)
  have "key_load demo_sodium (key_file (ac_keypair_from_seed demo_sodium (1 # zeros 31))) = Some (ac_keypair_from_seed demo_sodium (1 # zeros 31))"
    by (rule key_load_file [OF sodium_ok_demo]) (simp add: AC_SEED_SIZE_def)
  then show ?thesis by (simp add: submit_tx_def ac_node_keypair_load_or_create_def or_default_def call)
qed

end
