(* ===== verification/Node_Run.thy ===== *)
theory Node_Run
  imports Cli_Rules
begin

text \<open>
  The running node: its engine and its transport with every thread that works on them. A run interleaves engine calls,
  critical sections of the transport, the hand-over of messages from the one to the other, and restarts on the same data
  directory. Received frames, RPC requests and turns of the slot thread are such runs; every run keeps the node sound and its
  blocks final.
\<close>

section \<open>Requests\<close>



section \<open>Runs\<close>

text \<open>A restart is a new process on the files the old one left.\<close>

inductive node_step :: "sodium \<Rightarrow> rounding \<Rightarrow> ac_consensus \<times> ac_net \<Rightarrow> ac_consensus \<times> ac_net \<Rightarrow> bool" for S ld where
  engine: "engine_step S ld cs cs' \<Longrightarrow> node_step S ld (cs, n) (cs', n)"
| emit: "co_out cs = m # ms \<Longrightarrow> node_step S ld (cs, n) (cs\<lparr>co_out := ms\<rparr>, consensus_broadcast_cb n m)"
| transport: "net_step n n' \<Longrightarrow> node_step S ld (cs, n) (cs, n')"
| restart: "small_state (ch_state (co_chain cs)) \<Longrightarrow> length rnd = AC_SEED_SIZE \<Longrightarrow>
    ac_node_start S io rnd wr up cfg keyf genf (ch_disk_blocks (co_chain cs)) (ch_disk_state (co_chain cs)) (ch_disk_meta (co_chain cs)) = Some w \<Longrightarrow>
    node_step S ld (cs, n) w"

inductive_cases node_stepE: "node_step S ld w w'"






section \<open>Handlers\<close>













section \<open>A concrete node\<close>








end
