(* ===== verification/Files.thy ===== *)
theory Files
  imports Net
begin

text \<open>
  The file helpers of \<^verbatim>\<open>common.c\<close>: reading a whole file, and replacing one so that a crash leaves the old or the
  new content. A file system is a map from paths to contents; a system call is a step from one to the next.
\<close>

section \<open>Reading\<close>

type_synonym fs = "bytes \<rightharpoonup> bytes"

text \<open>
  The calls of \<^verbatim>\<open>read\<close>: each gives some of the bytes that are left, an interrupt or an error. The file was
  \<open>len\<close> bytes long when it was opened.
\<close>

datatype read_event = Got nat | Read_intr | Read_fail

fun read_loop :: "nat \<Rightarrow> bytes \<Rightarrow> read_event list \<Rightarrow> bytes \<Rightarrow> bytes option" where
  "read_loop len rest [] buf = (if length buf < len then None else Some buf)"
| "read_loop len rest (e # es) buf =
     (if length buf < len then
        (case e of
           Read_intr \<Rightarrow> read_loop len rest es buf
         | Read_fail \<Rightarrow> None
         | Got n \<Rightarrow> let r = take (min n (len - length buf)) rest
             in if r = [] then Some buf else read_loop len (drop (length r) rest) es (buf @ r))
      else Some buf)"

definition ac_file_read_all :: "fs \<Rightarrow> bytes \<Rightarrow> read_event list \<Rightarrow> bytes option" where
  "ac_file_read_all fs path es =
     (case fs path of None \<Rightarrow> None | Some content \<Rightarrow> read_loop (length content) content es [])"

section \<open>Replacing a file\<close>

definition tmp_path :: "bytes \<Rightarrow> bytes" where
  "tmp_path path = path @ cstr ''.tmp''"

text \<open>
  The loop over \<^verbatim>\<open>write\<close>: if everything was written, and the file systems after each call. The end of the script
  is an error.
\<close>

fun write_loop :: "bytes \<Rightarrow> bytes \<Rightarrow> send_event list \<Rightarrow> fs \<Rightarrow> bool \<times> fs list" where
  "write_loop tmp [] es fs = (True, [fs])"
| "write_loop tmp buf [] fs = (False, [fs])"
| "write_loop tmp buf (e # es) fs =
     (case e of
        Send_intr \<Rightarrow> write_loop tmp buf es fs
      | Send_fail \<Rightarrow> (False, [fs])
      | Sent n \<Rightarrow>
        (case write_loop tmp (drop n buf) es (fs(tmp \<mapsto> the (fs tmp) @ take n buf)) of
           (ok, tr) \<Rightarrow> (ok, fs # tr)))"

text \<open>
  \<open>opened\<close>, \<open>synced\<close> and \<open>renamed\<close> tell if these calls succeed. The result is the return value and every file system a
  crash could leave, the last one being the one at the return.
\<close>

definition ac_file_write_atomic ::
  "bool \<Rightarrow> bool \<Rightarrow> bool \<Rightarrow> bytes \<Rightarrow> bytes \<Rightarrow> send_event list \<Rightarrow> fs \<Rightarrow> bool \<times> fs list" where
  "ac_file_write_atomic opened synced renamed path buf es fs =
     (let tmp = tmp_path path
      in if length tmp \<ge> 1024 then (False, [fs])
         else if \<not> opened then (False, [fs])
         else case write_loop tmp buf es (fs(tmp \<mapsto> [])) of
             (ok, tr) \<Rightarrow>
               let f = last tr
               in if \<not> ok then (False, fs # tr @ [f(tmp := None)])
                  else if \<not> synced then (False, fs # tr @ [f(tmp := None)])
                  else if \<not> renamed then (False, fs # tr @ [f(tmp := None)])
                  else (True, fs # tr @ [f(path := f tmp, tmp := None)]))"

definition ac_file_exists :: "fs \<Rightarrow> bytes \<Rightarrow> bool" where
  "ac_file_exists fs path \<longleftrightarrow> path \<in> dom fs"

section \<open>A crash leaves the old or the new file\<close>

lemma write_loop_spec:
  assumes "fs tmp = Some w"
  shows "list_all (\<lambda>f. \<forall>p. p \<noteq> tmp \<longrightarrow> f p = fs p) (snd (write_loop tmp buf es fs)) \<and> snd (write_loop tmp buf es fs) \<noteq> [] \<and>
    (fst (write_loop tmp buf es fs) \<longrightarrow> last (snd (write_loop tmp buf es fs)) tmp = Some (w @ buf))"
  using assms
proof (induction tmp buf es fs arbitrary: w rule: write_loop.induct)
  case (3 tmp b bs e es fs)
  show ?case
  proof (cases e)
    case (Sent n)
    let ?f = "fs(tmp \<mapsto> the (fs tmp) @ take n (b # bs))"
    obtain ok tr where r: "write_loop tmp (drop n (b # bs)) es ?f = (ok, tr)" by fastforce
    have "?f tmp = Some (w @ take n (b # bs))" using 3(3) by simp
    from 3(1) [OF Sent this, unfolded r] have "list_all (\<lambda>f. \<forall>p. p \<noteq> tmp \<longrightarrow> f p = fs p) tr" "tr \<noteq> []"
        "ok \<longrightarrow> last tr tmp = Some (w @ b # bs)" by (simp_all add: list_all_iff)
    then show ?thesis using Sent r by simp
  qed (use 3 in auto)
qed auto

lemma write_atomic_facts:
  fixes fs :: fs and opened synced renamed :: bool and path buf :: bytes and es :: "send_event list"
  defines "r \<equiv> ac_file_write_atomic opened synced renamed path buf es fs"
  shows "(\<forall>f\<in>set (snd r). (f path = fs path \<or> f path = Some buf) \<and> (\<forall>p. p \<noteq> path \<and> p \<noteq> tmp_path path \<longrightarrow> f p = fs p)) \<and>
    last (snd r) path = (if fst r then Some buf else fs path)"
proof -
  have d: "tmp_path path \<noteq> path" "path \<noteq> tmp_path path" by (simp_all add: tmp_path_def cstr_def)
  obtain ok tr where w: "write_loop (tmp_path path) buf es (fs(tmp_path path \<mapsto> [])) = (ok, tr)" by fastforce
  from write_loop_spec [of "fs(tmp_path path \<mapsto> [])" "tmp_path path" "[]" buf es] w
  have tr: "\<forall>f\<in>set tr. \<forall>p. p \<noteq> tmp_path path \<longrightarrow> f p = fs p" "tr \<noteq> []" "ok \<longrightarrow> last tr (tmp_path path) = Some buf"
    by (auto simp: list_all_iff)
  then have "\<forall>p. p \<noteq> tmp_path path \<longrightarrow> last tr p = fs p" by simp
  then show ?thesis using tr d by (auto simp: r_def ac_file_write_atomic_def Let_def w)
qed



text \<open>Without errors a file is read whole, however the reads are cut.\<close>

fun got :: "read_event list \<Rightarrow> nat" where
  "got [] = 0"
| "got (Got n # es) = n + got es"
| "got (_ # es) = got es"

lemma read_loop_all:
  assumes "list_all (\<lambda>e. e \<noteq> Read_fail \<and> e \<noteq> Got 0) es" "length rest \<le> got es" "len = length buf + length rest"
  shows "read_loop len rest es buf = Some (buf @ rest)"
  using assms
proof (induction es arbitrary: rest buf)
  case (Cons e es)
  show ?case
  proof (cases "rest = []")
    case False
    show ?thesis
    proof (cases e)
      case (Got n)
      then have n: "n \<noteq> 0" using Cons.prems(1) by auto
      let ?r = "take n rest"
      have "read_loop len (drop n rest) es (buf @ ?r) = Some ((buf @ ?r) @ drop n rest)"
        using Cons.prems Got by (intro Cons.IH) auto
      moreover have "take (min n (len - length buf)) rest = ?r" using Cons.prems(3) by (simp add: min_def)
      moreover have "drop (length ?r) rest = drop n rest" by (simp add: min_def)
      ultimately show ?thesis using Got n False Cons.prems(3) by simp
    qed (use Cons False in auto)
  qed (use Cons.prems in simp)
qed simp

lemma read_after_write:
  assumes "ac_file_write_atomic opened synced renamed path buf es fs = (True, tr)"
    and "list_all (\<lambda>e. e \<noteq> Read_fail \<and> e \<noteq> Got 0) rs" "length buf \<le> got rs"
  shows "ac_file_read_all (last tr) path rs = Some buf"
  using write_atomic_facts [of opened synced renamed path buf es fs] assms by (simp add: ac_file_read_all_def read_loop_all)

end
