(* ===== verification/Spec2Isabelle.thy ===== *)
theory Spec2Isabelle
  imports Node_Run Files
begin

text \<open>
  A verification library for AgentChain, a proof-of-stake ledger written in C (\<^verbatim>\<open>src/src\<close>).

  \<^bold>\<open>The program.\<close> A node holds a chain of blocks over a state of accounts and names (\<^verbatim>\<open>chain.c\<close>,
  \<^verbatim>\<open>state.c\<close>). Transactions and blocks have a canonical binary format (\<^verbatim>\<open>codec.c\<close>) and are signed through
  libsodium (\<^verbatim>\<open>crypto.c\<close>). Pending transactions wait in a pool (\<^verbatim>\<open>mempool.c\<close>). The consensus engine
  (\<^verbatim>\<open>consensus.c\<close>) draws leaders and committees from a verifiable random function, collects votes and commits
  blocks; the transport (\<^verbatim>\<open>net.c\<close>) carries blocks, votes and transactions between peers. The daemon
  (\<^verbatim>\<open>node.c\<close>) connects these parts by callbacks and serves JSON-RPC clients (\<^verbatim>\<open>rpc.c\<close>), one of which is
  the wallet in the command line (\<^verbatim>\<open>main.c\<close>).

  \<^bold>\<open>Conventions.\<close> Definitions carry the names of the C functions and types. A struct is a \<^verbatim>\<open>record\<close>, a
  \<^verbatim>\<open>uintN_t\<close> a word of that width with its wrap-around, an \<^verbatim>\<open>int64_t\<close> a signed reading of one, a buffer the
  list of its bytes, a C string the list of its bytes before the terminating zero. A function that can fail returns an option, a
  result code or a pair with a flag; a function that changes a struct returns it. What the operating system decides is an
  argument: the clock and the success of file writes (\<open>ac_io\<close>), the results of the calls that receive and send on
  a socket or read and write a file (lists of events), random bytes. libsodium is the record
  \<open>sodium\<close> of its functions, with the hypothesis \<open>sodium_ok\<close>: outputs have the documented lengths, a secret
  key starts with its seed, and a signature made with a key pair verifies. Nothing is assumed about collisions or
  forgeries. \<^verbatim>\<open>long double\<close> arithmetic of the committee draw is exact arithmetic followed by an
  arbitrary rounding \<open>ld\<close> after every operation.

  \<^bold>\<open>Theories\<close>, in the order of their imports:

  \<^item> \<open>Prelude\<close>, \<open>Common\<close>, \<open>Crypto\<close>, \<open>Text\<close>: words, buffers, array idioms; \<^verbatim>\<open>common.c\<close> (byte order,
    comparison, hex, integer square root with its termination and correctness); \<^verbatim>\<open>crypto.c\<close>; what the sources
    use of the C library on text.

  \<^item> \<open>Codec\<close>, \<open>Block\<close>: the two halves of \<^verbatim>\<open>codec.c\<close>. The locales \<open>wire_codec\<close> and
    \<open>prefix_codec\<close> state the contract of a format; every body, the transaction, the header, the block and the vote
    interpret one of them. Decoders accept exactly the encodings of well-formed values.

  \<^item> \<open>State\<close>, \<open>Apply\<close>: \<^verbatim>\<open>state.c\<close>. The locale \<open>ordered_array\<close> is the contract of the binary
    searches over accounts and names, \<open>account_store\<close> that of the account map, over which the conservation of money is
    proved. \<open>Apply\<close> is \<^verbatim>\<open>ac_state_apply_tx\<close> with every check and body: conservation, no replay, and the
    cases in which the code creates or destroys money.

  \<^item> \<open>Mempool\<close>: \<^verbatim>\<open>mempool.c\<close>, its invariant over all operations and the soundness of admission. The locale
    \<open>tx_source\<close> is what block construction relies on.

  \<^item> \<open>Chain\<close>, \<open>Chain_Rules\<close>, \<open>Chain_Index\<close>, \<open>Accept\<close>, \<open>Ledger\<close>, \<open>Chain_Run\<close>:
    \<^verbatim>\<open>chain.c\<close>. \<open>Chain\<close> has the files, indexes, genesis, opening, fees and sortition; \<open>Accept\<close> has
    block acceptance with its rollback, and block construction. The locale \<open>weighted_quorum\<close> gives the intersection of
    quorums, \<open>qsort_cmp\<close> the contract of the comparison functions. \<open>Ledger\<close> shows what acceptance and
    construction give together; \<open>Chain_Run\<close> has the step relation of a chain with restarts, its invariant, and that
    opening a data directory restores what was there.

  \<^item> \<open>Consensus\<close>, \<open>Consensus_Rules\<close>, \<open>Consensus_Run\<close>: \<^verbatim>\<open>consensus.c\<close>. Pending blocks, votes, both
    message handlers and the phases of a slot. The step relation \<open>engine_step\<close> interleaves them in any order; every run
    of the engine is a run of the chain, so the invariant and the finality of the chain hold in it.

  \<^item> \<open>Net\<close>, \<open>Net_Rules\<close>: \<^verbatim>\<open>net.c\<close>, one function per critical section. The locale \<open>fifo\<close> is the
    contract of the outbound queue, \<open>slot_sweep\<close> that of the loops over the peer table. The invariant holds for any
    interleaving of the threads.

  \<^item> \<open>Files\<close>: the file helpers of \<^verbatim>\<open>common.c\<close> as traces of file systems, so that a crash between any two
    system calls is a point of the trace.

  \<^item> \<open>Node\<close>, \<open>Node_Rules\<close>: \<^verbatim>\<open>node.c\<close>. Key and genesis files, the callbacks, the start of a node.

  \<^item> \<open>Rpc\<close>, \<open>Rpc_Rules\<close>: \<^verbatim>\<open>rpc.c\<close>. Reading of a request, the scanner, every method with the buffer it
    prints into. The relation \<open>rpc_effect\<close> says all a request can change.

  \<^item> \<open>Cli\<close>, \<open>Cli_Rules\<close>: \<^verbatim>\<open>main.c\<close>. Options, the HTTP client, the wallet commands, the genesis writer,
    the configuration of a node. The client's request is run against the server's \<^verbatim>\<open>handle_client\<close>, so the properties
    are about both ends.

  \<^item> \<open>Node_Run\<close>: the whole node. \<open>node_step\<close> interleaves engine calls, the hand-over of broadcasts, critical
    sections of the transport and restarts; frames, RPC requests and turns of the slot thread are runs of it.

  \<^bold>\<open>What is shown.\<close> Safety of the ledger: two accepted blocks at one height with distinct signers expose a
  slashable validator; acceptance has exactly the effects of the block's transactions and reward, and rejection none; blocks
  that leaders build are accepted; money is conserved outside the cases named. Safety of the node: every run, with restarts,
  keeps the chain reachable from genesis and its blocks final. Transport and clients: messages survive any fragmentation,
  queues and buffers keep their bounds, hostile input is parsed inside its buffer, the wallet's transaction reaches the
  pool as it was signed. Where the code falls short the theorem says so on the model: signers repeated in a certificate, votes
  that move to a second block, forged signers that block a commit, transfers to oneself, reward and fee arithmetic, catch-up
  answers that disconnect the peer.

  \<^bold>\<open>Bounds.\<close> There is no fuel: loops are structural recursions or have a termination proof. A loop over a socket or a
  file recurses on the list of what the system calls return; a list that ends early stands for a connection that closes or a
  read that fails.
  States are saved with 32-bit counts, so the theorems on files assume fewer than $2^{32}$ accounts and names
  (\<open>small_state\<close>). Table sizes and limits are those of the headers.

  \<^bold>\<open>Not modelled.\<close> Thread creation and joining, locks (a critical section is one step), sockets, name resolution,
  the clock, logging, directory creation and the release and secure zeroing of memory are operating-system effects with no state
  of the program in them. Allocation is taken to succeed. Of the command line, the external \<^verbatim>\<open>curl\<close> process used
  for https is a parameter; the usage and version texts, the dispatch on the first argument and the wait for a
  signal are console I/O. \<^verbatim>\<open>portable.h\<close> maps names of socket calls between platforms. \<^verbatim>\<open>priority_of\<close> in
  \<^verbatim>\<open>chain.c\<close> has no caller. No timing or fairness of the network is modelled, so nothing is claimed about when a
  block is committed.
\<close>

end
